(* ===== verification/Kanari_Prelude.thy ===== *)
theory Kanari_Prelude
  imports Main "HOL-Library.Word" "HOL-Library.List_Lexorder" "HOL-Library.AList"
begin

unbundle bit_operations_syntax

text \<open>
  The vocabulary the component theories share: the machine integers of the Rust sources as
  words of their width, the checked and saturating operations of the standard library on them,
  the fixed-size array \<^verbatim>\<open>[u8; 32]\<close> as the type \<open>hash32\<close> (with its lexicographic order, the
  \<^verbatim>\<open>Ord\<close> of Rust arrays), and generic facts on lists, option values and sums.
\<close>

named_theorems rust_arith \<open>what the checked and saturating integer operations compute\<close>

section \<open>Integers\<close>

type_synonym u8 = "8 word"
type_synonym u16 = "16 word"
type_synonym u32 = "32 word"
type_synonym u64 = "64 word"
type_synonym byte = u8
type_synonym bytes = "byte list"

definition checked_add :: "'a::len word \<Rightarrow> 'a word \<Rightarrow> 'a word option" where
  "checked_add a b = (if unat a + unat b < 2 ^ LENGTH('a) then Some (a + b) else None)"

definition saturating_add :: "'a::len word \<Rightarrow> 'a word \<Rightarrow> 'a word" where
  "saturating_add a b = (if unat a + unat b < 2 ^ LENGTH('a) then a + b else - 1)"

definition saturating_sub :: "'a::len word \<Rightarrow> 'a word \<Rightarrow> 'a word" where
  "saturating_sub a b = (if b \<le> a then a - b else 0)"

definition saturating_mul :: "'a::len word \<Rightarrow> 'a word \<Rightarrow> 'a word" where
  "saturating_mul a b = (if unat a * unat b < 2 ^ LENGTH('a) then a * b else - 1)"

lemma unat_lt_size [simp]: "unat (a :: 'a::len word) < 2 ^ LENGTH('a)"
  by (rule unsigned_less)

lemma unat_max_word: "unat (- 1 :: 'a::len word) = 2 ^ LENGTH('a) - 1"
  by (simp add: unsigned_minus_1_eq_mask mask_eq_exp_minus_1)

lemma checked_add_Some [rust_arith]:
  "checked_add a b = Some c \<longleftrightarrow> c = a + b \<and> unat a + unat b < 2 ^ LENGTH('a)"
  for a b c :: "'a::len word"
  by (auto simp: checked_add_def)

lemma checked_add_None [rust_arith]:
  "checked_add a b = None \<longleftrightarrow> 2 ^ LENGTH('a) \<le> unat a + unat b" for a b :: "'a::len word"
  by (auto simp: checked_add_def)

lemma unat_add_no_wrap:
  "unat a + unat b < 2 ^ LENGTH('a) \<Longrightarrow> unat (a + b) = unat a + unat b" for a b :: "'a::len word"
  by (simp add: unat_word_ariths)

lemma unat_mult_no_wrap:
  "unat a * unat b < 2 ^ LENGTH('a) \<Longrightarrow> unat (a * b) = unat a * unat b" for a b :: "'a::len word"
  by (simp add: unat_word_ariths)

lemma unat_checked_add:
  "checked_add a b = Some c \<Longrightarrow> unat c = unat a + unat b" for a b :: "'a::len word"
  by (auto simp: checked_add_Some unat_add_no_wrap)

lemma unat_saturating_add [rust_arith]:
  "unat (saturating_add a b) = min (unat a + unat b) (2 ^ LENGTH('a) - 1)" for a b :: "'a::len word"
  by (auto simp: saturating_add_def unat_add_no_wrap unat_max_word min_def)

lemma unat_saturating_sub [rust_arith]:
  "unat (saturating_sub a b) = unat a - unat b" for a b :: "'a::len word"
  by (auto simp: saturating_sub_def unat_sub word_le_nat_alt)

lemma unat_saturating_mul [rust_arith]:
  "unat (saturating_mul a b) = min (unat a * unat b) (2 ^ LENGTH('a) - 1)" for a b :: "'a::len word"
proof (cases "unat a * unat b < 2 ^ LENGTH('a)")
  case True
  then show ?thesis by (simp add: saturating_mul_def unat_mult_no_wrap)
next
  case False
  then have "2 ^ LENGTH('a) - 1 \<le> unat a * unat b" by simp
  with False show ?thesis by (simp add: saturating_mul_def unat_max_word min_absorb2)
qed

section \<open>Maps of the standard library\<close>

text \<open>
  A \<^verbatim>\<open>BTreeMap\<close> is the association list of its entries in key order, which is the order it is
  iterated in; a \<^verbatim>\<open>HashMap\<close> that is iterated is an association list with distinct keys (its order
  is the one the list happens to have, and no property depends on it); a \<^verbatim>\<open>HashMap\<close> that is only
  looked up is a partial function.
\<close>

fun btree_insert :: "'k::linorder \<Rightarrow> 'v \<Rightarrow> ('k \<times> 'v) list \<Rightarrow> ('k \<times> 'v) list" where
  "btree_insert k v [] = [(k, v)]"
| "btree_insert k v ((k', v') # xs) =
     (if k < k' then (k, v) # (k', v') # xs
      else if k = k' then (k, v) # xs
      else (k', v') # btree_insert k v xs)"

definition btree_invar :: "('k::linorder \<times> 'v) list \<Rightarrow> bool" where
  "btree_invar xs \<longleftrightarrow> sorted_wrt (<) (map fst xs)"

definition hashmap_invar :: "('k \<times> 'v) list \<Rightarrow> bool" where
  "hashmap_invar xs \<longleftrightarrow> distinct (map fst xs)"

text \<open>What clients of either map rely on, and what inserting a sequence of entries does.\<close>

locale rust_map =
  fixes lookup :: "'m \<Rightarrow> 'k \<Rightarrow> 'v option"
    and insert :: "'k \<Rightarrow> 'v \<Rightarrow> 'm \<Rightarrow> 'm"
    and invar :: "'m \<Rightarrow> bool"
  assumes lookup_insert: "lookup (insert k v m) = (lookup m)(k \<mapsto> v)"
    and invar_insert: "invar m \<Longrightarrow> invar (insert k v m)"
begin

lemma lookup_extend:
  "lookup (fold (\<lambda>(k, v). insert k v) kvs m) = lookup m ++ map_of (rev kvs)"
  by (induction kvs arbitrary: m) (auto simp: lookup_insert map_add_upd_left fun_eq_iff map_add_def
      split: option.splits)

lemma invar_extend: "invar m \<Longrightarrow> invar (fold (\<lambda>(k, v). insert k v) kvs m)"
  by (induction kvs arbitrary: m) (auto simp: invar_insert)

end

lemma map_of_btree_insert: "map_of (btree_insert k v xs) = (map_of xs)(k \<mapsto> v)"
  by (induction k v xs rule: btree_insert.induct) (auto simp: fun_eq_iff)

lemma set_keys_btree_insert: "fst ` set (btree_insert k v xs) = insert k (fst ` set xs)"
  by (induction k v xs rule: btree_insert.induct) auto

lemma btree_invar_insert: "btree_invar xs \<Longrightarrow> btree_invar (btree_insert k v xs)"
proof (induction k v xs rule: btree_insert.induct)
  case (2 k v k' v' xs)
  then show ?case
    using set_keys_btree_insert [of k v xs]
    by (auto simp: btree_invar_def simp flip: set_map dest: order.strict_trans)
qed (simp add: btree_invar_def)

interpretation btree: rust_map map_of btree_insert btree_invar
  by unfold_locales (simp_all add: map_of_btree_insert btree_invar_insert)

interpretation hashmap: rust_map map_of AList.update hashmap_invar
  by unfold_locales (simp_all add: update_conv' hashmap_invar_def distinct_update)

lemma hashmap_invar_Nil [simp]: "hashmap_invar []" and btree_invar_Nil [simp]: "btree_invar []"
  by (simp_all add: hashmap_invar_def btree_invar_def)

lemma btree_invar_distinct: "btree_invar xs \<Longrightarrow> distinct (map fst xs)"
  by (simp add: btree_invar_def strict_sorted_iff)

lemma map_of_rev_distinct: "distinct (map fst xs) \<Longrightarrow> map_of (rev xs) = map_of xs"
proof (induction xs)
  case (Cons x xs)
  then have "map_of xs (fst x) = None" by (simp add: map_of_eq_None_iff)
  with Cons show ?case by (auto simp: fun_eq_iff map_add_def split: option.splits)
qed simp

section \<open>Fallible loops\<close>

text \<open>
  A loop that propagates the first error of its items with \<^verbatim>\<open>?\<close> and otherwise sees all of them.
\<close>

fun try_collect :: "('e + 'a) list \<Rightarrow> 'e + 'a list" where
  "try_collect [] = Inr []"
| "try_collect (Inl e # xs) = Inl e"
| "try_collect (Inr x # xs) = (case try_collect xs of Inl e \<Rightarrow> Inl e | Inr ys \<Rightarrow> Inr (x # ys))"

lemma try_collect_map_Inr [simp]: "try_collect (map Inr xs) = Inr xs"
  by (induction xs) simp_all

lemma try_collect_Inr_iff: "try_collect xs = Inr ys \<longleftrightarrow> xs = map Inr ys"
proof (induction xs arbitrary: ys rule: try_collect.induct)
  case (3 x xs)
  then show ?case by (cases ys) (auto split: sum.splits)
qed auto

end
