(* ===== verification/Hash32.thy ===== *)
theory Hash32
  imports Kanari_Prelude
begin

text \<open>
  The fixed-size array \<^verbatim>\<open>[u8; 32]\<close> that keys, nodes and digests are, and the hash layer of
  \<^verbatim>\<open>crates/smt/src/hash.rs\<close> over \<^verbatim>\<open>crates/kanari-crypto/src/hashs/blake3.rs\<close>. BLAKE3 itself
  is a third-party crate: the function from a message to its 32-byte digest is a parameter
  \<open>blake3\<close> of every definition that hashes, and no property of it is built in.
\<close>

section \<open>The array type\<close>

typedef hash32 = "{bs :: bytes. length bs = 32}"
  morphisms hbytes Hash32
  by (rule exI [of _ "replicate 32 0"]) simp

setup_lifting type_definition_hash32

lemma length_hbytes [simp]: "length (hbytes h) = 32"
  using hbytes [of h] by simp

lemma hbytes_not_Nil [simp]: "hbytes p \<noteq> []"
  by (rule notI) (use length_hbytes [of p] in simp)

lemma hbytes_Hash32 [simp]: "length bs = 32 \<Longrightarrow> hbytes (Hash32 bs) = bs"
  by (simp add: Hash32_inverse)

lemma Hash32_hbytes [simp]: "Hash32 (hbytes h) = h"
  by (rule hbytes_inverse)

lemma hash32_eqI: "hbytes g = hbytes h \<Longrightarrow> g = h"
  by (simp add: hbytes_inject)

lemma Hash32_eq_iff: "length as = 32 \<Longrightarrow> length bs = 32 \<Longrightarrow> Hash32 as = Hash32 bs \<longleftrightarrow> as = bs"
  by (simp add: Hash32_inject)

text \<open>Arrays compare lexicographically, byte by byte.\<close>

instantiation hash32 :: linorder
begin
lift_definition less_eq_hash32 :: "hash32 \<Rightarrow> hash32 \<Rightarrow> bool" is "\<lambda>a b. a \<le> b" .
lift_definition less_hash32 :: "hash32 \<Rightarrow> hash32 \<Rightarrow> bool" is "\<lambda>a b. a < b" .
instance
  by standard (transfer; auto)+
end

definition zero_hash :: hash32 where
  "zero_hash = Hash32 (replicate 32 0)"

lemma hbytes_zero_hash [simp]: "hbytes zero_hash = replicate 32 0"
  by (simp add: zero_hash_def)

section \<open>The hash functions\<close>

type_synonym blake3_fn = "bytes \<Rightarrow> hash32"

definition hash_data_blake3_chunks_array :: "blake3_fn \<Rightarrow> bytes list \<Rightarrow> hash32" where
  "hash_data_blake3_chunks_array blake3 chunks = blake3 (concat chunks)"

definition hash_data_blake3_array :: "blake3_fn \<Rightarrow> bytes \<Rightarrow> hash32" where
  "hash_data_blake3_array blake3 data = hash_data_blake3_chunks_array blake3 [data]"

definition hash_data_blake3 :: "blake3_fn \<Rightarrow> bytes \<Rightarrow> bytes" where
  "hash_data_blake3 blake3 data = hbytes (hash_data_blake3_array blake3 data)"

definition digest :: "blake3_fn \<Rightarrow> bytes \<Rightarrow> hash32" where
  "digest blake3 data = hash_data_blake3_array blake3 data"

definition hash_leaf :: "blake3_fn \<Rightarrow> hash32 \<Rightarrow> bytes \<Rightarrow> hash32" where
  "hash_leaf blake3 key_hash v = hash_data_blake3_chunks_array blake3 [[0x00], hbytes key_hash, v]"

definition hash_node :: "blake3_fn \<Rightarrow> hash32 \<Rightarrow> hash32 \<Rightarrow> hash32" where
  "hash_node blake3 left right =
     hash_data_blake3_chunks_array blake3 [[0x01], hbytes left, hbytes right]"

text \<open>The message an inner node hashes; it determines both children.\<close>

definition node_msg :: "hash32 \<Rightarrow> hash32 \<Rightarrow> bytes" where
  "node_msg left right = 0x01 # hbytes left @ hbytes right"

lemma hash_node_msg: "hash_node blake3 l r = blake3 (node_msg l r)"
  by (simp add: hash_node_def hash_data_blake3_chunks_array_def node_msg_def)

lemma node_msg_inject [simp]: "node_msg l r = node_msg l' r' \<longleftrightarrow> l = l' \<and> r = r'"
  by (auto simp: node_msg_def hbytes_inject)

lemma leaf_node_domains:
  "concat [[0x00], hbytes key_hash, v] \<noteq> concat [[0x01], hbytes left, hbytes right]"
  by simp

section \<open>The bits of a key hash\<close>

text \<open>
  Level \<open>depth\<close> of the tree (1 to 256) branches on one bit of the key, counted from the most
  significant bit of the first byte.
\<close>

definition key_bit_position :: "nat \<Rightarrow> nat \<times> nat" where
  "key_bit_position depth = (let bit_index = depth - 1 in (bit_index div 8, 7 - bit_index mod 8))"

definition kbit :: "hash32 \<Rightarrow> nat \<Rightarrow> bool" where
  "kbit h depth = (case key_bit_position depth of (i, j) \<Rightarrow> bit (hbytes h ! i) j)"

text \<open>\<^verbatim>\<open>prefix[byte_idx] ^= mask\<close> on an array.\<close>

definition xor_byte :: "hash32 \<Rightarrow> nat \<Rightarrow> byte \<Rightarrow> hash32" where
  "xor_byte h i m = Hash32 ((hbytes h)[i := hbytes h ! i XOR m])"

definition sibling_of :: "hash32 \<Rightarrow> nat \<Rightarrow> hash32" where
  "sibling_of h depth =
     (case key_bit_position depth of (i, j) \<Rightarrow> xor_byte h i (push_bit j 1))"

lemma byte_masked_zero_iff: "(b AND push_bit j 1 = 0) \<longleftrightarrow> \<not> bit b j" for b :: byte
  by (simp add: push_bit_of_1 and_exp_eq_0_iff_not_bit)

lemma byte_shifted_zero_iff: "(drop_bit j b AND 1 = 0) \<longleftrightarrow> \<not> bit b j" for b :: byte
  by (simp add: and_one_eq even_iff_mod_2_eq_zero [symmetric] bit_iff_odd_drop_bit)

lemma key_bit_position_bounds:
  "key_bit_position depth = (i, j) \<Longrightarrow> 1 \<le> depth \<Longrightarrow> depth \<le> 256 \<Longrightarrow> i < 32 \<and> j < 8"
  by (auto simp: key_bit_position_def Let_def)

lemma key_bit_position_inj:
  assumes "key_bit_position d = key_bit_position e" "1 \<le> d" "1 \<le> e"
  shows "d = e"
proof -
  have cancel: "x = y" if "7 - x = 7 - y" "x < 8" "y < 8" for x y :: nat
    using that by arith
  have "(d - 1) div 8 = (e - 1) div 8" "7 - (d - 1) mod 8 = 7 - (e - 1) mod 8"
    using assms(1) by (simp_all add: key_bit_position_def Let_def)
  then have "(d - 1) div 8 = (e - 1) div 8" "(d - 1) mod 8 = (e - 1) mod 8"
    by (simp, elim cancel) simp_all
  then have "d - 1 = e - 1" by (metis div_mult_mod_eq)
  with assms(2,3) show ?thesis by simp
qed

lemma kbit_xor_byte:
  assumes "key_bit_position e = (i, j)" "k < 32" "i < 32"
  shows "kbit (xor_byte h k m) e = (if k = i then kbit h e \<noteq> bit m j else kbit h e)"
  using assms by (auto simp: kbit_def xor_byte_def bit_xor_iff nth_list_update)

lemma kbit_sibling_of:
  assumes "1 \<le> d" "d \<le> 256" "1 \<le> e" "e \<le> 256"
  shows "kbit (sibling_of h d) e = (if e = d then \<not> kbit h d else kbit h e)"
proof -
  obtain i j where d: "key_bit_position d = (i, j)" by force
  obtain k l where e: "key_bit_position e = (k, l)" by force
  have b: "i < 32" "j < 8" "k < 32" "l < 8"
    using key_bit_position_bounds d e assms by blast+
  have "e = d \<longleftrightarrow> k = i \<and> l = j"
    using key_bit_position_inj [of d e] d e assms by auto
  then show ?thesis
    using kbit_xor_byte [OF e b(1,3), of h "push_bit j 1"] b
    by (auto simp: sibling_of_def d bit_simps)
qed

lemma kbit_of_byte:
  assumes "i < 32" "j < 8"
  shows "bit (hbytes h ! i) j = kbit h (8 * i + (8 - j))"
proof -
  have "8 * i + (8 - j) - 1 = 8 * i + (7 - j)" using assms by simp
  moreover have "(8 * i + (7 - j)) div 8 = i" by simp
  moreover have "(8 * i + (7 - j)) mod 8 = 7 - j" by (simp only: mod_mult_self4) simp
  ultimately show ?thesis using assms by (simp add: kbit_def key_bit_position_def)
qed

lemma hash32_bits_eqI:
  assumes "\<And>d. 1 \<le> d \<Longrightarrow> d \<le> 256 \<Longrightarrow> kbit g d = kbit h d"
  shows "g = h"
proof (rule hash32_eqI, rule nth_equalityI)
  show "length (hbytes g) = length (hbytes h)" by simp
next
  fix i assume "i < length (hbytes g)"
  then have i: "i < 32" by simp
  show "hbytes g ! i = hbytes h ! i"
  proof (rule bit_word_eqI)
    fix j :: nat assume "j < LENGTH(8)"
    then have j: "j < 8" by simp
    have "kbit g (8 * i + (8 - j)) = kbit h (8 * i + (8 - j))"
      by (rule assms) (use i j in auto)
    then show "bit (hbytes g ! i) j = bit (hbytes h ! i) j"
      by (simp add: kbit_of_byte [OF i j])
  qed
qed

text \<open>Two key hashes agree down to a depth: they lie below the same node of that depth.\<close>

definition agree :: "nat \<Rightarrow> hash32 \<Rightarrow> hash32 \<Rightarrow> bool" where
  "agree d g h \<longleftrightarrow> (\<forall>i. 1 \<le> i \<and> i \<le> d \<longrightarrow> kbit g i = kbit h i)"

lemma agree_refl [simp]: "agree d h h" and agree_0 [simp]: "agree 0 g h"
  by (simp_all add: agree_def)

lemma agree_sym: "agree d g h \<Longrightarrow> agree d h g"
  and agree_trans: "agree d f g \<Longrightarrow> agree d g h \<Longrightarrow> agree d f h"
  and agree_mono: "agree d g h \<Longrightarrow> e \<le> d \<Longrightarrow> agree e g h"
  by (auto simp: agree_def)

lemma agree_Suc: "agree (Suc d) g h \<longleftrightarrow> agree d g h \<and> kbit g (Suc d) = kbit h (Suc d)"
  by (auto simp: agree_def le_Suc_eq)

lemma agree_256_iff: "agree 256 g h \<longleftrightarrow> g = h"
  by (auto simp: agree_def intro: hash32_bits_eqI)

lemma agree_sibling_of: "d < e \<Longrightarrow> e \<le> 256 \<Longrightarrow> agree d (sibling_of h e) h"
  by (auto simp: agree_def kbit_sibling_of)

lemma not_agree_sibling_of: "1 \<le> d \<Longrightarrow> d \<le> 256 \<Longrightarrow> \<not> agree d (sibling_of h d) h"
  by (auto simp: agree_def kbit_sibling_of)

text \<open>Lexicographic order decides at the first differing bit.\<close>

lemma word_less_of_bits:
  fixes a b :: "'a::len word"
  assumes "\<And>i. j < i \<Longrightarrow> bit a i = bit b i" and "\<not> bit a j" and "bit b j"
  shows "a < b"
proof -
  have eq: "drop_bit (Suc j) a = drop_bit (Suc j) b"
    by (rule bit_word_eqI) (simp add: bit_drop_bit_eq assms(1))
  have split: "unat x = 2 ^ Suc j * unat (drop_bit (Suc j) x) + 2 ^ j * of_bool (bit x j)
      + unat x mod 2 ^ j" for x :: "'a word"
  proof -
    have "unat x = 2 ^ j * (unat x div 2 ^ j) + unat x mod 2 ^ j" by simp
    moreover have "unat x div 2 ^ j = 2 * (unat x div 2 ^ Suc j) + of_bool (bit x j)"
    proof -
      have "bit x j \<longleftrightarrow> odd (unat x div 2 ^ j)"
        by (simp add: bit_iff_odd [symmetric] bit_unsigned_iff bit_imp_le_length)
      then have "of_bool (bit x j) = unat x div 2 ^ j mod 2" by (simp add: mod_2_eq_odd)
      moreover have "unat x div 2 ^ Suc j = unat x div 2 ^ j div 2"
        by (simp only: power_Suc2 div_mult2_eq)
      ultimately show ?thesis by simp
    qed
    moreover have "unat (drop_bit (Suc j) x) = unat x div 2 ^ Suc j"
      by (subst unat_drop_bit_eq) (rule drop_bit_eq_div)
    ultimately show ?thesis by (simp add: algebra_simps)
  qed
  have "unat a mod 2 ^ j < 2 ^ j" by simp
  moreover have "unat a = 2 ^ Suc j * unat (drop_bit (Suc j) b) + unat a mod 2 ^ j"
    using split [of a] assms(2) by (simp only: eq of_bool_eq mult_zero_right add_0_right)
  moreover have "unat b = 2 ^ Suc j * unat (drop_bit (Suc j) b) + 2 ^ j + unat b mod 2 ^ j"
    using split [of b] assms(3) by (simp only: of_bool_eq mult_1_right)
  ultimately have "unat a < unat b" by linarith
  then show ?thesis by (simp add: word_less_nat_alt)
qed

lemma list_less_of_nth:
  fixes xs ys :: "'a::order list"
  assumes "length xs = length ys" "i < length xs"
    and "\<And>k. k < i \<Longrightarrow> xs ! k = ys ! k" and "xs ! i < ys ! i"
  shows "xs < ys"
  using assms
proof (induction i arbitrary: xs ys)
  case 0
  then show ?case by (cases xs; cases ys) auto
next
  case (Suc i)
  then obtain x xs' y ys' where xy: "xs = x # xs'" "ys = y # ys'"
    by (cases xs; cases ys) auto
  have "x = y" using Suc.prems(3) [of 0] xy by simp
  moreover have "xs' < ys'"
  proof (rule Suc.IH)
    show "xs' ! k = ys' ! k" if "k < i" for k
      using Suc.prems(3) [of "Suc k"] that xy by simp
  qed (use Suc.prems xy in auto)
  ultimately show ?case by (simp add: xy)
qed

lemma agree_nth:
  assumes "agree d g h" "i < 32" "8 * i + (8 - j) \<le> d" "j < 8"
  shows "bit (hbytes g ! i) j = bit (hbytes h ! i) j"
  using assms by (auto simp: kbit_of_byte agree_def)

lemma hash32_less_of_bits:
  assumes ag: "agree d g h" and d: "d < 256" and b: "\<not> kbit g (Suc d)" "kbit h (Suc d)"
  shows "g < h"
proof -
  define i where "i = d div 8"
  define j where "j = 7 - d mod 8"
  have ij: "i < 32" "j < 8" "d = 8 * i + (7 - j)"
    using d by (auto simp: i_def j_def)
  have "hbytes g < hbytes h"
  proof (rule list_less_of_nth [of _ _ i])
    show "hbytes g ! k = hbytes h ! k" if "k < i" for k
    proof (rule bit_word_eqI)
      fix l :: nat assume "l < LENGTH(8)"
      then show "bit (hbytes g ! k) l = bit (hbytes h ! k) l"
        using agree_nth [OF ag, of k l] that ij by simp
    qed
    have at: "8 * i + (8 - j) = Suc d" using ij by simp
    show "hbytes g ! i < hbytes h ! i"
    proof (rule word_less_of_bits [of j])
      show "\<not> bit (hbytes g ! i) j" and "bit (hbytes h ! i) j"
        using b kbit_of_byte [OF ij(1,2)] unfolding at by simp_all
      show "bit (hbytes g ! i) l = bit (hbytes h ! i) l" if "j < l" for l
      proof (cases "l < 8")
        case True
        then show ?thesis using agree_nth [OF ag ij(1), of l] that ij(3) by simp
      next
        case False
        then show ?thesis by (auto dest: bit_imp_le_length)
      qed
    qed
  qed (use ij in simp_all)
  then show ?thesis by (simp add: less_hash32.rep_eq)
qed

end
