(* ===== verification/Sparse_Merkle.thy ===== *)
theory Sparse_Merkle
  imports Hash32
begin

text \<open>
  The sparse Merkle tree of \<^verbatim>\<open>crates/smt/src/sparse_merkle.rs\<close>, operation by operation. A tree is
  its RocksDB handle, the cache of inner nodes and the flag that the cache is built
  (\<^verbatim>\<open>SparseMerkleTree\<close>); the methods take and return it explicitly. RocksDB is a third-party
  crate: the three operations the code uses are a parameter \<open>ops\<close> of the methods.
\<close>

section \<open>Default hashes and storage keys\<close>

text \<open>\<^verbatim>\<open>DEFAULT_HASHES\<close>: entry 256 is the default leaf, every entry above it hashes the entry
  below with itself. The list is built from the leaf upwards.\<close>

primrec default_chain :: "blake3_fn \<Rightarrow> nat \<Rightarrow> hash32 list" where
  "default_chain blake3 0 = [hash_leaf blake3 zero_hash (replicate 32 0)]"
| "default_chain blake3 (Suc n) =
     (let below = default_chain blake3 n in hash_node blake3 (hd below) (hd below) # below)"

definition DEFAULT_HASHES :: "blake3_fn \<Rightarrow> hash32 list" where
  "DEFAULT_HASHES blake3 = default_chain blake3 256"

definition ROOT_NODE_KEY :: bytes where
  "ROOT_NODE_KEY = [110, 58, 0, 0]"

text \<open>The bytes of \<^verbatim>\<open>b"meta:node_index_version"\<close>.\<close>

definition NODE_INDEX_VERSION_KEY :: bytes where
  "NODE_INDEX_VERSION_KEY = map (\<lambda>c. of_nat (of_char c)) ''meta:node_index_version''"

definition u16_to_be_bytes :: "u16 \<Rightarrow> bytes" where
  "u16_to_be_bytes w = [ucast (drop_bit 8 w), ucast w]"

definition top_bits :: "hash32 \<Rightarrow> nat \<Rightarrow> nat" where
  "top_bits key_hash depth =
     (let v = unat (hbytes key_hash ! 0);
          v = (if depth > 8 then push_bit 8 v OR unat (hbytes key_hash ! 1) else v)
      in drop_bit (16 - depth) v)"

definition prefix_from_top_bits :: "nat \<Rightarrow> nat \<Rightarrow> hash32" where
  "prefix_from_top_bits bucket_index depth =
     (let v = push_bit (16 - depth) bucket_index;
          prefix = (replicate 32 0)[0 := of_nat (drop_bit 8 v)];
          prefix = (if depth > 8 then prefix[1 := of_nat v] else prefix)
      in Hash32 prefix)"

definition data_key :: "hash32 \<Rightarrow> bytes" where
  "data_key key_hash = [100, 58] @ hbytes key_hash"

definition node_prefix_len :: "nat \<Rightarrow> nat" where
  "node_prefix_len depth = (depth + 7) div 8"

definition node_key :: "hash32 \<Rightarrow> nat \<Rightarrow> bytes" where
  "node_key prefix_hash depth =
     (if depth = 0 then ROOT_NODE_KEY
      else
        let prefix_len = node_prefix_len depth;
            out = [110, 58] @ u16_to_be_bytes (of_nat depth) @ take prefix_len (hbytes prefix_hash);
            remaining_bits = depth mod 8
        in if remaining_bits \<noteq> 0
           then out[length out - 1 := last out AND push_bit (8 - remaining_bits) 0xFF]
           else out)"

section \<open>Errors, the database and the tree\<close>

type_synonym db_error = string

datatype smt_error =
    RocksDb db_error
  | InvalidNodeHashLength nat
  | VerifiedRootMismatch
  | OverlayRootMismatch

datatype batch_op = BatchPut bytes bytes | BatchDelete bytes

record 'd rocksdb =
  db_get :: "'d \<Rightarrow> bytes \<Rightarrow> db_error + bytes option"
  db_write :: "'d \<Rightarrow> batch_op list \<Rightarrow> db_error + 'd"
  db_iterator :: "'d \<Rightarrow> (db_error + bytes \<times> bytes) list"

type_synonym node_cache = "bytes \<Rightarrow> hash32 option"
type_synonym node_overlay = "(bytes \<times> hash32 option) list"

record 'd smt =
  smt_db :: 'd
  smt_cache :: node_cache
  smt_cache_ready :: bool

type_synonym ('d, 'a) smt_result = "(smt_error + 'a) \<times> 'd smt"

definition hash_from_slice :: "bytes \<Rightarrow> smt_error + hash32" where
  "hash_from_slice bs =
     (if length bs = 32 then Inr (Hash32 bs) else Inl (InvalidNodeHashLength (length bs)))"

definition smt_new :: "'d \<Rightarrow> 'd smt" where
  "smt_new d = \<lparr>smt_db = d, smt_cache = Map.empty, smt_cache_ready = False\<rparr>"

definition starts_with :: "bytes \<Rightarrow> bytes \<Rightarrow> bool" where
  "starts_with key pre \<longleftrightarrow> take (length pre) key = pre"

definition export_snapshot :: "'d rocksdb \<Rightarrow> 'd smt \<Rightarrow> smt_error + (bytes \<times> bytes) list" where
  "export_snapshot ops t =
     (case try_collect (db_iterator ops (smt_db t)) of
        Inl e \<Rightarrow> Inl (RocksDb e)
      | Inr items \<Rightarrow>
          Inr (filter (\<lambda>(k, _). starts_with k [110, 58] \<or> starts_with k [100, 58]) items))"

definition persisted_leaf_count :: "'d rocksdb \<Rightarrow> 'd smt \<Rightarrow> smt_error + nat" where
  "persisted_leaf_count ops t =
     (case try_collect (db_iterator ops (smt_db t)) of
        Inl e \<Rightarrow> Inl (RocksDb e)
      | Inr items \<Rightarrow> Inr (length (filter (\<lambda>(k, _). starts_with k [100, 58]) items)))"

section \<open>Reading and staging nodes\<close>

definition node_hash_from_cache :: "blake3_fn \<Rightarrow> node_cache \<Rightarrow> hash32 \<Rightarrow> nat \<Rightarrow> hash32" where
  "node_hash_from_cache blake3 cache prefix_hash depth =
     (case cache (node_key prefix_hash depth) of
        Some h \<Rightarrow> h
      | None \<Rightarrow> DEFAULT_HASHES blake3 ! depth)"

definition node_hash_from_overlay ::
  "blake3_fn \<Rightarrow> node_cache \<Rightarrow> node_overlay \<Rightarrow> hash32 \<Rightarrow> nat \<Rightarrow> hash32" where
  "node_hash_from_overlay blake3 cache overlay prefix_hash depth =
     (case map_of overlay (node_key prefix_hash depth) of
        Some value \<Rightarrow> (case value of Some h \<Rightarrow> h | None \<Rightarrow> DEFAULT_HASHES blake3 ! depth)
      | None \<Rightarrow> node_hash_from_cache blake3 cache prefix_hash depth)"

definition stage_node ::
  "blake3_fn \<Rightarrow> node_overlay \<Rightarrow> hash32 \<Rightarrow> nat \<Rightarrow> hash32 \<Rightarrow> node_overlay" where
  "stage_node blake3 overlay prefix_hash depth h =
     (let key = node_key prefix_hash depth
      in if h = DEFAULT_HASHES blake3 ! depth
         then AList.update key None overlay
         else AList.update key (Some h) overlay)"

text \<open>The loop of \<^verbatim>\<open>stage_node_update_from_depth\<close> and \<^verbatim>\<open>stage_leaf_node_update_to_depth\<close>: at each
  depth of the given list, hash the current node with its sibling and stage the parent.\<close>

fun stage_up ::
  "blake3_fn \<Rightarrow> node_cache \<Rightarrow> hash32 \<Rightarrow> nat list \<Rightarrow> node_overlay \<times> hash32 \<Rightarrow> node_overlay \<times> hash32"
where
  "stage_up blake3 cache key_hash [] (overlay, current) = (overlay, current)"
| "stage_up blake3 cache key_hash (depth # depths) (overlay, current) =
     (let (byte_idx, bit_in_byte) = key_bit_position depth;
          bit_mask = push_bit bit_in_byte 1;
          sibling_prefix = xor_byte key_hash byte_idx bit_mask;
          sibling = node_hash_from_overlay blake3 cache overlay sibling_prefix depth;
          current_is_left = (hbytes key_hash ! byte_idx AND bit_mask = 0);
          parent = (if current_is_left then hash_node blake3 current sibling
                    else hash_node blake3 sibling current)
      in stage_up blake3 cache key_hash depths
           (stage_node blake3 overlay key_hash (depth - 1) parent, parent))"

definition stage_node_update_from_depth ::
  "blake3_fn \<Rightarrow> node_cache \<Rightarrow> node_overlay \<Rightarrow> hash32 \<Rightarrow> nat \<Rightarrow> hash32 \<Rightarrow> node_overlay" where
  "stage_node_update_from_depth blake3 cache overlay key_hash node_depth node_hash =
     (if node_depth = 0 then stage_node blake3 overlay key_hash 0 node_hash
      else fst (stage_up blake3 cache key_hash (rev [1..<Suc node_depth]) (overlay, node_hash)))"

definition stage_leaf_node_update ::
  "blake3_fn \<Rightarrow> node_cache \<Rightarrow> node_overlay \<Rightarrow> hash32 \<Rightarrow> hash32 \<Rightarrow> node_overlay" where
  "stage_leaf_node_update blake3 cache overlay key_hash leaf_hash =
     stage_node_update_from_depth blake3 cache overlay key_hash 256 leaf_hash"

definition stage_leaf_node_update_to_depth ::
  "blake3_fn \<Rightarrow> node_cache \<Rightarrow> node_overlay \<Rightarrow> hash32 \<Rightarrow> hash32 \<Rightarrow> nat \<Rightarrow> node_overlay \<times> hash32" where
  "stage_leaf_node_update_to_depth blake3 cache overlay key_hash leaf_hash stop_depth =
     (if stop_depth = 256 then (stage_node blake3 overlay key_hash 256 leaf_hash, leaf_hash)
      else stage_up blake3 cache key_hash (rev [Suc stop_depth..<257]) (overlay, leaf_hash))"

fun apply_node_overlay_entries_to_cache :: "node_cache \<Rightarrow> node_overlay \<Rightarrow> node_cache" where
  "apply_node_overlay_entries_to_cache cache [] = cache"
| "apply_node_overlay_entries_to_cache cache ((key, value) # rest) =
     apply_node_overlay_entries_to_cache
       (case value of Some h \<Rightarrow> cache(key \<mapsto> h) | None \<Rightarrow> cache(key := None)) rest"

text \<open>The leaf a change to \<^verbatim>\<open>key_hash\<close> stages: the value's leaf hash, or the default leaf for a
  deletion. A batch of changes is staged in key order over one overlay.\<close>

definition change_leaf :: "blake3_fn \<Rightarrow> hash32 \<Rightarrow> bytes option \<Rightarrow> hash32" where
  "change_leaf blake3 key_hash value =
     (case value of Some v \<Rightarrow> hash_leaf blake3 key_hash v | None \<Rightarrow> DEFAULT_HASHES blake3 ! 256)"

fun stage_changes ::
  "blake3_fn \<Rightarrow> node_cache \<Rightarrow> node_overlay \<Rightarrow> (hash32 \<times> bytes option) list \<Rightarrow> node_overlay" where
  "stage_changes blake3 cache overlay [] = overlay"
| "stage_changes blake3 cache overlay ((key_hash, value) # rest) =
     stage_changes blake3 cache
       (stage_leaf_node_update blake3 cache overlay key_hash (change_leaf blake3 key_hash value)) rest"

section \<open>Building the cache from the persisted leaves\<close>

definition data_entry :: "bytes \<times> bytes \<Rightarrow> (hash32 \<times> bytes) option" where
  "data_entry kv =
     (case kv of (key, value) \<Rightarrow>
        if starts_with key [100, 58] \<and> length (drop 2 key) = 32
        then Some (Hash32 (drop 2 key), value) else None)"

definition persisted_data_entries ::
  "'d rocksdb \<Rightarrow> 'd \<Rightarrow> smt_error + (hash32 \<times> bytes) list" where
  "persisted_data_entries ops d =
     (case try_collect (db_iterator ops d) of
        Inl e \<Rightarrow> Inl (RocksDb e)
      | Inr items \<Rightarrow>
          Inr (fold (\<lambda>(k, v). btree_insert k v) (List.map_filter data_entry items) []))"

definition purge_legacy_persisted_node_index ::
  "'d rocksdb \<Rightarrow> 'd smt \<Rightarrow> ('d, unit) smt_result" where
  "purge_legacy_persisted_node_index ops t =
     (case db_get ops (smt_db t) NODE_INDEX_VERSION_KEY of
        Inl e \<Rightarrow> (Inl (RocksDb e), t)
      | Inr None \<Rightarrow> (Inr (), t)
      | Inr (Some _) \<Rightarrow>
          (case try_collect (db_iterator ops (smt_db t)) of
             Inl e \<Rightarrow> (Inl (RocksDb e), t)
           | Inr items \<Rightarrow>
               (let stale = filter (\<lambda>k. starts_with k [110, 58] \<and> k \<noteq> ROOT_NODE_KEY) (map fst items);
                    batch = map BatchDelete stale @ [BatchDelete NODE_INDEX_VERSION_KEY]
                in case db_write ops (smt_db t) batch of
                     Inl e \<Rightarrow> (Inl (RocksDb e), t)
                   | Inr d \<Rightarrow> (Inr (), t\<lparr>smt_db := d\<rparr>))))"

definition rebuild_node_cache_from_persisted_data ::
  "blake3_fn \<Rightarrow> 'd rocksdb \<Rightarrow> 'd smt \<Rightarrow> ('d, unit) smt_result" where
  "rebuild_node_cache_from_persisted_data blake3 ops t =
     (case persisted_data_entries ops (smt_db t) of
        Inl e \<Rightarrow> (Inl e, t)
      | Inr entries \<Rightarrow>
          (let overlay = stage_changes blake3 Map.empty []
                           (map (\<lambda>(k, v). (k, Some v)) entries);
               cache = apply_node_overlay_entries_to_cache Map.empty overlay
           in purge_legacy_persisted_node_index ops
                (t\<lparr>smt_cache := cache, smt_cache_ready := True\<rparr>)))"

definition ensure_node_index ::
  "blake3_fn \<Rightarrow> 'd rocksdb \<Rightarrow> 'd smt \<Rightarrow> ('d, unit) smt_result" where
  "ensure_node_index blake3 ops t =
     (if smt_cache_ready t then (Inr (), t)
      else rebuild_node_cache_from_persisted_data blake3 ops t)"

definition root_hash :: "blake3_fn \<Rightarrow> 'd rocksdb \<Rightarrow> 'd smt \<Rightarrow> smt_error + hash32" where
  "root_hash blake3 ops t =
     (if smt_cache_ready t then Inr (node_hash_from_cache blake3 (smt_cache t) zero_hash 0)
      else
        (case db_get ops (smt_db t) ROOT_NODE_KEY of
           Inr (Some v) \<Rightarrow> hash_from_slice v
         | _ \<Rightarrow> Inr (DEFAULT_HASHES blake3 ! 0)))"

section \<open>Roots of a batch of changes\<close>

text \<open>Deletes first, then updates, into one ordered map: the last entry for a key wins.\<close>

definition collect_changes ::
  "blake3_fn \<Rightarrow> (bytes \<times> bytes) list \<Rightarrow> bytes list \<Rightarrow> (hash32 \<times> bytes option) list" where
  "collect_changes blake3 updates deletes =
     fold (\<lambda>(k, v). btree_insert k v)
       (map (\<lambda>key. (digest blake3 key, None)) deletes
        @ map (\<lambda>(key, value). (digest blake3 key, Some value)) updates) []"

definition PARALLEL_BUCKET_DEPTH :: nat where
  "PARALLEL_BUCKET_DEPTH = 12"

text \<open>One bucket of the parallel computation: the changes below one node of depth 12, staged over
  an overlay of their own.\<close>

fun stage_bucket ::
  "blake3_fn \<Rightarrow> node_cache \<Rightarrow> (hash32 \<times> bytes option) list \<Rightarrow> node_overlay \<times> hash32 \<Rightarrow>
     node_overlay \<times> hash32" where
  "stage_bucket blake3 cache [] (overlay, bucket_root) = (overlay, bucket_root)"
| "stage_bucket blake3 cache ((key_hash, value) # rest) (overlay, bucket_root) =
     stage_bucket blake3 cache rest
       (stage_leaf_node_update_to_depth blake3 cache overlay key_hash
          (change_leaf blake3 key_hash value) PARALLEL_BUCKET_DEPTH)"

definition bucket_result ::
  "blake3_fn \<Rightarrow> node_cache \<Rightarrow> nat \<Rightarrow> (hash32 \<times> bytes option) list \<Rightarrow>
     hash32 \<times> hash32 \<times> node_overlay" where
  "bucket_result blake3 cache bucket_index bucket =
     (let bucket_prefix = prefix_from_top_bits bucket_index PARALLEL_BUCKET_DEPTH;
          (overlay, bucket_root) =
            stage_bucket blake3 cache bucket ([], DEFAULT_HASHES blake3 ! PARALLEL_BUCKET_DEPTH)
      in (bucket_prefix, bucket_root,
          stage_node blake3 overlay bucket_prefix PARALLEL_BUCKET_DEPTH bucket_root))"

fun merge_buckets ::
  "blake3_fn \<Rightarrow> node_cache \<Rightarrow> node_overlay \<Rightarrow> (hash32 \<times> hash32 \<times> node_overlay) list \<Rightarrow> node_overlay"
where
  "merge_buckets blake3 cache overlay [] = overlay"
| "merge_buckets blake3 cache overlay ((bucket_prefix, bucket_root, bucket_overlay) # rest) =
     merge_buckets blake3 cache
       (stage_node_update_from_depth blake3 cache
          (fold (\<lambda>(k, v). AList.update k v) bucket_overlay overlay)
          bucket_prefix PARALLEL_BUCKET_DEPTH bucket_root) rest"

definition root_hash_with_sorted_changes_parallel ::
  "blake3_fn \<Rightarrow> node_cache \<Rightarrow> (hash32 \<times> bytes option) list \<Rightarrow> hash32 \<times> node_overlay" where
  "root_hash_with_sorted_changes_parallel blake3 cache changes =
     (let buckets = map (\<lambda>i. filter (\<lambda>(k, _). top_bits k PARALLEL_BUCKET_DEPTH = i) changes)
                      [0..<2 ^ PARALLEL_BUCKET_DEPTH];
          bucket_results = map (\<lambda>(i, bucket). bucket_result blake3 cache i bucket)
                             (filter (\<lambda>(_, bucket). bucket \<noteq> []) (enumerate 0 buckets));
          overlay = merge_buckets blake3 cache [] bucket_results
      in (node_hash_from_overlay blake3 cache overlay zero_hash 0, overlay))"

definition root_hash_with_changes_and_overlay ::
  "blake3_fn \<Rightarrow> 'd rocksdb \<Rightarrow> (bytes \<times> bytes) list \<Rightarrow> bytes list \<Rightarrow> 'd smt \<Rightarrow>
     ('d, hash32 \<times> node_overlay) smt_result" where
  "root_hash_with_changes_and_overlay blake3 ops updates deletes t =
     (if updates = [] \<and> deletes = [] then
        (case root_hash blake3 ops t of Inl e \<Rightarrow> (Inl e, t) | Inr r \<Rightarrow> (Inr (r, []), t))
      else
        (case ensure_node_index blake3 ops t of
           (Inl e, t) \<Rightarrow> (Inl e, t)
         | (Inr _, t) \<Rightarrow>
             (let cache = smt_cache t;
                  changes = collect_changes blake3 updates deletes
              in if length changes \<ge> 1024
                 then (Inr (root_hash_with_sorted_changes_parallel blake3 cache changes), t)
                 else
                   (let overlay = stage_changes blake3 cache [] changes
                    in (Inr (node_hash_from_overlay blake3 cache overlay zero_hash 0, overlay), t)))))"

definition root_hash_with_changes ::
  "blake3_fn \<Rightarrow> 'd rocksdb \<Rightarrow> (bytes \<times> bytes) list \<Rightarrow> bytes list \<Rightarrow> 'd smt \<Rightarrow>
     ('d, hash32) smt_result" where
  "root_hash_with_changes blake3 ops updates deletes t =
     (case root_hash_with_changes_and_overlay blake3 ops updates deletes t of
        (Inl e, t) \<Rightarrow> (Inl e, t)
      | (Inr (root, _), t) \<Rightarrow> (Inr root, t))"

section \<open>Lookup and proofs\<close>

definition smt_get :: "blake3_fn \<Rightarrow> 'd rocksdb \<Rightarrow> bytes \<Rightarrow> 'd smt \<Rightarrow> smt_error + bytes option" where
  "smt_get blake3 ops key t =
     (case db_get ops (smt_db t) (data_key (digest blake3 key)) of
        Inl e \<Rightarrow> Inl (RocksDb e)
      | Inr v \<Rightarrow> Inr v)"

definition smt_proof ::
  "blake3_fn \<Rightarrow> 'd rocksdb \<Rightarrow> bytes \<Rightarrow> 'd smt \<Rightarrow> ('d, bool \<times> hash32 \<times> hash32 list) smt_result" where
  "smt_proof blake3 ops key t =
     (let kh = digest blake3 key
      in case db_get ops (smt_db t) (data_key kh) of
           Inl e \<Rightarrow> (Inl (RocksDb e), t)
         | Inr value \<Rightarrow>
             (let is_member = (value \<noteq> None);
                  leaf_hash = change_leaf blake3 kh value
              in case ensure_node_index blake3 ops t of
                   (Inl e, t) \<Rightarrow> (Inl e, t)
                 | (Inr _, t) \<Rightarrow>
                     (let siblings = map (\<lambda>depth.
                            case key_bit_position depth of (byte_idx, bit_in_byte) \<Rightarrow>
                              node_hash_from_cache blake3 (smt_cache t)
                                (xor_byte kh byte_idx (push_bit bit_in_byte 1)) depth)
                            (rev [1..<257])
                      in (Inr (is_member, leaf_hash, siblings), t))))"

text \<open>Folding the siblings of a proof. The depth of the i-th sibling is \<^verbatim>\<open>256 - i\<close>; past 256
  siblings the bit position underflows and the Rust code panics, which is \<open>None\<close>.\<close>

fun fold_proof :: "blake3_fn \<Rightarrow> hash32 \<Rightarrow> nat \<Rightarrow> hash32 \<Rightarrow> hash32 list \<Rightarrow> hash32 option" where
  "fold_proof blake3 kh depth cur [] = Some cur"
| "fold_proof blake3 kh depth cur (sibling # siblings) =
     (if depth = 0 then None
      else
        (let (byte_idx, bit_in_byte) = key_bit_position depth;
             is_left = (drop_bit bit_in_byte (hbytes kh ! byte_idx) AND 1 = 0);
             (left, right) = (if is_left then (cur, sibling) else (sibling, cur))
         in fold_proof blake3 kh (depth - 1) (hash_node blake3 left right) siblings))"

definition verify_proof ::
  "blake3_fn \<Rightarrow> hash32 \<Rightarrow> bytes \<Rightarrow> bool \<times> hash32 \<times> hash32 list \<Rightarrow> bool option" where
  "verify_proof blake3 root key proof =
     (case proof of (_, leaf, siblings) \<Rightarrow>
        map_option (\<lambda>cur. cur = root) (fold_proof blake3 (digest blake3 key) 256 leaf siblings))"

section \<open>Updates\<close>

text \<open>\<^verbatim>\<open>dedup_by\<close> on the key: of a run of equal keys the first entry stays.\<close>

fun dedup_by_key :: "('k \<times> 'v) list \<Rightarrow> ('k \<times> 'v) list" where
  "dedup_by_key [] = []"
| "dedup_by_key [x] = [x]"
| "dedup_by_key (x # y # xs) =
     (if fst x = fst y then dedup_by_key (x # xs) else x # dedup_by_key (y # xs))"

definition smt_insert ::
  "blake3_fn \<Rightarrow> 'd rocksdb \<Rightarrow> (bytes \<times> bytes) list \<Rightarrow> 'd smt \<Rightarrow> ('d, unit) smt_result" where
  "smt_insert blake3 ops kvs t =
     (if kvs = [] then (Inr (), t)
      else
        (case ensure_node_index blake3 ops t of
           (Inl e, t) \<Rightarrow> (Inl e, t)
         | (Inr _, t) \<Rightarrow>
             (let cache = smt_cache t;
                  keyed = dedup_by_key
                            (sort_key fst (map (\<lambda>(key, value). (digest blake3 key, value)) kvs));
                  overlay = stage_changes blake3 cache [] (map (\<lambda>(kh, v). (kh, Some v)) keyed);
                  root = node_hash_from_overlay blake3 cache overlay zero_hash 0;
                  batch = map (\<lambda>(kh, v). BatchPut (data_key kh) v) keyed
                            @ [BatchPut ROOT_NODE_KEY (hbytes root), BatchDelete NODE_INDEX_VERSION_KEY]
              in case db_write ops (smt_db t) batch of
                   Inl e \<Rightarrow> (Inl (RocksDb e), t)
                 | Inr d \<Rightarrow>
                     (Inr (), t\<lparr>smt_db := d,
                                smt_cache := apply_node_overlay_entries_to_cache cache overlay\<rparr>))))"

definition smt_rebuild ::
  "blake3_fn \<Rightarrow> 'd rocksdb \<Rightarrow> (bytes \<times> bytes) list \<Rightarrow> 'd smt \<Rightarrow> ('d, unit) smt_result" where
  "smt_rebuild blake3 ops entries t =
     (case try_collect (db_iterator ops (smt_db t)) of
        Inl e \<Rightarrow> (Inl (RocksDb e), t)
      | Inr items \<Rightarrow>
          (let stale = filter (\<lambda>k. starts_with k [110, 58] \<or> starts_with k [100, 58]) (map fst items);
               batch = map BatchDelete stale @ [BatchDelete NODE_INDEX_VERSION_KEY]
           in case db_write ops (smt_db t) batch of
                Inl e \<Rightarrow> (Inl (RocksDb e), t)
              | Inr d \<Rightarrow>
                  (let t = t\<lparr>smt_db := d, smt_cache := Map.empty, smt_cache_ready := False\<rparr>
                   in if entries \<noteq> [] then smt_insert blake3 ops entries t
                      else
                        (case db_write ops d
                                [BatchPut ROOT_NODE_KEY (hbytes (DEFAULT_HASHES blake3 ! 0))] of
                           Inl e \<Rightarrow> (Inl (RocksDb e), t)
                         | Inr d \<Rightarrow> (Inr (), t\<lparr>smt_db := d, smt_cache_ready := True\<rparr>)))))"

definition data_batch ::
  "blake3_fn \<Rightarrow> (bytes \<times> bytes) list \<Rightarrow> bytes list \<Rightarrow> batch_op list" where
  "data_batch blake3 updates deletes =
     map (\<lambda>key. BatchDelete (data_key (digest blake3 key))) deletes
     @ map (\<lambda>(key, value). BatchPut (data_key (digest blake3 key)) value) updates"

definition apply_changes_with_root ::
  "blake3_fn \<Rightarrow> 'd rocksdb \<Rightarrow> (bytes \<times> bytes) list \<Rightarrow> bytes list \<Rightarrow> hash32 \<Rightarrow> 'd smt \<Rightarrow>
     ('d, unit) smt_result" where
  "apply_changes_with_root blake3 ops updates deletes root t =
     (case ensure_node_index blake3 ops t of
        (Inl e, t) \<Rightarrow> (Inl e, t)
      | (Inr _, t) \<Rightarrow>
          (let cache = smt_cache t;
               overlay = stage_changes blake3 cache [] (collect_changes blake3 updates deletes);
               computed_root = node_hash_from_overlay blake3 cache overlay zero_hash 0
           in if computed_root \<noteq> root then (Inl VerifiedRootMismatch, t)
              else
                (case db_write ops (smt_db t)
                        (data_batch blake3 updates deletes
                         @ [BatchPut ROOT_NODE_KEY (hbytes root),
                            BatchDelete NODE_INDEX_VERSION_KEY]) of
                   Inl e \<Rightarrow> (Inl (RocksDb e), t)
                 | Inr d \<Rightarrow>
                     (Inr (), t\<lparr>smt_db := d,
                                smt_cache := apply_node_overlay_entries_to_cache cache overlay\<rparr>))))"

definition stage_changes_with_precomputed_overlay ::
  "blake3_fn \<Rightarrow> 'd rocksdb \<Rightarrow> batch_op list \<Rightarrow> (bytes \<times> bytes) list \<Rightarrow> bytes list \<Rightarrow> hash32 \<Rightarrow>
     node_overlay \<Rightarrow> 'd smt \<Rightarrow> ('d, batch_op list) smt_result" where
  "stage_changes_with_precomputed_overlay blake3 ops batch updates deletes root overlay t =
     (let overlay_root =
            (case map_of overlay ROOT_NODE_KEY of
               Some value \<Rightarrow> (case value of Some h \<Rightarrow> h | None \<Rightarrow> DEFAULT_HASHES blake3 ! 0)
             | None \<Rightarrow>
                 (case root_hash blake3 ops t of Inr r \<Rightarrow> r | Inl _ \<Rightarrow> DEFAULT_HASHES blake3 ! 0))
      in if overlay_root \<noteq> root then (Inl OverlayRootMismatch, t)
         else
           (case ensure_node_index blake3 ops t of
              (Inl e, t) \<Rightarrow> (Inl e, t)
            | (Inr _, t) \<Rightarrow>
                (Inr (batch @ data_batch blake3 updates deletes
                      @ [BatchPut ROOT_NODE_KEY (hbytes root), BatchDelete NODE_INDEX_VERSION_KEY]),
                 t)))"

definition apply_precomputed_node_overlay :: "node_overlay \<Rightarrow> 'd smt \<Rightarrow> 'd smt" where
  "apply_precomputed_node_overlay overlay t =
     t\<lparr>smt_cache := apply_node_overlay_entries_to_cache (smt_cache t) overlay\<rparr>"

definition apply_changes_with_precomputed_overlay ::
  "blake3_fn \<Rightarrow> 'd rocksdb \<Rightarrow> (bytes \<times> bytes) list \<Rightarrow> bytes list \<Rightarrow> hash32 \<Rightarrow> node_overlay \<Rightarrow>
     'd smt \<Rightarrow> ('d, unit) smt_result" where
  "apply_changes_with_precomputed_overlay blake3 ops updates deletes root overlay t =
     (case stage_changes_with_precomputed_overlay blake3 ops [] updates deletes root overlay t of
        (Inl e, t) \<Rightarrow> (Inl e, t)
      | (Inr batch, t) \<Rightarrow>
          (case db_write ops (smt_db t) batch of
             Inl e \<Rightarrow> (Inl (RocksDb e), t)
           | Inr d \<Rightarrow> (Inr (), apply_precomputed_node_overlay overlay (t\<lparr>smt_db := d\<rparr>))))"

definition smt_delete ::
  "blake3_fn \<Rightarrow> 'd rocksdb \<Rightarrow> bytes list \<Rightarrow> 'd smt \<Rightarrow> ('d, unit) smt_result" where
  "smt_delete blake3 ops keys t =
     (if keys = [] then (Inr (), t)
      else
        (case ensure_node_index blake3 ops t of
           (Inl e, t) \<Rightarrow> (Inl e, t)
         | (Inr _, t) \<Rightarrow>
             (let cache = smt_cache t;
                  keyed = remdups_adj (sort (map (digest blake3) keys));
                  overlay = stage_changes blake3 cache [] (map (\<lambda>kh. (kh, None)) keyed);
                  root = node_hash_from_overlay blake3 cache overlay zero_hash 0;
                  batch = map (\<lambda>kh. BatchDelete (data_key kh)) keyed
                            @ [BatchPut ROOT_NODE_KEY (hbytes root), BatchDelete NODE_INDEX_VERSION_KEY]
              in case db_write ops (smt_db t) batch of
                   Inl e \<Rightarrow> (Inl (RocksDb e), t)
                 | Inr d \<Rightarrow>
                     (Inr (), t\<lparr>smt_db := d,
                                smt_cache := apply_node_overlay_entries_to_cache cache overlay\<rparr>))))"

section \<open>Building a root from scratch\<close>

text \<open>A subtree with one entry: hash the leaf with default siblings up to the subtree's root.\<close>

fun single_leaf_up :: "blake3_fn \<Rightarrow> hash32 \<Rightarrow> nat list \<Rightarrow> hash32 \<Rightarrow> hash32" where
  "single_leaf_up blake3 key_hash [] current = current"
| "single_leaf_up blake3 key_hash (depth # depths) current =
     (let (byte_idx, bit_in_byte) = key_bit_position depth;
          bit_is_left = (drop_bit bit_in_byte (hbytes key_hash ! byte_idx) AND 1 = 0);
          d = DEFAULT_HASHES blake3 ! depth
      in single_leaf_up blake3 key_hash depths
           (if bit_is_left then hash_node blake3 current d else hash_node blake3 d current))"

text \<open>\<^verbatim>\<open>partition_point\<close> of a slice that the predicate partitions.\<close>

definition partition_point :: "('a \<Rightarrow> bool) \<Rightarrow> 'a list \<Rightarrow> nat" where
  "partition_point P xs = length (takeWhile P xs)"

function compute_sparse_subtree_root_sorted ::
  "blake3_fn \<Rightarrow> (hash32 \<times> bytes) list \<Rightarrow> nat \<Rightarrow> hash32" where
  "compute_sparse_subtree_root_sorted blake3 entries subtree_depth =
     (if length entries = 1 then
        (case entries ! 0 of (key_hash, value) \<Rightarrow>
           single_leaf_up blake3 key_hash (rev [Suc subtree_depth..<257])
             (hash_leaf blake3 key_hash value))
      else if subtree_depth \<ge> 256 then hash_leaf blake3 (fst (entries ! 0)) (snd (entries ! 0))
      else
        (let next_depth = Suc subtree_depth;
             (byte_idx, bit_in_byte) = key_bit_position next_depth;
             split = partition_point
               (\<lambda>(key_hash, _). drop_bit bit_in_byte (hbytes key_hash ! byte_idx) AND 1 = 0) entries;
             left = (if split = 0 then DEFAULT_HASHES blake3 ! next_depth
                     else compute_sparse_subtree_root_sorted blake3 (take split entries) next_depth);
             right = (if split = length entries then DEFAULT_HASHES blake3 ! next_depth
                      else compute_sparse_subtree_root_sorted blake3 (drop split entries) next_depth)
         in hash_node blake3 left right))"
  by pat_completeness auto
termination
  by (relation "measure (\<lambda>(_, _, d). 256 - d)") auto

declare compute_sparse_subtree_root_sorted.simps [simp del]

definition compute_sparse_subtree_root ::
  "blake3_fn \<Rightarrow> (hash32 \<times> bytes) list \<Rightarrow> nat \<Rightarrow> hash32" where
  "compute_sparse_subtree_root blake3 entries subtree_depth =
     (if entries = [] then DEFAULT_HASHES blake3 ! subtree_depth
      else if sorted (map fst entries)
      then compute_sparse_subtree_root_sorted blake3 entries subtree_depth
      else compute_sparse_subtree_root_sorted blake3 (sort_key fst entries) subtree_depth)"

text \<open>One level of \<^verbatim>\<open>as_chunks::<2>\<close>: adjacent pairs are hashed, a trailing odd element is dropped.\<close>

fun hash_pairs :: "blake3_fn \<Rightarrow> hash32 list \<Rightarrow> hash32 list" where
  "hash_pairs blake3 (a # b # rest) = hash_node blake3 a b # hash_pairs blake3 rest"
| "hash_pairs blake3 _ = []"

definition compute_sparse_root_parallel_byte :: "blake3_fn \<Rightarrow> (bytes \<times> bytes) list \<Rightarrow> hash32" where
  "compute_sparse_root_parallel_byte blake3 entries =
     (let keyed = map (\<lambda>(key, value). (digest blake3 key, value)) entries;
          buckets = map (\<lambda>i. filter (\<lambda>(k, _). top_bits k PARALLEL_BUCKET_DEPTH = i) keyed)
                      [0..<2 ^ PARALLEL_BUCKET_DEPTH];
          roots = map (\<lambda>bucket. compute_sparse_subtree_root blake3 bucket PARALLEL_BUCKET_DEPTH) buckets
      in (hash_pairs blake3 ^^ PARALLEL_BUCKET_DEPTH) roots ! 0)"

definition compute_sparse_root :: "blake3_fn \<Rightarrow> (bytes \<times> bytes) list \<Rightarrow> hash32" where
  "compute_sparse_root blake3 entries =
     (if entries = [] then DEFAULT_HASHES blake3 ! 0
      else if length entries \<ge> 2048 then compute_sparse_root_parallel_byte blake3 entries
      else compute_sparse_subtree_root blake3
             (map (\<lambda>(key, value). (digest blake3 key, value)) entries) 0)"

end
