(* ===== verification/Sparse_Merkle_Spec.thy ===== *)
theory Sparse_Merkle_Spec
  imports Sparse_Merkle
begin

text \<open>
  What a sparse Merkle tree promises: the hash of every node is determined by the map from key
  hashes to values alone. \<open>node_at\<close> is that function, a complete binary tree of depth 256 over a
  leaf function, and \<open>spec_root\<close> its root. The theory shows that the from-scratch root
  computation, sequential or bucketed, computes it.
\<close>

section \<open>The abstract tree\<close>

definition child :: "hash32 \<Rightarrow> nat \<Rightarrow> bool \<Rightarrow> hash32" where
  "child h d b = (if kbit h d = b then h else sibling_of h d)"

primrec tree_node :: "blake3_fn \<Rightarrow> (hash32 \<Rightarrow> hash32) \<Rightarrow> nat \<Rightarrow> hash32 \<Rightarrow> hash32" where
  "tree_node blake3 lf 0 h = lf h"
| "tree_node blake3 lf (Suc n) h =
     hash_node blake3 (tree_node blake3 lf n (child h (256 - n) False))
                      (tree_node blake3 lf n (child h (256 - n) True))"

definition node_at :: "blake3_fn \<Rightarrow> (hash32 \<Rightarrow> hash32) \<Rightarrow> nat \<Rightarrow> hash32 \<Rightarrow> hash32" where
  "node_at blake3 lf d h = tree_node blake3 lf (256 - d) h"

definition leaf_of :: "blake3_fn \<Rightarrow> (hash32 \<Rightarrow> bytes option) \<Rightarrow> hash32 \<Rightarrow> hash32" where
  "leaf_of blake3 m h = change_leaf blake3 h (m h)"

definition spec_root :: "blake3_fn \<Rightarrow> (hash32 \<Rightarrow> bytes option) \<Rightarrow> hash32" where
  "spec_root blake3 m = node_at blake3 (leaf_of blake3 m) 0 zero_hash"

lemma node_at_leaf [simp]: "node_at blake3 lf 256 h = lf h"
  by (simp add: node_at_def)

lemma node_at_step:
  assumes "d < 256"
  shows "node_at blake3 lf d h =
    hash_node blake3 (node_at blake3 lf (Suc d) (child h (Suc d) False))
                     (node_at blake3 lf (Suc d) (child h (Suc d) True))"
proof -
  have "256 - d = Suc (256 - Suc d)" and "256 - (256 - Suc d) = Suc d" using assms by simp_all
  then show ?thesis by (simp add: node_at_def)
qed

lemma node_at_path:
  assumes "d < 256"
  shows "node_at blake3 lf d h =
    (if kbit h (Suc d)
     then hash_node blake3 (node_at blake3 lf (Suc d) (sibling_of h (Suc d))) (node_at blake3 lf (Suc d) h)
     else hash_node blake3 (node_at blake3 lf (Suc d) h) (node_at blake3 lf (Suc d) (sibling_of h (Suc d))))"
  by (simp add: node_at_step [OF assms] child_def)

lemma kbit_child: "1 \<le> d \<Longrightarrow> d \<le> 256 \<Longrightarrow> kbit (child h d b) d = b"
  by (auto simp: child_def kbit_sibling_of)

lemma agree_child: "d < 256 \<Longrightarrow> agree d (child h (Suc d) b) h"
  by (auto simp: child_def agree_sibling_of)

lemma agree_Suc_child_iff:
  "d < 256 \<Longrightarrow> agree (Suc d) g (child h (Suc d) b) \<longleftrightarrow> agree d g h \<and> kbit g (Suc d) = b"
  using agree_child [of d h b] by (auto simp: agree_Suc kbit_child intro: agree_trans agree_sym)

text \<open>A node depends on nothing but the first bits of its prefix and the leaves below it.\<close>

lemma node_at_cong:
  assumes "d \<le> 256" "agree d h h'" "\<And>g. agree d g h \<Longrightarrow> lf g = lf' g"
  shows "node_at blake3 lf d h = node_at blake3 lf' d h'"
  using assms
proof (induction d arbitrary: h h' rule: inc_induct)
  case base
  then show ?case by (simp add: agree_256_iff)
next
  case (step d)
  have "node_at blake3 lf (Suc d) (child h (Suc d) b) = node_at blake3 lf' (Suc d) (child h' (Suc d) b)" for b
  proof (rule step.IH)
    show "agree (Suc d) (child h (Suc d) b) (child h' (Suc d) b)"
      using step.hyps step.prems(1) agree_child [of d h b]
      by (simp add: agree_Suc_child_iff kbit_child) (blast intro: agree_trans)
    show "lf g = lf' g" if "agree (Suc d) g (child h (Suc d) b)" for g
      using that step.hyps step.prems(2) by (simp add: agree_Suc_child_iff)
  qed
  then show ?case using step.hyps by (simp add: node_at_step)
qed

lemma node_at_agree: "d \<le> 256 \<Longrightarrow> agree d h h' \<Longrightarrow> node_at blake3 lf d h = node_at blake3 lf d h'"
  by (rule node_at_cong) simp_all

lemma length_default_chain [simp]: "length (default_chain blake3 n) = Suc n"
  by (induction n) (simp_all add: Let_def)

lemma default_chain_nth_Suc:
  "d < n \<Longrightarrow> default_chain blake3 n ! d =
     hash_node blake3 (default_chain blake3 n ! Suc d) (default_chain blake3 n ! Suc d)"
proof (induction n arbitrary: d)
  case (Suc n)
  show ?case
  proof (cases d)
    case 0
    have "default_chain blake3 n \<noteq> []" using length_default_chain [of blake3 n] by force
    then show ?thesis by (simp add: 0 Let_def hd_conv_nth)
  next
    case (Suc d')
    then show ?thesis using Suc.IH [of d'] Suc.prems by (simp add: Let_def)
  qed
qed simp

lemma DEFAULT_HASHES_step:
  "d < 256 \<Longrightarrow> DEFAULT_HASHES blake3 ! d =
     hash_node blake3 (DEFAULT_HASHES blake3 ! Suc d) (DEFAULT_HASHES blake3 ! Suc d)"
  unfolding DEFAULT_HASHES_def by (rule default_chain_nth_Suc)

lemma node_at_default:
  assumes "d \<le> 256" "\<And>g. agree d g h \<Longrightarrow> lf g = DEFAULT_HASHES blake3 ! 256"
  shows "node_at blake3 lf d h = DEFAULT_HASHES blake3 ! d"
  using assms
proof (induction d arbitrary: h rule: inc_induct)
  case base
  then show ?case by simp
next
  case (step d)
  have "node_at blake3 lf (Suc d) (child h (Suc d) b) = DEFAULT_HASHES blake3 ! Suc d" for b
    by (rule step.IH) (use step.hyps step.prems in \<open>simp add: agree_Suc_child_iff\<close>)
  then show ?case using step.hyps by (simp add: node_at_step DEFAULT_HASHES_step)
qed

lemma leaf_of_None [simp]: "m h = None \<Longrightarrow> leaf_of blake3 m h = DEFAULT_HASHES blake3 ! 256"
  and leaf_of_Some [simp]: "m h = Some v \<Longrightarrow> leaf_of blake3 m h = hash_leaf blake3 h v"
  by (simp_all add: leaf_of_def change_leaf_def)

lemma spec_root_at: "spec_root blake3 m = node_at blake3 (leaf_of blake3 m) 0 h"
  unfolding spec_root_def by (rule node_at_agree) simp_all

lemma spec_root_empty: "spec_root blake3 Map.empty = DEFAULT_HASHES blake3 ! 0"
  unfolding spec_root_def by (rule node_at_default) simp_all

section \<open>The from-scratch computation\<close>

text \<open>The tests \<^verbatim>\<open>(key_hash[byte_idx] >> bit_in_byte) & 1 == 0\<close> and
  \<^verbatim>\<open>(key_hash[byte_idx] & bit_mask) == 0\<close> both read the key's bit.\<close>

lemma shifted_bit_test:
  "key_bit_position d = (i, j) \<Longrightarrow> (drop_bit j (hbytes h ! i) AND 1 = 0) \<longleftrightarrow> \<not> kbit h d"
  by (simp add: kbit_def byte_shifted_zero_iff)

lemma masked_bit_test:
  "key_bit_position d = (i, j) \<Longrightarrow> (hbytes h ! i AND push_bit j 1 = 0) \<longleftrightarrow> \<not> kbit h d"
  by (simp add: kbit_def and_exp_eq_0_iff_not_bit)

lemma single_leaf_up_Cons:
  "single_leaf_up blake3 h (d # ds) cur =
     single_leaf_up blake3 h ds
       (if kbit h d then hash_node blake3 (DEFAULT_HASHES blake3 ! d) cur
        else hash_node blake3 cur (DEFAULT_HASHES blake3 ! d))"
  by (cases "key_bit_position d") (simp add: shifted_bit_test Let_def)

declare single_leaf_up.simps(2) [simp del]

lemma single_leaf_up_node_at:
  assumes "d \<le> e" "e \<le> 256" "\<And>g. g \<noteq> h \<Longrightarrow> lf g = DEFAULT_HASHES blake3 ! 256"
  shows "single_leaf_up blake3 h (rev [Suc d..<Suc e]) (node_at blake3 lf e h) = node_at blake3 lf d h"
  using assms(1,2)
proof (induction e rule: dec_induct)
  case base
  then show ?case by simp
next
  case (step e)
  then have e: "e < 256" by simp
  have sib: "node_at blake3 lf (Suc e) (sibling_of h (Suc e)) = DEFAULT_HASHES blake3 ! Suc e"
    using e by (intro node_at_default assms(3)) (auto dest: agree_sym simp: not_agree_sibling_of)
  have "single_leaf_up blake3 h (rev [Suc d..<Suc (Suc e)]) (node_at blake3 lf (Suc e) h)
      = single_leaf_up blake3 h (rev [Suc d..<Suc e]) (node_at blake3 lf e h)"
    using step.hyps sib by (simp add: single_leaf_up_Cons node_at_path [OF e])
  then show ?case using step.IH e by simp
qed

lemma takeWhile_sorted_filter:
  assumes "sorted_wrt (\<lambda>x y. P y \<longrightarrow> P x) xs"
  shows "takeWhile P xs = filter P xs" and "dropWhile P xs = filter (\<lambda>x. \<not> P x) xs"
  using assms by (induction xs) (auto simp: filter_empty_conv filter_id_conv)

lemma map_of_filter_key: "P k \<Longrightarrow> map_of (filter (\<lambda>(k, _). P k) xs) k = map_of xs k"
  by (induction xs) auto

lemma sorted_keys_split:
  assumes "sorted (map fst es)" "d < 256" "\<forall>k\<in>fst ` set es. agree d k p"
  shows "sorted_wrt (\<lambda>x y. \<not> kbit (fst y) (Suc d) \<longrightarrow> \<not> kbit (fst x) (Suc d)) es"
proof -
  have "sorted_wrt (\<lambda>x y. fst x \<le> fst y) es" using assms(1) by (simp add: sorted_map)
  then show ?thesis
  proof (rule sorted_wrt_mono_rel [rotated])
    fix x y assume xy: "x \<in> set es" "y \<in> set es" "fst x \<le> fst y"
    show "\<not> kbit (fst y) (Suc d) \<longrightarrow> \<not> kbit (fst x) (Suc d)"
    proof (intro impI notI)
      assume "\<not> kbit (fst y) (Suc d)" "kbit (fst x) (Suc d)"
      moreover have "agree d (fst y) (fst x)"
        using assms(3) xy by (blast intro: agree_trans agree_sym)
      ultimately have "fst y < fst x" using assms(2) by (blast intro: hash32_less_of_bits)
      with xy(3) show False by simp
    qed
  qed
qed

text \<open>The two halves of a sorted slice at the next bit are the entries below the two children.\<close>

definition below :: "nat \<Rightarrow> bool \<Rightarrow> (hash32 \<times> bytes) list \<Rightarrow> (hash32 \<times> bytes) list" where
  "below d b es = filter (\<lambda>(k, _). kbit k d = b) es"

lemma below_sorted: "sorted (map fst es) \<Longrightarrow> sorted (map fst (below d b es))"
  by (simp add: below_def sorted_filter)

lemma below_agree:
  "d < 256 \<Longrightarrow> \<forall>k\<in>fst ` set es. agree d k p \<Longrightarrow>
     \<forall>k\<in>fst ` set (below (Suc d) b es). agree (Suc d) k (child p (Suc d) b)"
  by (auto simp: below_def agree_Suc_child_iff)

lemma node_at_below:
  assumes "d < 256"
  shows "node_at blake3 (leaf_of blake3 (map_of (below (Suc d) b es))) (Suc d) (child p (Suc d) b)
    = node_at blake3 (leaf_of blake3 (map_of es)) (Suc d) (child p (Suc d) b)"
proof (rule node_at_cong)
  fix g assume "agree (Suc d) g (child p (Suc d) b)"
  then have "kbit g (Suc d) = b" using assms by (simp add: agree_Suc_child_iff)
  then show "leaf_of blake3 (map_of (below (Suc d) b es)) g = leaf_of blake3 (map_of es) g"
    using map_of_filter_key [of "\<lambda>k. kbit k (Suc d) = b" g es] by (simp add: leaf_of_def below_def)
qed (use assms in simp_all)

lemma node_at_half:
  assumes "d < 256"
    and "below (Suc d) b es \<noteq> [] \<Longrightarrow>
      half = node_at blake3 (leaf_of blake3 (map_of (below (Suc d) b es))) (Suc d) (child p (Suc d) b)"
  shows "(if below (Suc d) b es = [] then DEFAULT_HASHES blake3 ! Suc d else half)
    = node_at blake3 (leaf_of blake3 (map_of es)) (Suc d) (child p (Suc d) b)"
proof (cases "below (Suc d) b es = []")
  case True
  have "node_at blake3 (leaf_of blake3 (map_of (below (Suc d) b es))) (Suc d) (child p (Suc d) b)
      = DEFAULT_HASHES blake3 ! Suc d"
    using True assms(1) by (intro node_at_default) simp_all
  then have "node_at blake3 (leaf_of blake3 (map_of es)) (Suc d) (child p (Suc d) b)
      = DEFAULT_HASHES blake3 ! Suc d"
    by (simp only: node_at_below [OF assms(1)])
  with True show ?thesis by simp
next
  case False
  then show ?thesis using assms(2) by (simp add: node_at_below [OF assms(1)])
qed

lemma split_below:
  assumes "sorted (map fst es)" "d < 256" "\<forall>k\<in>fst ` set es. agree d k p"
    and "key_bit_position (Suc d) = (i, j)"
  defines "split \<equiv> partition_point (\<lambda>(k, _). drop_bit j (hbytes k ! i) AND 1 = 0) es"
  shows "take split es = below (Suc d) False es" and "drop split es = below (Suc d) True es"
proof -
  let ?P = "\<lambda>x. \<not> kbit (fst x) (Suc d)"
  have P: "(\<lambda>(k, _). drop_bit j (hbytes k ! i) AND 1 = 0) = ?P"
    by (auto simp: shifted_bit_test [OF assms(4)])
  have sp: "split = length (takeWhile ?P es)" by (simp add: split_def partition_point_def P)
  note tw = takeWhile_sorted_filter [OF sorted_keys_split [OF assms(1-3)]]
  have "take split es = takeWhile ?P es" unfolding sp by (rule takeWhile_eq_take [symmetric])
  then show "take split es = below (Suc d) False es"
    by (simp add: tw below_def case_prod_unfold)
  have "drop split es = dropWhile ?P es" unfolding sp by (rule dropWhile_eq_drop [symmetric])
  then show "drop split es = below (Suc d) True es"
    by (simp add: tw below_def case_prod_unfold)
qed

lemma take_drop_empty_iff:
  "split \<le> length es \<Longrightarrow> split = 0 \<longleftrightarrow> take split es = [] \<or> es = []"
  "split \<le> length es \<Longrightarrow> split = length es \<longleftrightarrow> drop split es = []"
  by auto

lemma compute_sparse_subtree_root_sorted_node_at:
  assumes "es \<noteq> []" "sorted (map fst es)" "d \<le> 256" "\<forall>k\<in>fst ` set es. agree d k p"
  shows "compute_sparse_subtree_root_sorted blake3 es d =
           node_at blake3 (leaf_of blake3 (map_of es)) d p"
  using assms
proof (induction blake3 es d arbitrary: p rule: compute_sparse_subtree_root_sorted.induct)
  case (1 blake3 es d)
  note unfold_once = compute_sparse_subtree_root_sorted.simps [of blake3 es d]
  let ?lf = "leaf_of blake3 (map_of es)"
  consider (one) "length es = 1" | (bottom) "length es \<noteq> 1" "d = 256" | (split) "length es \<noteq> 1" "d < 256"
    using 1(5) by linarith
  then show ?case
  proof cases
    case one
    then obtain k v where es: "es = [(k, v)]" by (cases es) auto
    have "single_leaf_up blake3 k (rev [Suc d..<Suc 256]) (node_at blake3 ?lf 256 k)
        = node_at blake3 ?lf d k"
      by (rule single_leaf_up_node_at) (use 1(5) es in auto)
    moreover have "node_at blake3 ?lf d k = node_at blake3 ?lf d p"
      by (rule node_at_agree) (use 1(5,6) es in auto)
    ultimately show ?thesis by (subst unfold_once) (simp add: es)
  next
    case bottom
    obtain k v rest where es: "es = (k, v) # rest" using 1(3) by (cases es) auto
    have "k = p" using 1(6) bottom es by (simp add: agree_256_iff)
    then show ?thesis using bottom by (subst unfold_once) (simp add: es)
  next
    case split
    obtain i j where ij: "key_bit_position (Suc d) = (i, j)" by force
    define s where "s = partition_point (\<lambda>(k, _). drop_bit j (hbytes k ! i) AND 1 = 0) es"
    have s_le: "s \<le> length es" by (simp add: s_def partition_point_def length_takeWhile_le)
    note halves = split_below [OF 1(4) split(2) 1(6) ij, folded s_def]
    have d: "\<not> 256 \<le> d" using split by simp
    note IH = 1(1) [OF split(1) d refl refl ij [symmetric] s_def]
              1(2) [OF split(1) d refl refl ij [symmetric] s_def refl]
    have left: "(if s = 0 then DEFAULT_HASHES blake3 ! Suc d
        else compute_sparse_subtree_root_sorted blake3 (take s es) (Suc d))
        = node_at blake3 ?lf (Suc d) (child p (Suc d) False)"
      using node_at_half [OF split(2), of False es _ blake3 p] IH(1) [of "child p (Suc d) False"]
        1(3,4,6) split s_le
      by (simp add: halves below_sorted below_agree take_drop_empty_iff)
    have right: "(if s = length es then DEFAULT_HASHES blake3 ! Suc d
        else compute_sparse_subtree_root_sorted blake3 (drop s es) (Suc d))
        = node_at blake3 ?lf (Suc d) (child p (Suc d) True)"
      using node_at_half [OF split(2), of True es _ blake3 p] IH(2) [of "child p (Suc d) True"]
        1(3,4,6) split s_le
      by (simp add: halves below_sorted below_agree take_drop_empty_iff)
    have "compute_sparse_subtree_root_sorted blake3 es d = hash_node blake3
        (if s = 0 then DEFAULT_HASHES blake3 ! Suc d
         else compute_sparse_subtree_root_sorted blake3 (take s es) (Suc d))
        (if s = length es then DEFAULT_HASHES blake3 ! Suc d
         else compute_sparse_subtree_root_sorted blake3 (drop s es) (Suc d))"
      using split(1) d by (subst unfold_once) (simp only: if_False ij Let_def prod.case s_def)
    then show ?thesis by (simp only: left right node_at_step [OF split(2)])
  qed
qed

lemma map_of_conv_filter:
  "map_of xs k = (case filter (\<lambda>x. fst x = k) xs of [] \<Rightarrow> None | x # _ \<Rightarrow> Some (snd x))"
  by (induction xs) auto

lemma map_of_sort_key [simp]: "map_of (sort_key fst xs) = map_of xs"
  by (rule ext) (simp add: map_of_conv_filter sort_key_stable)

lemma compute_sparse_subtree_root_node_at:
  assumes "d \<le> 256" "\<forall>k\<in>fst ` set es. agree d k p"
  shows "compute_sparse_subtree_root blake3 es d = node_at blake3 (leaf_of blake3 (map_of es)) d p"
proof -
  have sorted_case: "compute_sparse_subtree_root_sorted blake3 xs d
      = node_at blake3 (leaf_of blake3 (map_of xs)) d p"
    if "xs \<noteq> []" "sorted (map fst xs)" "set xs = set es" for xs
    using that assms by (intro compute_sparse_subtree_root_sorted_node_at) auto
  have default: "node_at blake3 (leaf_of blake3 Map.empty) d p = DEFAULT_HASHES blake3 ! d"
    using assms(1) by (rule node_at_default) simp
  have "sort_key fst es \<noteq> []" if "es \<noteq> []"
    using that by (metis length_sort length_0_conv)
  then show ?thesis
    using sorted_case [of es] sorted_case [of "sort_key fst es"] default
    by (simp add: compute_sparse_subtree_root_def)
qed

section \<open>The bucketed computation\<close>

text \<open>The bucket of a key is the number its first twelve bits spell.\<close>

definition bucket_no :: "nat \<Rightarrow> hash32 \<Rightarrow> nat" where
  "bucket_no d h = drop_bit (12 - d) (top_bits h PARALLEL_BUCKET_DEPTH)"

lemma bit_top_bits:
  assumes "n < 12"
  shows "bit (top_bits h PARALLEL_BUCKET_DEPTH) n = kbit h (12 - n)"
proof (cases "n < 4")
  case True
  then have "bit (hbytes h ! 1) (n + 4) = kbit h (8 * 1 + (8 - (n + 4)))"
    by (intro kbit_of_byte) auto
  with True show ?thesis
    by (simp add: top_bits_def PARALLEL_BUCKET_DEPTH_def bit_simps add.commute)
next
  case False
  then have "bit (hbytes h ! 0) (n - 4) = kbit h (8 * 0 + (8 - (n - 4)))"
    using assms by (intro kbit_of_byte) auto
  moreover have "\<not> bit (hbytes h ! 1) (n + 4)"
    using False by (auto dest: bit_imp_le_length)
  ultimately show ?thesis
    using False assms
    by (simp add: top_bits_def PARALLEL_BUCKET_DEPTH_def bit_simps add.commute)
qed

lemma top_bits_less: "top_bits h PARALLEL_BUCKET_DEPTH < 2 ^ 12"
proof -
  let ?v = "push_bit 8 (unat (hbytes h ! 0)) OR unat (hbytes h ! 1)"
  have "take_bit 16 ?v = ?v"
  proof (rule bit_eqI)
    fix n
    show "bit (take_bit 16 ?v) n = bit ?v n"
      by (auto simp: bit_simps dest: bit_imp_le_length)
  qed
  then have "?v < 2 ^ 16" by (metis take_bit_nat_less_exp)
  then have "?v div 2 ^ 4 < 2 ^ 12" by (simp add: less_mult_imp_div_less)
  then show ?thesis by (simp add: top_bits_def PARALLEL_BUCKET_DEPTH_def drop_bit_eq_div)
qed

lemma bit_bucket_no: "d \<le> 12 \<Longrightarrow> bit (bucket_no d h) n \<longleftrightarrow> n < d \<and> kbit h (d - n)"
proof -
  assume d: "d \<le> 12"
  show ?thesis
  proof (cases "n < d")
    case True
    then show ?thesis using d bit_top_bits [of "12 - d + n" h] by (simp add: bucket_no_def bit_simps)
  next
    case False
    have "take_bit 12 (top_bits h PARALLEL_BUCKET_DEPTH) = top_bits h PARALLEL_BUCKET_DEPTH"
      using top_bits_less by (simp add: take_bit_nat_eq_self)
    then have "bit (top_bits h PARALLEL_BUCKET_DEPTH) (12 - d + n) \<longrightarrow> 12 - d + n < 12"
      by (metis bit_take_bit_iff)
    then show ?thesis using False d by (auto simp: bucket_no_def bit_simps)
  qed
qed

lemma bucket_no_agree: "d \<le> 12 \<Longrightarrow> agree d g h \<Longrightarrow> bucket_no d g = bucket_no d h"
  by (rule bit_eqI) (auto simp: bit_bucket_no agree_def)

lemma bucket_no_eq_iff: "top_bits g PARALLEL_BUCKET_DEPTH = top_bits h PARALLEL_BUCKET_DEPTH \<longleftrightarrow> agree 12 g h"
proof
  assume eq: "top_bits g PARALLEL_BUCKET_DEPTH = top_bits h PARALLEL_BUCKET_DEPTH"
  show "agree 12 g h"
    unfolding agree_def
  proof (intro allI impI)
    fix i :: nat assume i: "1 \<le> i \<and> i \<le> 12"
    then show "kbit g i = kbit h i"
      using bit_top_bits [of "12 - i" g] bit_top_bits [of "12 - i" h] eq by simp
  qed
next
  assume "agree 12 g h"
  then show "top_bits g PARALLEL_BUCKET_DEPTH = top_bits h PARALLEL_BUCKET_DEPTH"
    using bucket_no_agree [of 12 g h] by (simp add: bucket_no_def)
qed

lemma bit_double_of_bool: "bit (2 * x + of_bool b) n = (case n of 0 \<Rightarrow> b | Suc m \<Rightarrow> bit x m)"
  for x :: nat
  by (cases n) (simp_all add: bit_0 bit_Suc)

lemma bucket_no_0 [simp]: "bucket_no 0 h = 0"
  using top_bits_less [of h] by (simp add: bucket_no_def drop_bit_eq_div)

lemma bucket_no_child:
  assumes "d < 12"
  shows "bucket_no (Suc d) (child h (Suc d) b) = 2 * bucket_no d h + of_bool b"
proof (rule bit_eqI)
  fix n
  have "agree d (child h (Suc d) b) h" using assms by (simp add: agree_child)
  then show "bit (bucket_no (Suc d) (child h (Suc d) b)) n = bit (2 * bucket_no d h + of_bool b) n"
    using assms
    by (cases n) (auto simp: bit_bucket_no kbit_child agree_def bit_double_of_bool simp del: bit_Suc)
qed

text \<open>The prefixes of all nodes \<open>k\<close> levels below a node, from left to right.\<close>

primrec prefixes :: "nat \<Rightarrow> nat \<Rightarrow> hash32 \<Rightarrow> hash32 list" where
  "prefixes 0 d h = [h]"
| "prefixes (Suc k) d h =
     prefixes k (Suc d) (child h (Suc d) False) @ prefixes k (Suc d) (child h (Suc d) True)"

lemma length_prefixes [simp]: "length (prefixes k d h) = 2 ^ k"
  by (induction k arbitrary: d h) simp_all

lemma prefixes_bucket_no:
  "d + k \<le> 12 \<Longrightarrow> map (bucket_no (d + k)) (prefixes k d h)
     = [bucket_no d h * 2 ^ k..<Suc (bucket_no d h) * 2 ^ k]"
proof (induction k arbitrary: d h)
  case (Suc k)
  let ?n = "bucket_no d h"
  have "map (bucket_no (d + Suc k)) (prefixes (Suc k) d h)
      = [2 * ?n * 2 ^ k..<Suc (2 * ?n) * 2 ^ k] @ [Suc (2 * ?n) * 2 ^ k..<Suc (Suc (2 * ?n)) * 2 ^ k]"
    using Suc.IH [of "Suc d" "child h (Suc d) False"] Suc.IH [of "Suc d" "child h (Suc d) True"] Suc.prems
    by (simp add: bucket_no_child)
  also have "\<dots> = [2 * ?n * 2 ^ k..<Suc (Suc (2 * ?n)) * 2 ^ k]"
    using upt_add_eq_append [of "2 * ?n * 2 ^ k" "Suc (2 * ?n) * 2 ^ k" "2 ^ k"]
    by (simp add: algebra_simps)
  finally show ?case by (simp add: algebra_simps)
qed simp

lemma hash_pairs_append:
  "even (length xs) \<Longrightarrow> hash_pairs blake3 (xs @ ys) = hash_pairs blake3 xs @ hash_pairs blake3 ys"
  by (induction blake3 xs rule: hash_pairs.induct) (auto split: list.splits)

lemma hash_pairs_level:
  assumes "d + Suc k \<le> 256"
  shows "hash_pairs blake3 (map (node_at blake3 lf (d + Suc k)) (prefixes (Suc k) d h))
    = map (node_at blake3 lf (d + k)) (prefixes k d h)"
  using assms
proof (induction k arbitrary: d h)
  case 0
  then show ?case by (simp add: node_at_step)
next
  case (Suc k)
  have "hash_pairs blake3 (map (node_at blake3 lf (Suc d + Suc k)) (prefixes (Suc k) (Suc d) g))
      = map (node_at blake3 lf (Suc d + k)) (prefixes k (Suc d) g)" for g
    by (rule Suc.IH) (use Suc.prems in simp)
  then show ?case
    by (subst prefixes.simps(2)) (simp add: hash_pairs_append del: prefixes.simps(2), simp)
qed

lemma hash_pairs_levels:
  "d + k \<le> 256 \<Longrightarrow>
     (hash_pairs blake3 ^^ k) (map (node_at blake3 lf (d + k)) (prefixes k d h)) = [node_at blake3 lf d h]"
proof (induction k)
  case (Suc k)
  then show ?case
    using hash_pairs_level [of d k blake3 lf h] by (simp add: funpow_Suc_right del: funpow.simps prefixes.simps(2))
qed simp

lemma compute_sparse_root_parallel_byte_spec:
  "compute_sparse_root_parallel_byte blake3 entries =
     spec_root blake3 (map_of (map (\<lambda>(key, value). (digest blake3 key, value)) entries))"
proof -
  define keyed where "keyed = map (\<lambda>(key, value). (digest blake3 key, value)) entries"
  let ?node = "node_at blake3 (leaf_of blake3 (map_of keyed))"
  let ?bucket = "\<lambda>i. filter (\<lambda>(k, _). top_bits k PARALLEL_BUCKET_DEPTH = i) keyed"
  have bucket: "compute_sparse_subtree_root blake3 (?bucket (bucket_no 12 g)) 12 = ?node 12 g" for g
  proof -
    have "compute_sparse_subtree_root blake3 (?bucket (bucket_no 12 g)) 12
        = node_at blake3 (leaf_of blake3 (map_of (?bucket (bucket_no 12 g)))) 12 g"
      by (rule compute_sparse_subtree_root_node_at) (auto simp: bucket_no_def bucket_no_eq_iff)
    also have "\<dots> = ?node 12 g"
    proof (rule node_at_cong)
      fix h assume "agree 12 h g"
      then show "leaf_of blake3 (map_of (?bucket (bucket_no 12 g))) h = leaf_of blake3 (map_of keyed) h"
        using map_of_filter_key [of "\<lambda>k. top_bits k PARALLEL_BUCKET_DEPTH = bucket_no 12 g" h keyed]
        by (simp add: leaf_of_def bucket_no_def bucket_no_eq_iff [symmetric])
    qed simp_all
    finally show ?thesis .
  qed
  have "[0..<2 ^ 12] = map (bucket_no 12) (prefixes 12 0 zero_hash)"
    using prefixes_bucket_no [of 0 12 zero_hash] by simp
  then have "map (\<lambda>i. compute_sparse_subtree_root blake3 (?bucket i) 12) [0..<2 ^ 12]
      = map (?node 12) (prefixes 12 0 zero_hash)"
    by (simp add: bucket)
  then have "(hash_pairs blake3 ^^ 12) (map (\<lambda>i. compute_sparse_subtree_root blake3 (?bucket i) 12) [0..<2 ^ 12])
      = [?node 0 zero_hash]"
    using hash_pairs_levels [of 0 12 blake3 "leaf_of blake3 (map_of keyed)" zero_hash] by simp
  then show ?thesis
    unfolding compute_sparse_root_parallel_byte_def Let_def keyed_def [symmetric] spec_root_def
    by (simp add: PARALLEL_BUCKET_DEPTH_def comp_def)
qed

lemma compute_sparse_root_spec:
  "compute_sparse_root blake3 entries =
     spec_root blake3 (map_of (map (\<lambda>(key, value). (digest blake3 key, value)) entries))"
proof -
  have "compute_sparse_subtree_root blake3 es 0 = spec_root blake3 (map_of es)" for es
    unfolding spec_root_def by (rule compute_sparse_subtree_root_node_at) simp_all
  then show ?thesis
    by (simp add: compute_sparse_root_def compute_sparse_root_parallel_byte_spec spec_root_empty)
qed

end
