(* ===== verification/Sparse_Merkle_Update.thy ===== *)
theory Sparse_Merkle_Update
  imports Sparse_Merkle_Spec
begin

text \<open>
  Incremental updates of the sparse Merkle tree: node keys name nodes injectively, staging one
  leaf rewrites exactly the nodes on its path, and a cache with an overlay of staged nodes keeps
  tracking the abstract tree. The code never stores the leaves themselves (depth 256), so it reads
  every sibling leaf as the default one; that is right as long as no two keys of the tree share
  their first 255 bits (\<open>spread\<close>).
\<close>

section \<open>Node keys\<close>

definition node_key_bytes :: "hash32 \<Rightarrow> nat \<Rightarrow> bytes" where
  "node_key_bytes p d =
     (let t = take (node_prefix_len d) (hbytes p)
      in if d mod 8 \<noteq> 0 then t[length t - 1 := last t AND push_bit (8 - d mod 8) 0xFF] else t)"

lemma node_prefix_len_bounds: "d \<le> 256 \<Longrightarrow> node_prefix_len d \<le> 32"
  and node_prefix_len_pos: "0 < d \<Longrightarrow> 0 < node_prefix_len d"
  by (auto simp: node_prefix_len_def)

lemma length_node_key_bytes: "d \<le> 256 \<Longrightarrow> length (node_key_bytes p d) = node_prefix_len d"
  using node_prefix_len_bounds [of d] by (simp add: node_key_bytes_def Let_def)

lemma update_last_append:
  assumes "t \<noteq> []"
  shows "(x @ t)[length (x @ t) - 1 := f (last (x @ t))] = x @ t[length t - 1 := f (last t)]"
proof -
  have "length (x @ t) - 1 = length x + (length t - 1)"
    using assms by (cases t) simp_all
  then show ?thesis using assms by (simp only: list_update_append) simp
qed

lemma node_key_split:
  assumes "d \<le> 256"
  shows "node_key p d = [110, 58] @ u16_to_be_bytes (of_nat d) @ node_key_bytes p d"
proof (cases "d = 0")
  case True
  then show ?thesis
    by (simp add: node_key_def ROOT_NODE_KEY_def u16_to_be_bytes_def node_key_bytes_def node_prefix_len_def)
next
  case False
  have "take (node_prefix_len d) (hbytes p) \<noteq> []"
    using False node_prefix_len_pos [of d] hbytes_not_Nil by simp
  from update_last_append [OF this, of "[110, 58] @ u16_to_be_bytes (of_nat d)"
      "\<lambda>b. b AND push_bit (8 - d mod 8) 0xFF"]
  show ?thesis
    using False by (cases "d mod 8 = 0") (simp_all only: node_key_def node_key_bytes_def Let_def
        append_assoc if_False if_True not_False_eq_True simp_thms)
qed

lemma node_prefix_last:
  assumes "i < node_prefix_len d" "j < 8"
  shows "(d mod 8 \<noteq> 0 \<and> i = node_prefix_len d - 1 \<longrightarrow> 8 - d mod 8 \<le> j) \<longleftrightarrow> 8 * i + (8 - j) \<le> d"
proof -
  define k r where "k = d div 8" and "r = d mod 8"
  have d: "d = 8 * k + r" "r < 8" by (simp_all add: k_def r_def)
  have "node_prefix_len d = (if r = 0 then k else Suc k)"
    using d by (auto simp: node_prefix_len_def intro!: div_nat_eqI)
  then show ?thesis
    using assms d by (cases "i = k"; cases "r = 0") (auto simp: d(1))
qed

lemma bit_node_key_bytes:
  assumes "d \<le> 256" "i < node_prefix_len d" "j < 8"
  shows "bit (node_key_bytes p d ! i) j \<longleftrightarrow> bit (hbytes p ! i) j \<and> 8 * i + (8 - j) \<le> d"
proof -
  let ?n = "node_prefix_len d"
  have n: "?n \<le> 32" "length (take ?n (hbytes p)) = ?n"
    using node_prefix_len_bounds [OF assms(1)] by simp_all
  have ne: "take ?n (hbytes p) \<noteq> []" using n assms(2) by (auto simp flip: length_0_conv)
  have last: "last (take ?n (hbytes p)) = hbytes p ! (?n - 1)"
    using ne n assms(2) by (simp add: last_conv_nth)
  have ff: "(0xFF :: byte) = mask 8" by (simp add: mask_eq_exp_minus_1)
  have "bit (node_key_bytes p d ! i) j \<longleftrightarrow>
      bit (hbytes p ! i) j \<and> (d mod 8 \<noteq> 0 \<and> i = ?n - 1 \<longrightarrow> 8 - d mod 8 \<le> j)"
    using assms n last
    by (auto simp: node_key_bytes_def Let_def nth_list_update bit_and_iff bit_push_bit_iff ff bit_mask_iff)
  moreover have "(d mod 8 \<noteq> 0 \<and> i = ?n - 1 \<longrightarrow> 8 - d mod 8 \<le> j) \<longleftrightarrow> 8 * i + (8 - j) \<le> d"
    using assms(2,3) node_prefix_last [of i d j] by simp
  ultimately show ?thesis by simp
qed

lemma node_key_bytes_eq_iff:
  assumes "d \<le> 256"
  shows "node_key_bytes p d = node_key_bytes q d \<longleftrightarrow> agree d p q"
proof
  assume eq: "node_key_bytes p d = node_key_bytes q d"
  show "agree d p q"
    unfolding agree_def
  proof (intro allI impI)
    fix i assume i: "1 \<le> i \<and> i \<le> d"
    define k where "k = (i - 1) div 8"
    define j where "j = 7 - (i - 1) mod 8"
    have kj: "k < 32" "j < 8" "k < node_prefix_len d" "8 * k + (8 - j) = i"
      using i assms by (auto simp: k_def j_def node_prefix_len_def)
    show "kbit p i = kbit q i"
      using bit_node_key_bytes [OF assms kj(3,2), of p] bit_node_key_bytes [OF assms kj(3,2), of q]
        kbit_of_byte [OF kj(1,2), of p] kbit_of_byte [OF kj(1,2), of q] eq i
      unfolding kj(4) by simp
  qed
next
  assume ag: "agree d p q"
  show "node_key_bytes p d = node_key_bytes q d"
  proof (rule nth_equalityI)
    fix i assume "i < length (node_key_bytes p d)"
    then have i: "i < node_prefix_len d" by (simp add: length_node_key_bytes assms)
    then have "i < 32" using node_prefix_len_bounds [OF assms] by simp
    then show "node_key_bytes p d ! i = node_key_bytes q d ! i"
      using agree_nth [OF ag] by (intro bit_word_eqI) (auto simp: bit_node_key_bytes [OF assms i])
  qed (simp add: length_node_key_bytes assms)
qed

lemma u16_to_be_bytes_inject: "u16_to_be_bytes a = u16_to_be_bytes b \<longleftrightarrow> a = b"
proof
  assume eq: "u16_to_be_bytes a = u16_to_be_bytes b"
  show "a = b"
  proof (rule bit_word_eqI)
    fix n :: nat assume n: "n < LENGTH(16)"
    have bits: "bit (ucast a :: byte) n = bit (ucast b :: byte) n"
      "bit (ucast (drop_bit 8 a) :: byte) (n - 8) = bit (ucast (drop_bit 8 b) :: byte) (n - 8)"
      using eq by (simp_all add: u16_to_be_bytes_def)
    show "bit a n = bit b n"
      using bits n by (cases "n < 8") (auto simp: bit_simps)
  qed
qed simp

lemma node_key_eq_iff:
  assumes "d \<le> 256" "e \<le> 256"
  shows "node_key p d = node_key q e \<longleftrightarrow> d = e \<and> agree d p q"
proof -
  have "d = e" if "node_key p d = node_key q e"
  proof -
    have "u16_to_be_bytes (of_nat d) = u16_to_be_bytes (of_nat e)"
      using that by (simp add: node_key_split assms u16_to_be_bytes_def)
    then have "(of_nat d :: u16) = of_nat e" by (simp add: u16_to_be_bytes_inject)
    then show "d = e" using assms by (simp add: of_nat_inverse word_of_nat_eq_iff take_bit_nat_eq_self)
  qed
  then show ?thesis
    using assms by (auto simp: node_key_split node_key_bytes_eq_iff)
qed

lemma node_key_root [simp]: "node_key p 0 = ROOT_NODE_KEY"
  by (simp add: node_key_def)

section \<open>Staging nodes\<close>

lemma map_of_stage_node:
  "map_of (stage_node blake3 ov p d h) =
     (map_of ov)(node_key p d \<mapsto> (if h = DEFAULT_HASHES blake3 ! d then None else Some h))"
  by (simp add: stage_node_def Let_def update_conv')

lemma hashmap_invar_stage_node: "hashmap_invar ov \<Longrightarrow> hashmap_invar (stage_node blake3 ov p d h)"
  by (simp add: stage_node_def Let_def hashmap.invar_insert)

lemma view_stage_node:
  assumes "d \<le> 256" "e \<le> 256"
  shows "node_hash_from_overlay blake3 cache (stage_node blake3 ov p d h) q e =
    (if d = e \<and> agree d p q then h else node_hash_from_overlay blake3 cache ov q e)"
proof -
  have "node_key q e = node_key p d \<longleftrightarrow> d = e \<and> agree d p q"
    using node_key_eq_iff [OF assms, of p q] by (auto dest: sym)
  then show ?thesis
    by (cases "d = e \<and> agree d p q") (auto simp: node_hash_from_overlay_def map_of_stage_node)
qed

lemma stage_up_Cons:
  "stage_up blake3 cache k (d # ds) (ov, cur) =
     (let s = node_hash_from_overlay blake3 cache ov (sibling_of k d) d;
          parent = (if kbit k d then hash_node blake3 s cur else hash_node blake3 cur s)
      in stage_up blake3 cache k ds (stage_node blake3 ov k (d - 1) parent, parent))"
proof -
  obtain i j where ij: "key_bit_position d = (i, j)" by fastforce
  show ?thesis
    by (simp only: stage_up.simps ij Let_def prod.case masked_bit_test [OF ij] sibling_of_def) simp
qed

declare stage_up.simps(2) [simp del]

lemma hashmap_invar_stage_up:
  "hashmap_invar ov \<Longrightarrow> hashmap_invar (fst (stage_up blake3 cache k ds (ov, cur)))"
proof (induction ds arbitrary: ov cur)
  case (Cons d ds)
  then show ?case
    by (simp add: stage_up_Cons Let_def hashmap_invar_stage_node)
qed simp

lemma keys_stage_up:
  assumes "\<And>d. d \<in> set ds \<Longrightarrow> S < d \<and> d \<le> D"
  shows "dom (map_of (fst (stage_up blake3 cache k ds (ov, cur)))) \<subseteq>
    dom (map_of ov) \<union> {node_key k e |e. S \<le> e \<and> e < D}"
  using assms
proof (induction ds arbitrary: ov cur)
  case (Cons d ds)
  let ?s = "node_hash_from_overlay blake3 cache ov (sibling_of k d) d"
  define parent where "parent = (if kbit k d then hash_node blake3 ?s cur else hash_node blake3 cur ?s)"
  have "dom (map_of (fst (stage_up blake3 cache k ds (stage_node blake3 ov k (d - 1) parent, parent))))
      \<subseteq> dom (map_of (stage_node blake3 ov k (d - 1) parent)) \<union> {node_key k e |e. S \<le> e \<and> e < D}"
    by (rule Cons.IH) (use Cons.prems in simp)
  moreover have "S \<le> d - 1" "d - 1 < D" using Cons.prems [of d] by auto
  ultimately show ?case
    by (auto simp: stage_up_Cons Let_def map_of_stage_node simp flip: parent_def)
qed simp

text \<open>
  The upward loop: if every sibling on the path reads as the node of the target tree, the loop ends
  with the target node at the stop depth and rewrites exactly the nodes of the path.
\<close>

lemma stage_up_node_at:
  assumes "S \<le> D" "D \<le> 256"
    and "\<And>e. S < e \<Longrightarrow> e \<le> D \<Longrightarrow>
      node_hash_from_overlay blake3 cache ov (sibling_of k e) e = node_at blake3 lf e (sibling_of k e)"
  shows "snd (stage_up blake3 cache k (rev [Suc S..<Suc D]) (ov, node_at blake3 lf D k)) = node_at blake3 lf S k
    \<and> (\<forall>q e. e \<le> 256 \<longrightarrow>
         node_hash_from_overlay blake3 cache
           (fst (stage_up blake3 cache k (rev [Suc S..<Suc D]) (ov, node_at blake3 lf D k))) q e =
         (if S \<le> e \<and> e < D \<and> agree e k q then node_at blake3 lf e k
          else node_hash_from_overlay blake3 cache ov q e))"
  using assms
proof (induction D arbitrary: ov rule: dec_induct)
  case base
  then show ?case by auto
next
  case (step D)
  define ov' where "ov' = stage_node blake3 ov k D (node_at blake3 lf D k)"
  define r where "r = stage_up blake3 cache k (rev [Suc S..<Suc D]) (ov', node_at blake3 lf D k)"
  have up: "stage_up blake3 cache k (rev [Suc S..<Suc (Suc D)]) (ov, node_at blake3 lf (Suc D) k) =
r"
    using step.hyps step.prems(1) step.prems(2) [of "Suc D"] node_at_path [of D blake3 lf k]
    by (simp add: stage_up_Cons Let_def ov'_def r_def del: upt_Suc add: upt_Suc_append)
  have view: "node_hash_from_overlay blake3 cache ov' q e =
      (if e = D \<and> agree D k q then node_at blake3 lf D k else node_hash_from_overlay blake3 cache ov q e)"
    if "e \<le> 256" for q e
    using that step.prems(1) by (auto simp: ov'_def view_stage_node)
  have "node_hash_from_overlay blake3 cache ov' (sibling_of k e) e = node_at blake3 lf e (sibling_of k e)"
    if "S < e" "e \<le> D" for e
    using that step.prems step.hyps not_agree_sibling_of [of e k] agree_sym [of e k "sibling_of k e"]
    by (auto simp: view)
  from step.IH [OF _ this] step.prems(1)
  have ih: "snd r = node_at blake3 lf S k"
    "\<And>q e. e \<le> 256 \<Longrightarrow> node_hash_from_overlay blake3 cache (fst r) q e =
      (if S \<le> e \<and> e < D \<and> agree e k q then node_at blake3 lf e k
       else node_hash_from_overlay blake3 cache ov' q e)"
    by (simp_all only: r_def)
  show ?case
    unfolding up using ih(1) step.hyps by (auto simp: ih(2) view less_Suc_eq)
qed

section \<open>Tracking the abstract tree\<close>

text \<open>
  No two of the keys share their first 255 bits, so no two leaves are siblings.
\<close>

definition spread :: "hash32 set \<Rightarrow> bool" where
  "spread K \<longleftrightarrow> (\<forall>g \<in> K. \<forall>h \<in> K. agree 255 g h \<longrightarrow> g = h)"

definition tracks_from ::
  "nat \<Rightarrow> blake3_fn \<Rightarrow> node_cache \<Rightarrow> node_overlay \<Rightarrow> (hash32 \<Rightarrow> bytes option) \<Rightarrow> bool" where
  "tracks_from S blake3 cache ov m \<longleftrightarrow>
     (\<forall>q e. S \<le> e \<and> e < 256 \<longrightarrow>
        node_hash_from_overlay blake3 cache ov q e = node_at blake3 (leaf_of blake3 m) e q) \<and>
     (\<forall>q. node_hash_from_overlay blake3 cache ov q 256 = DEFAULT_HASHES blake3 ! 256)"

lemma spread_mono: "spread K \<Longrightarrow> L \<subseteq> K \<Longrightarrow> spread L"
  by (auto simp: spread_def)

lemma tracks_fromD:
  "tracks_from S blake3 cache ov m \<Longrightarrow> S \<le> e \<Longrightarrow> e < 256 \<Longrightarrow>
     node_hash_from_overlay blake3 cache ov q e = node_at blake3 (leaf_of blake3 m) e q"
  "tracks_from S blake3 cache ov m \<Longrightarrow>
     node_hash_from_overlay blake3 cache ov q 256 = DEFAULT_HASHES blake3 ! 256"
  by (simp_all add: tracks_from_def)

lemma node_at_upd_other:
  assumes "d \<le> 256" "\<And>g. agree d g q \<Longrightarrow> m g = m' g"
  shows "node_at blake3 (leaf_of blake3 m) d q = node_at blake3 (leaf_of blake3 m') d q"
  by (rule node_at_cong) (use assms in \<open>auto simp: leaf_of_def\<close>)

lemma sibling_leaf_free:
  assumes "spread (insert k (dom m))"
  shows "m (sibling_of k 256) = None"
proof (rule ccontr)
  assume "m (sibling_of k 256) \<noteq> None"
  then have "sibling_of k 256 = k"
    using assms agree_sibling_of [of 255 256 k] by (auto simp: spread_def)
  then show False using not_agree_sibling_of [of 256 k] by simp
qed

lemma sibling_view:
  assumes tr: "tracks_from S blake3 cache ov m" and sp: "spread (insert k (dom m))"
    and e: "S < e" "e \<le> 256"
  shows "node_hash_from_overlay blake3 cache ov (sibling_of k e) e =
    node_at blake3 (leaf_of blake3 (m(k := v))) e (sibling_of k e)"
proof (cases "e = 256")
  case True
  have "sibling_of k 256 \<noteq> k" using not_agree_sibling_of [of 256 k] by auto
  then show ?thesis
    using True tracks_fromD(2) [OF tr] sibling_leaf_free [OF sp] by simp
next
  case False
  have "node_at blake3 (leaf_of blake3 m) e (sibling_of k e) =
      node_at blake3 (leaf_of blake3 (m(k := v))) e (sibling_of k e)"
    using not_agree_sibling_of [of e k] e by (intro node_at_upd_other) (auto dest: agree_sym)
  then show ?thesis using False e tracks_fromD(1) [OF tr] by simp
qed

text \<open>Staging one leaf down to a stop depth keeps the overlay tracking the updated map.\<close>

lemma stage_leaf_tracks:
  fixes v :: "bytes option"
  assumes tr: "tracks_from S blake3 cache ov m" and sp: "spread (insert k (dom m))" and S: "S < 256"
  defines "r \<equiv> stage_up blake3 cache k (rev [Suc S..<257]) (ov, change_leaf blake3 k v)"
  shows "tracks_from S blake3 cache (fst r) (m(k := v))"
    and "snd r = node_at blake3 (leaf_of blake3 (m(k := v))) S k"
    and "\<And>q e. e < S \<Longrightarrow>
      node_hash_from_overlay blake3 cache (fst r) q e = node_hash_from_overlay blake3 cache ov q e"
proof -
  let ?lf = "leaf_of blake3 (m(k := v))"
  have "change_leaf blake3 k v = node_at blake3 ?lf 256 k" by (simp add: leaf_of_def)
  with S have up: "snd r = node_at blake3 ?lf S k" "\<And>q e. e \<le> 256 \<Longrightarrow>
      node_hash_from_overlay blake3 cache (fst r) q e =
         (if S \<le> e \<and> e < 256 \<and> agree e k q then node_at blake3 ?lf e k
          else node_hash_from_overlay blake3 cache ov q e)"
    using stage_up_node_at [of S 256 blake3 cache ov k ?lf] sibling_view [OF tr sp]
    by (simp_all add: r_def)
  show "snd r = node_at blake3 ?lf S k" by (rule up)
  show "node_hash_from_overlay blake3 cache (fst r) q e = node_hash_from_overlay blake3 cache ov q e"
    if "e < S" for q e using that S by (simp add: up)
  have "node_at blake3 ?lf e k = node_at blake3 ?lf e q" if "e < 256" "agree e k q" for e q
    using that by (intro node_at_agree) simp_all
  moreover have "node_at blake3 (leaf_of blake3 m) e q = node_at blake3 ?lf e q"
    if "e < 256" "\<not> agree e k q" for e q
    using that by (intro node_at_upd_other) auto
  ultimately show "tracks_from S blake3 cache (fst r) (m(k := v))"
    using tr by (auto simp: tracks_from_def up)
qed

text \<open>A batch of leaf changes, in order, on the abstract map.\<close>

definition upd_leaves ::
  "(hash32 \<Rightarrow> bytes option) \<Rightarrow> (hash32 \<times> bytes option) list \<Rightarrow> hash32 \<Rightarrow> bytes option" where
  "upd_leaves m cs = fold (\<lambda>(k, v) m. m(k := v)) cs m"

lemma upd_leaves_simps [simp]:
  "upd_leaves m [] = m"
  "upd_leaves m ((k, v) # cs) = upd_leaves (m(k := v)) cs"
  "upd_leaves m (cs @ ds) = upd_leaves (upd_leaves m cs) ds"
  by (simp_all add: upd_leaves_def)

lemma upd_leaves_other: "h \<notin> fst ` set cs \<Longrightarrow> upd_leaves m cs h = m h"
  by (induction cs arbitrary: m) auto

lemma upd_leaves_cong: "m h = m' h \<Longrightarrow> upd_leaves m cs h = upd_leaves m' cs h"
proof (induction cs arbitrary: m m')
  case (Cons c cs)
  obtain k v where c: "c = (k, v)" by fastforce
  have "(m(k := v)) h = (m'(k := v)) h" using Cons.prems by simp
  then show ?case unfolding c upd_leaves_simps by (rule Cons.IH)
qed simp

lemma dom_upd_leaves: "dom (upd_leaves m cs) \<subseteq> dom m \<union> fst ` set cs"
  using upd_leaves_other [of _ cs m] by (metis UnI1 UnI2 domIff subsetI)

lemma upd_leaves_distinct:
  "distinct (map fst cs) \<Longrightarrow> upd_leaves m cs h = (case map_of cs h of Some v \<Rightarrow> v | None \<Rightarrow> m h)"
proof (induction cs arbitrary: m)
  case (Cons c cs)
  obtain k v where c: "c = (k, v)" by fastforce
  show ?case using Cons map_of_eq_None_iff [of cs k] by (auto simp: c split: option.splits)
qed simp

lemma spread_step:
  "spread (dom m \<union> fst ` set ((k, v) # cs)) \<Longrightarrow> spread (insert k (dom m))"
  "spread (dom m \<union> fst ` set ((k, v) # cs)) \<Longrightarrow> spread (dom (m(k := v)) \<union> fst ` set cs)"
  by (erule spread_mono, auto split: if_splits)+

lemma stage_leaf_node_update_up:
  "stage_leaf_node_update blake3 cache ov k h = fst (stage_up blake3 cache k (rev [Suc 0..<257]) (ov, h))"
  by (simp add: stage_leaf_node_update_def stage_node_update_from_depth_def)

lemma stage_changes_tracks:
  "tracks_from 0 blake3 cache ov m \<Longrightarrow> spread (dom m \<union> fst ` set cs) \<Longrightarrow>
     tracks_from 0 blake3 cache (stage_changes blake3 cache ov cs) (upd_leaves m cs)"
proof (induction cs arbitrary: ov m)
  case (Cons c cs)
  obtain k v where c: "c = (k, v)" by fastforce
  note sp = spread_step [OF Cons.prems(2) [unfolded c]]
  from Cons.IH [OF stage_leaf_tracks(1) [OF Cons.prems(1) sp(1)] sp(2)]
  show ?case by (simp add: c stage_leaf_node_update_up fun_upd_def)
qed simp

lemma stage_changes_invar:
  "hashmap_invar ov \<Longrightarrow> hashmap_invar (stage_changes blake3 cache ov cs)"
proof (induction cs arbitrary: ov)
  case (Cons c cs)
  then show ?case
    by (cases c) (simp add: stage_leaf_node_update_up hashmap_invar_stage_up del: upt_rec_numeral)
qed simp

section \<open>From the overlay to the cache\<close>

lemma apply_node_overlay_entries_lookup:
  "hashmap_invar ov \<Longrightarrow> apply_node_overlay_entries_to_cache cache ov key =
     (case map_of ov key of Some value \<Rightarrow> value | None \<Rightarrow> cache key)"
proof (induction ov arbitrary: cache)
  case (Cons c ov)
  obtain k v where c: "c = (k, v)" by fastforce
  have "hashmap_invar ov" "map_of ov k = None"
    using Cons.prems by (auto simp: c hashmap_invar_def map_of_eq_None_iff)
  then show ?case by (cases v) (simp_all add: c Cons.IH split: option.split)
qed simp

lemma view_apply_overlay:
  "hashmap_invar ov \<Longrightarrow>
     node_hash_from_overlay blake3 (apply_node_overlay_entries_to_cache cache ov) [] q e =
     node_hash_from_overlay blake3 cache ov q e"
  by (simp add: node_hash_from_overlay_def node_hash_from_cache_def apply_node_overlay_entries_lookup
      split: option.split)

lemma tracks_from_apply_overlay:
  "hashmap_invar ov \<Longrightarrow>
     tracks_from S blake3 (apply_node_overlay_entries_to_cache cache ov) [] m \<longleftrightarrow>
     tracks_from S blake3 cache ov m"
  by (simp add: tracks_from_def view_apply_overlay)

lemma tracks_from_empty: "tracks_from S blake3 Map.empty [] Map.empty"
  by (simp add: tracks_from_def node_hash_from_overlay_def node_hash_from_cache_def)
    (simp add: node_at_default)

lemma tracks_root:
  "tracks_from 0 blake3 cache ov m \<Longrightarrow> node_hash_from_overlay blake3 cache ov q 0 = spec_root blake3 m"
  by (simp add: tracks_fromD spec_root_at [of _ _ q])

lemma tracks_cache_root:
  "tracks_from 0 blake3 cache [] m \<Longrightarrow> node_hash_from_cache blake3 cache q 0 = spec_root blake3 m"
  using tracks_root [of blake3 cache "[]" m q] by (simp add: node_hash_from_overlay_def)

end
