(* ===== verification/Sparse_Merkle_Buckets.thy ===== *)
theory Sparse_Merkle_Buckets
  imports Sparse_Merkle_Update
begin

text \<open>
  The bucketed root computation of large batches: the changes are split by the first twelve bits of
  their keys, each bucket is staged over an overlay of its own down to depth 12, and the buckets'
  overlays are merged and hashed up to the root. The result tracks the same map as staging the
  changes one after the other.
\<close>

section \<open>The bucketed update\<close>

lemma top_bits_prefix:
  assumes "i < 2 ^ 12"
  shows "top_bits (prefix_from_top_bits i PARALLEL_BUCKET_DEPTH) PARALLEL_BUCKET_DEPTH = i"
proof -
  have "bit i n \<Longrightarrow> n < 12" for n
    using assms by (metis bit_take_bit_iff take_bit_nat_eq_self)
  then have "bit i n \<Longrightarrow> n - 4 < 8" for n by fastforce
  then show ?thesis
    by (intro bit_eqI) (auto simp: top_bits_def prefix_from_top_bits_def PARALLEL_BUCKET_DEPTH_def Let_def
        bit_simps)
qed

definition bucket_keys :: "hash32 \<Rightarrow> bytes set" where
  "bucket_keys p = {node_key k e |k e. 12 \<le> e \<and> e < 256 \<and> agree 12 k p}"

lemma stage_bucket_step:
  "stage_bucket blake3 cache ((k, v) # cs) (ov, r) =
     stage_bucket blake3 cache cs
       (stage_up blake3 cache k (rev [Suc 12..<257]) (ov, change_leaf blake3 k v))"
  by (simp add: stage_leaf_node_update_to_depth_def PARALLEL_BUCKET_DEPTH_def)

declare stage_bucket.simps(2) [simp del]

text \<open>Staging a bucket: its overlay tracks the updated map from depth 12 on.\<close>

lemma stage_bucket_tracks:
  assumes "tracks_from 12 blake3 cache ov m" "spread (dom m \<union> fst ` set cs)"
    and "\<And>k. k \<in> fst ` set cs \<Longrightarrow> agree 12 k p"
    and "cs = [] \<Longrightarrow> r = node_at blake3 (leaf_of blake3 m) 12 p"
    and "hashmap_invar ov" "dom (map_of ov) \<subseteq> bucket_keys p"
  shows "tracks_from 12 blake3 cache (fst (stage_bucket blake3 cache cs (ov, r))) (upd_leaves m cs)
    \<and> snd (stage_bucket blake3 cache cs (ov, r)) = node_at blake3 (leaf_of blake3 (upd_leaves m cs)) 12 p
    \<and> hashmap_invar (fst (stage_bucket blake3 cache cs (ov, r)))
    \<and> dom (map_of (fst (stage_bucket blake3 cache cs (ov, r)))) \<subseteq> bucket_keys p"
  using assms
proof (induction cs arbitrary: ov m r)
  case (Cons c cs)
  obtain k v where c: "c = (k, v)" by fastforce
  obtain ov' r' where up: "stage_up blake3 cache k (rev [Suc 12..<257]) (ov, change_leaf blake3 k v) = (ov', r')"
    by fastforce
  note sp = spread_step [OF Cons.prems(2) [unfolded c]]
  have "(12 :: nat) < 256" by simp
  note leaf = stage_leaf_tracks [OF Cons.prems(1) sp(1) this, where v = v, unfolded up fst_conv snd_conv]
  have agree: "agree 12 k p" using Cons.prems(3) by (simp add: c)
  have "r' = node_at blake3 (leaf_of blake3 (m(k := v))) 12 p"
    using leaf(2) node_at_agree [OF _ agree] by simp
  moreover have "tracks_from 12 blake3 cache ov' (m(k := v))" by (rule leaf(1))
  moreover have "hashmap_invar ov'"
    using hashmap_invar_stage_up [OF Cons.prems(5), of blake3 cache k "rev [Suc 12..<257]" "change_leaf blake3 k v"]
    unfolding up by simp
  moreover have "dom (map_of ov') \<subseteq> bucket_keys p"
  proof -
    have "dom (map_of (fst (stage_up blake3 cache k (rev [Suc 12..<257]) (ov, change_leaf blake3 k v))))
        \<subseteq> dom (map_of ov) \<union> {node_key k e |e. 12 \<le> e \<and> e < 256}"
      by (rule keys_stage_up) (unfold set_rev set_upt atLeastLessThan_iff, linarith)
    then have "dom (map_of ov') \<subseteq> dom (map_of ov) \<union> {node_key k e |e. 12 \<le> e \<and> e < 256}"
      unfolding up fst_conv .
    then show ?thesis using Cons.prems(6) agree unfolding bucket_keys_def by blast
  qed
  ultimately show ?case
    unfolding c stage_bucket_step up upd_leaves_simps
    using sp(2) Cons.prems(3) by (intro Cons.IH) (simp_all del: fun_upd_apply)
qed simp

lemma map_of_merge_overlay:
  "hashmap_invar bo \<Longrightarrow> map_of (fold (\<lambda>(k, v). AList.update k v) bo ov) = map_of ov ++ map_of bo"
  by (simp add: hashmap.lookup_extend hashmap_invar_def map_of_rev_distinct)

lemma view_merge_overlay:
  assumes "hashmap_invar bo"
  shows "node_hash_from_overlay blake3 cache (fold (\<lambda>(k, v). AList.update k v) bo ov) q e =
    (if node_key q e \<in> dom (map_of bo) then node_hash_from_overlay blake3 cache bo q e
     else node_hash_from_overlay blake3 cache ov q e)"
  by (auto simp: node_hash_from_overlay_def map_of_merge_overlay [OF assms] map_add_def split: option.splits)

lemma view_unstaged:
  "node_key q e \<notin> dom (map_of ov) \<Longrightarrow>
     node_hash_from_overlay blake3 cache ov q e = node_hash_from_overlay blake3 cache [] q e"
  by (simp add: node_hash_from_overlay_def domIff)

lemma node_key_bucket_keys:
  "node_key q e \<in> bucket_keys p \<Longrightarrow> e \<le> 256 \<Longrightarrow> 12 \<le> e \<and> e < 256 \<and> agree 12 q p"
  unfolding bucket_keys_def using node_key_eq_iff [of e _ q] agree_mono agree_sym agree_trans
  by (smt (verit, ccfv_threshold) less_imp_le_nat mem_Collect_eq)

lemma agree_below: "12 \<le> e \<Longrightarrow> agree e g q \<Longrightarrow> agree 12 g p \<longleftrightarrow> agree 12 q p"
  using agree_mono [of e g q 12] agree_sym agree_trans by blast

text \<open>
  Merging a bucket's overlay: \<open>m\<close> is the map behind the cache, \<open>m'\<close> the map with the earlier
  buckets applied, which agrees with \<open>m\<close> below this bucket's prefix.
\<close>

lemma merge_bucket_view:
  assumes bo: "tracks_from 12 blake3 cache bo (upd_leaves m cs)" "hashmap_invar bo"
      "dom (map_of bo) \<subseteq> bucket_keys p"
    and base: "tracks_from 0 blake3 cache [] m" and ov: "tracks_from 0 blake3 cache ov m'"
    and same: "\<And>g. agree 12 g p \<Longrightarrow> m' g = m g"
    and keys: "\<And>k. k \<in> fst ` set cs \<Longrightarrow> agree 12 k p"
  shows "tracks_from 12 blake3 cache (fold (\<lambda>(k, v). AList.update k v) bo ov) (upd_leaves m' cs)"
    and "e < 12 \<Longrightarrow> node_hash_from_overlay blake3 cache (fold (\<lambda>(k, v). AList.update k v) bo ov) q e =
      node_at blake3 (leaf_of blake3 m') e q"
proof -
  let ?ov = "fold (\<lambda>(k, v). AList.update k v) bo ov"
  have inside: "node_at blake3 (leaf_of blake3 (upd_leaves m' cs)) e q = node_at blake3 (leaf_of blake3 (upd_leaves m cs)) e q"
    "node_at blake3 (leaf_of blake3 m') e q = node_at blake3 (leaf_of blake3 m) e q"
    if "12 \<le> e" "e < 256" "agree 12 q p" for e q
    using that same agree_below by (intro node_at_upd_other; auto intro: upd_leaves_cong)+
  have outside: "node_at blake3 (leaf_of blake3 (upd_leaves m' cs)) e q = node_at blake3 (leaf_of blake3 m') e q"
    if "12 \<le> e" "e < 256" "\<not> agree 12 q p" for e q
  proof (rule node_at_upd_other)
    fix g assume "agree e g q"
    then have "g \<notin> fst ` set cs" using that keys agree_below [of e g q p] by blast
    then show "upd_leaves m' cs g = m' g" by (rule upd_leaves_other)
  qed (use that in simp)
  have "node_hash_from_overlay blake3 cache ?ov q e = node_at blake3 (leaf_of blake3 (upd_leaves m' cs)) e q"
    if e: "12 \<le> e" "e < 256" for q e
  proof (cases "node_key q e \<in> dom (map_of bo)")
    case True
    then have "agree 12 q p" using node_key_bucket_keys bo(3) e by fastforce
    then show ?thesis using True e tracks_fromD(1) [OF bo(1)] inside by (simp add: view_merge_overlay bo(2))
  next
    case False
    have "node_at blake3 (leaf_of blake3 m') e q = node_at blake3 (leaf_of blake3 (upd_leaves m' cs)) e q"
    proof (cases "agree 12 q p")
      case True
      then show ?thesis
        using view_unstaged [OF False, of blake3 cache] tracks_fromD(1) [OF bo(1) e, of q]
          tracks_fromD(1) [OF base _ e(2), of q] inside [OF e] by simp
    qed (simp add: outside e)
    then show ?thesis using False e tracks_fromD(1) [OF ov] by (simp add: view_merge_overlay bo(2))
  qed
  moreover have "node_hash_from_overlay blake3 cache ?ov q 256 = DEFAULT_HASHES blake3 ! 256" for q
    using tracks_fromD(2) [OF bo(1)] tracks_fromD(2) [OF ov] by (simp add: view_merge_overlay bo(2))
  ultimately show "tracks_from 12 blake3 cache ?ov (upd_leaves m' cs)" by (simp add: tracks_from_def)
  show "node_hash_from_overlay blake3 cache ?ov q e = node_at blake3 (leaf_of blake3 m') e q" if "e < 12"
    using that node_key_bucket_keys [of q e p] bo(2,3) tracks_fromD(1) [OF ov, of e q]
    by (auto simp: view_merge_overlay)
qed

lemma tracks_from_mono: "tracks_from S blake3 cache ov m \<Longrightarrow> S \<le> T \<Longrightarrow> tracks_from T blake3 cache ov m"
  by (simp add: tracks_from_def)

lemma tracks_stage_node:
  assumes "tracks_from S blake3 cache ov m" "S \<le> d" "d < 256"
  shows "tracks_from S blake3 cache (stage_node blake3 ov p d (node_at blake3 (leaf_of blake3 m) d p)) m"
proof -
  have "node_at blake3 (leaf_of blake3 m) d p = node_at blake3 (leaf_of blake3 m) d q" if "agree d p q" for q
    using that assms by (intro node_at_agree) simp_all
  then show ?thesis using assms by (auto simp: tracks_from_def view_stage_node)
qed

lemma node_key_in_bucket_keys: "node_key p 12 \<in> bucket_keys p"
  unfolding bucket_keys_def mem_Collect_eq by (rule exI [of _ p], rule exI [of _ 12]) simp

text \<open>A bucket's result, and how it is merged into the overlay of the earlier buckets.\<close>

lemma bucket_result_tracks:
  assumes base: "tracks_from 0 blake3 cache [] m" and sp: "spread (dom m \<union> fst ` set cs)"
    and cs: "cs \<noteq> []" "\<And>k. k \<in> fst ` set cs \<Longrightarrow> top_bits k PARALLEL_BUCKET_DEPTH = i"
    and i: "i < 2 ^ 12"
  obtains p bo where "bucket_result blake3 cache i cs = (p, node_at blake3 (leaf_of blake3 (upd_leaves m cs)) 12 p, bo)"
    and "tracks_from 12 blake3 cache bo (upd_leaves m cs)" "hashmap_invar bo" "dom (map_of bo) \<subseteq> bucket_keys p"
    and "top_bits p PARALLEL_BUCKET_DEPTH = i"
proof -
  define p where "p = prefix_from_top_bits i PARALLEL_BUCKET_DEPTH"
  obtain ov r where st: "stage_bucket blake3 cache cs ([], DEFAULT_HASHES blake3 ! 12) = (ov, r)" by fastforce
  have p: "top_bits p PARALLEL_BUCKET_DEPTH = i" unfolding p_def by (rule top_bits_prefix [OF i])
  then have "\<And>k. k \<in> fst ` set cs \<Longrightarrow> agree 12 k p" using cs(2) by (simp flip: bucket_no_eq_iff)
  then have bucket: "tracks_from 12 blake3 cache ov (upd_leaves m cs)" "r = node_at blake3 (leaf_of blake3 (upd_leaves m cs)) 12 p"
      "hashmap_invar ov" "dom (map_of ov) \<subseteq> bucket_keys p"
    using stage_bucket_tracks [of blake3 cache "[]" m cs p "DEFAULT_HASHES blake3 ! 12"] base sp cs(1)
    by (simp_all add: st hashmap_invar_def tracks_from_mono)
  show thesis
  proof (rule that)
    show "bucket_result blake3 cache i cs =
        (p, node_at blake3 (leaf_of blake3 (upd_leaves m cs)) 12 p, stage_node blake3 ov p 12 r)"
      using st by (simp add: bucket_result_def PARALLEL_BUCKET_DEPTH_def p_def bucket(2) Let_def)
    show "tracks_from 12 blake3 cache (stage_node blake3 ov p 12 r) (upd_leaves m cs)"
      using bucket by (simp add: tracks_stage_node)
    show "dom (map_of (stage_node blake3 ov p 12 r)) \<subseteq> bucket_keys p"
      using bucket(4) by (simp add: map_of_stage_node node_key_in_bucket_keys)
  qed (simp_all add: p bucket(3) hashmap_invar_stage_node)
qed

lemma merge_bucket_tracks:
  assumes bo: "tracks_from 12 blake3 cache bo (upd_leaves m cs)" "hashmap_invar bo"
      "dom (map_of bo) \<subseteq> bucket_keys p"
    and base: "tracks_from 0 blake3 cache [] m" and ov: "tracks_from 0 blake3 cache ov m'"
    and same: "\<And>g. agree 12 g p \<Longrightarrow> m' g = m g"
    and keys: "\<And>k. k \<in> fst ` set cs \<Longrightarrow> agree 12 k p"
  shows "tracks_from 0 blake3 cache
    (stage_node_update_from_depth blake3 cache (fold (\<lambda>(k, v). AList.update k v) bo ov) p 12
       (node_at blake3 (leaf_of blake3 (upd_leaves m cs)) 12 p)) (upd_leaves m' cs)"
proof -
  let ?ov = "fold (\<lambda>(k, v). AList.update k v) bo ov" and ?lf = "leaf_of blake3 (upd_leaves m' cs)"
  note merged = merge_bucket_view [OF assms]
  have root: "node_at blake3 (leaf_of blake3 (upd_leaves m cs)) 12 p = node_at blake3 ?lf 12 p"
    using same by (intro node_at_upd_other) (auto intro: upd_leaves_cong)
  have other: "node_at blake3 (leaf_of blake3 m') e q = node_at blake3 ?lf e q"
    if "e \<le> 12" "\<not> agree e p q" for e q
  proof (rule node_at_upd_other)
    fix g assume "agree e g q"
    then have "\<not> agree 12 g p"
      using that agree_mono [of 12 g p e] agree_trans [OF agree_sym [of e g p], of q] by blast
    then have "g \<notin> fst ` set cs" using keys by blast
    then show "m' g = upd_leaves m' cs g" by (simp add: upd_leaves_other)
  qed (use that in simp)
  have sib: "node_hash_from_overlay blake3 cache ?ov (sibling_of p e) e = node_at blake3 ?lf e (sibling_of p e)"
    if "0 < e" "e \<le> 12" for e
  proof (cases "e = 12")
    case False
    have "\<not> agree e p (sibling_of p e)"
      using that not_agree_sibling_of [of e p] agree_sym [of e p "sibling_of p e"] by auto
    then show ?thesis using False that merged(2) other by simp
  qed (simp add: tracks_fromD(1) [OF merged(1)])
  define r where "r = fst (stage_up blake3 cache p (rev [Suc 0..<Suc 12]) (?ov, node_at blake3 ?lf 12 p))"
  have up: "node_hash_from_overlay blake3 cache r q e =
      (if e < 12 \<and> agree e p q then node_at blake3 ?lf e p else node_hash_from_overlay blake3 cache ?ov q e)"
    if "e \<le> 256" for q e
    unfolding r_def using stage_up_node_at [of 0 12 blake3 cache ?ov p ?lf, OF _ _ sib] that
    by (simp del: upt_Suc)
  have "node_at blake3 ?lf e p = node_at blake3 ?lf e q" if "e < 12" "agree e p q" for e q
    using that by (intro node_at_agree) simp_all
  moreover have "node_hash_from_overlay blake3 cache ?ov q e = node_at blake3 ?lf e q"
    if "e < 256" "\<not> (e < 12 \<and> agree e p q)" for e q
    using that merged(2) tracks_fromD(1) [OF merged(1)] other by (cases "e < 12") simp_all
  ultimately have "tracks_from 0 blake3 cache r (upd_leaves m' cs)"
    unfolding tracks_from_def using tracks_fromD(2) [OF merged(1)] by (simp add: up)
  then show ?thesis by (simp add: stage_node_update_from_depth_def root r_def)
qed

lemma merge_buckets_tracks:
  assumes base: "tracks_from 0 blake3 cache [] m" and ov: "tracks_from 0 blake3 cache ov m'"
    and "distinct (map fst ibs)"
    and "\<And>i b. (i, b) \<in> set ibs \<Longrightarrow> b \<noteq> [] \<and> i < 2 ^ 12 \<and>
      (\<forall>k \<in> fst ` set b. top_bits k PARALLEL_BUCKET_DEPTH = i)"
    and "\<And>g. top_bits g PARALLEL_BUCKET_DEPTH \<in> fst ` set ibs \<Longrightarrow> m' g = m g"
    and "\<And>i b. (i, b) \<in> set ibs \<Longrightarrow> spread (dom m \<union> fst ` set b)"
  shows "tracks_from 0 blake3 cache
    (merge_buckets blake3 cache ov (map (\<lambda>(i, b). bucket_result blake3 cache i b) ibs))
    (upd_leaves m' (concat (map snd ibs)))"
  using assms(2-)
proof (induction ibs arbitrary: ov m')
  case (Cons ib ibs)
  obtain i cs where ib: "ib = (i, cs)" by fastforce
  have cs: "cs \<noteq> []" "i < 2 ^ 12" "\<And>k. k \<in> fst ` set cs \<Longrightarrow> top_bits k PARALLEL_BUCKET_DEPTH = i"
    using Cons.prems(3) [of i cs] by (auto simp: ib)
  obtain p bo where bo:
    "bucket_result blake3 cache i cs = (p, node_at blake3 (leaf_of blake3 (upd_leaves m cs)) 12 p, bo)"
    "tracks_from 12 blake3 cache bo (upd_leaves m cs)" "hashmap_invar bo" "dom (map_of bo) \<subseteq> bucket_keys p"
    "top_bits p PARALLEL_BUCKET_DEPTH = i"
    using bucket_result_tracks [OF base Cons.prems(5) cs(1,3,2)] by (auto simp: ib)
  have "m' g = m g" if "agree 12 g p" for g
    using that Cons.prems(4) [of g] bo(5) by (simp add: ib flip: bucket_no_eq_iff)
  moreover have "agree 12 k p" if "k \<in> fst ` set cs" for k
    using cs(3) [OF that] bo(5) by (simp flip: bucket_no_eq_iff)
  ultimately have tr: "tracks_from 0 blake3 cache
    (stage_node_update_from_depth blake3 cache (fold (\<lambda>(k, v). AList.update k v) bo ov) p 12
       (node_at blake3 (leaf_of blake3 (upd_leaves m cs)) 12 p)) (upd_leaves m' cs)"
    using merge_bucket_tracks [OF bo(2,3,4) base Cons.prems(1)] by blast
  have "upd_leaves m' cs g = m g" if "top_bits g PARALLEL_BUCKET_DEPTH \<in> fst ` set ibs" for g
  proof -
    have "top_bits g PARALLEL_BUCKET_DEPTH \<noteq> i" using that Cons.prems(2) by (auto simp: ib)
    then have "upd_leaves m' cs g = m' g" using cs(3) by (auto intro!: upd_leaves_other)
    then show ?thesis using Cons.prems(4) [of g] that by (simp add: ib)
  qed
  then have "tracks_from 0 blake3 cache
      (merge_buckets blake3 cache
         (stage_node_update_from_depth blake3 cache (fold (\<lambda>(k, v). AList.update k v) bo ov) p 12
           (node_at blake3 (leaf_of blake3 (upd_leaves m cs)) 12 p))
         (map (\<lambda>(i, b). bucket_result blake3 cache i b) ibs))
      (upd_leaves (upd_leaves m' cs) (concat (map snd ibs)))"
    using Cons.prems(2) Cons.prems(3,5) [OF list.set_intros(2)]
    by (intro Cons.IH tr) (simp_all)
  then show ?case by (simp add: ib bo(1) PARALLEL_BUCKET_DEPTH_def)
qed simp

lemma upd_leaves_filter: "upd_leaves m cs h = upd_leaves m (filter (\<lambda>(k, _). k = h) cs) h"
proof (induction cs rule: rev_induct)
  case (snoc c cs)
  then show ?case by (cases c) auto
qed simp

lemma concat_buckets_upd:
  assumes "\<And>k. k \<in> fst ` set cs \<Longrightarrow> f k < n"
  shows "upd_leaves m (concat (map (\<lambda>i. filter (\<lambda>(k, _). f k = i) cs) [0..<n])) = upd_leaves m cs"
proof
  fix h
  have "filter (\<lambda>(k, _). k = h) (filter (\<lambda>(k, _). f k = i) cs) =
      (if i = f h then filter (\<lambda>(k, _). k = h) cs else [])" for i
    by (auto simp: filter_empty_conv intro: filter_cong)
  moreover have "concat (map (\<lambda>i. if i = t then xs else []) [0..<n]) = (if t < n then xs else [])"
    for t and xs :: "(hash32 \<times> bytes option) list" and n
    by (induction n) auto
  ultimately have "filter (\<lambda>(k, _). k = h) (concat (map (\<lambda>i. filter (\<lambda>(k, _). f k = i) cs) [0..<n])) =
      (if f h < n then filter (\<lambda>(k, _). k = h) cs else [])"
    by (simp add: filter_concat comp_def)
  moreover have "filter (\<lambda>(k, _). k = h) cs = []" if "\<not> f h < n"
    using that assms by (force simp: filter_empty_conv)
  ultimately show "upd_leaves m (concat (map (\<lambda>i. filter (\<lambda>(k, _). f k = i) cs) [0..<n])) h = upd_leaves m cs h"
    using upd_leaves_filter [of m _ h] by (metis (no_types, lifting))
qed

lemma merge_buckets_invar:
  "hashmap_invar ov \<Longrightarrow> hashmap_invar (merge_buckets blake3 cache ov bs)"
proof (induction bs arbitrary: ov)
  case (Cons b bs)
  obtain p r bo where b: "b = (p, r, bo)" by (metis prod_cases3)
  have "hashmap_invar (fold (\<lambda>(k, v). AList.update k v) bo ov)"
    by (rule hashmap.invar_extend [OF Cons.prems])
  then have "hashmap_invar (stage_node_update_from_depth blake3 cache
      (fold (\<lambda>(k, v). AList.update k v) bo ov) p PARALLEL_BUCKET_DEPTH r)"
    by (simp add: stage_node_update_from_depth_def hashmap_invar_stage_node hashmap_invar_stage_up del: upt_Suc)
  then show ?case unfolding b merge_buckets.simps by (rule Cons.IH)
qed simp

lemma root_hash_with_sorted_changes_parallel_spec:
  assumes base: "tracks_from 0 blake3 cache [] m" and sp: "spread (dom m \<union> fst ` set changes)"
  shows "\<exists>ov. root_hash_with_sorted_changes_parallel blake3 cache changes =
      (spec_root blake3 (upd_leaves m changes), ov)
    \<and> tracks_from 0 blake3 cache ov (upd_leaves m changes) \<and> hashmap_invar ov"
proof -
  define buckets where "buckets = map (\<lambda>i. filter (\<lambda>(k, _). top_bits k PARALLEL_BUCKET_DEPTH = i) changes)
                      [0..<2 ^ PARALLEL_BUCKET_DEPTH]"
  define ibs where "ibs = filter (\<lambda>(_, bucket). bucket \<noteq> []) (enumerate 0 buckets)"
  define ov where "ov = merge_buckets blake3 cache [] (map (\<lambda>(i, bucket). bucket_result blake3 cache i bucket) ibs)"
  have mem: "i < 2 ^ 12 \<and> b = filter (\<lambda>(k, _). top_bits k PARALLEL_BUCKET_DEPTH = i) changes \<and> b \<noteq> []"
    if "(i, b) \<in> set ibs" for i b
    using that by (auto simp: ibs_def buckets_def in_set_enumerate_eq PARALLEL_BUCKET_DEPTH_def)
  have "tracks_from 0 blake3 cache ov (upd_leaves m (concat (map snd ibs)))"
    unfolding ov_def
  proof (rule merge_buckets_tracks [OF base base])
    show "distinct (map fst ibs)"
      by (auto simp: ibs_def distinct_map_filter)
    show "spread (dom m \<union> fst ` set b)" if "(i, b) \<in> set ibs" for i b
      using mem [OF that] by (intro spread_mono [OF sp]) auto
  qed (use mem in fastforce)+
  moreover have "concat (map snd ibs) = concat buckets"
  proof -
    have "map snd ibs = filter (\<lambda>b. b \<noteq> []) buckets"
      using filter_map [of "\<lambda>b. b \<noteq> []" snd "enumerate 0 buckets"]
      by (simp add: ibs_def comp_def case_prod_unfold)
    moreover have "concat (filter (\<lambda>b. b \<noteq> []) bs) = concat bs" for bs :: "'b list list"
      by (induction bs) auto
    ultimately show ?thesis by simp
  qed
  moreover have "upd_leaves m (concat buckets) = upd_leaves m changes"
    unfolding buckets_def by (rule concat_buckets_upd) (metis PARALLEL_BUCKET_DEPTH_def top_bits_less)
  ultimately have tr: "tracks_from 0 blake3 cache ov (upd_leaves m changes)" by simp
  moreover have "hashmap_invar ov" unfolding ov_def by (rule merge_buckets_invar) simp
  ultimately show ?thesis
    by (intro exI [of _ ov]) (simp add: root_hash_with_sorted_changes_parallel_def Let_def tracks_root
        flip: buckets_def ibs_def ov_def)
qed

end
