(* ===== verification/Sparse_Merkle_Store.thy ===== *)
theory Sparse_Merkle_Store
  imports Sparse_Merkle_Buckets
begin

text \<open>
  The tree over its database. RocksDB is a parameter; \<open>rocksdb_laws\<close> states what the code relies
  on: a read or an iteration that succeeds returns the stored bindings, and a write that succeeds
  applies its whole batch in order. Any call may fail. \<open>smt_inv\<close> ties the database, the stored root
  and the node cache to one abstract map, and every operation of the tree keeps it.
\<close>

section \<open>What the code relies on of the database\<close>

primrec apply_op :: "batch_op \<Rightarrow> (bytes \<Rightarrow> bytes option) \<Rightarrow> bytes \<Rightarrow> bytes option" where
  "apply_op (BatchPut k v) m = m(k := Some v)"
| "apply_op (BatchDelete k) m = m(k := None)"

definition rocksdb_laws :: "'d rocksdb \<Rightarrow> ('d \<Rightarrow> bytes \<Rightarrow> bytes option) \<Rightarrow> bool" where
  "rocksdb_laws ops view \<longleftrightarrow>
     (\<forall>d k v. db_get ops d k = Inr v \<longrightarrow> v = view d k) \<and>
     (\<forall>d batch d'. db_write ops d batch = Inr d' \<longrightarrow> view d' = fold apply_op batch (view d)) \<and>
     (\<forall>d items. db_iterator ops d = map Inr items \<longrightarrow>
        distinct (map fst items) \<and> map_of items = view d)"

lemma rocksdb_lawsD:
  assumes "rocksdb_laws ops view"
  shows "db_get ops d k = Inr v \<Longrightarrow> v = view d k"
    and "db_write ops d batch = Inr d' \<Longrightarrow> view d' = fold apply_op batch (view d)"
    and "db_iterator ops d = map Inr items \<Longrightarrow> distinct (map fst items)"
    and "db_iterator ops d = map Inr items \<Longrightarrow> map_of items = view d"
  using assms by (auto simp: rocksdb_laws_def)

text \<open>An in-memory store that never fails satisfies the laws.\<close>

definition mem_ops :: "(bytes \<times> bytes) list rocksdb" where
  "mem_ops = \<lparr>
     db_get = (\<lambda>d k. Inr (map_of d k)),
     db_write = (\<lambda>d batch. Inr (fold (\<lambda>op d. case op of BatchPut k v \<Rightarrow> AList.update k v d
                                                  | BatchDelete k \<Rightarrow> AList.delete k d) batch d)),
     db_iterator = (\<lambda>d. map Inr (AList.clearjunk d))\<rparr>"

lemma mem_ops_write:
  "map_of (fold (\<lambda>op d. case op of BatchPut k v \<Rightarrow> AList.update k v d
                        | BatchDelete k \<Rightarrow> AList.delete k d) batch d) = fold apply_op batch (map_of d)"
proof (induction batch arbitrary: d)
  case (Cons op batch)
  then show ?case by (cases op) (simp_all add: update_conv' delete_conv' fun_upd_def)
qed simp

lemma mem_ops_laws: "rocksdb_laws mem_ops map_of"
  by (auto simp: rocksdb_laws_def mem_ops_def mem_ops_write inj_map_eq_map distinct_clearjunk map_of_clearjunk)

section \<open>Keys of the database\<close>

lemma data_key_inject [simp]: "data_key g = data_key h \<longleftrightarrow> g = h"
  by (auto simp: data_key_def intro: hash32_eqI)

lemma data_key_other [simp]:
  "data_key h \<noteq> ROOT_NODE_KEY" "data_key h \<noteq> NODE_INDEX_VERSION_KEY"
  "ROOT_NODE_KEY \<noteq> data_key h" "NODE_INDEX_VERSION_KEY \<noteq> data_key h"
  "ROOT_NODE_KEY \<noteq> NODE_INDEX_VERSION_KEY" "NODE_INDEX_VERSION_KEY \<noteq> ROOT_NODE_KEY"
  by (simp_all add: data_key_def ROOT_NODE_KEY_def NODE_INDEX_VERSION_KEY_def)

lemma starts_with_data [simp]:
  "starts_with (data_key h) [100, 58]" "\<not> starts_with (data_key h) [110, 58]"
  by (simp_all add: starts_with_def data_key_def)

definition leaves :: "(bytes \<Rightarrow> bytes option) \<Rightarrow> hash32 \<Rightarrow> bytes option" where
  "leaves db h = db (data_key h)"

primrec leaf_op :: "hash32 \<times> bytes option \<Rightarrow> batch_op" where
  "leaf_op (k, vo) = (case vo of Some v \<Rightarrow> BatchPut (data_key k) v | None \<Rightarrow> BatchDelete (data_key k))"

lemma apply_leaf_op:
  "leaves (apply_op (leaf_op (k, vo)) db) = (leaves db)(k := vo)"
  "apply_op (leaf_op (k, vo)) db ROOT_NODE_KEY = db ROOT_NODE_KEY"
  by (auto simp: leaves_def fun_eq_iff split: option.splits)

lemma leaves_fold_leaf_op:
  "leaves (fold apply_op (map leaf_op cs) db) = upd_leaves (leaves db) cs"
proof (induction cs arbitrary: db)
  case (Cons c cs)
  then show ?case by (cases c) (simp add: apply_leaf_op del: leaf_op.simps fun_upd_apply)
qed simp

lemma write_leaf_batch:
  assumes "rocksdb_laws ops view"
    and "db_write ops d (map leaf_op cs
           @ [BatchPut ROOT_NODE_KEY (hbytes r), BatchDelete NODE_INDEX_VERSION_KEY]) = Inr d'"
  shows "leaves (view d') = upd_leaves (leaves (view d)) cs" "view d' ROOT_NODE_KEY = Some (hbytes r)"
  using rocksdb_lawsD(2) [OF assms] leaves_fold_leaf_op [of cs "view d"]
  by (simp_all add: leaves_def fun_eq_iff)

lemma upd_leaves_last:
  "upd_leaves m cs h = (case map_of (rev cs) h of Some v \<Rightarrow> v | None \<Rightarrow> m h)"
  by (induction cs arbitrary: m) (auto simp: map_add_def split: option.splits)

lemma data_entry_iff: "data_entry (key, value) = Some (h, v) \<longleftrightarrow> key = data_key h \<and> value = v"
proof
  assume "data_entry (key, value) = Some (h, v)"
  then have *: "starts_with key [100, 58]" "length (drop 2 key) = 32" "h = Hash32 (drop 2 key)" "v = value"
    by (auto simp: data_entry_def split: if_splits)
  then have "key = [100, 58] @ drop 2 key"
    by (metis append_take_drop_id starts_with_def length_Cons list.size(3) Suc_1 One_nat_def)
  then show "key = data_key h \<and> value = v" using * by (metis data_key_def hbytes_Hash32)
qed (simp add: data_entry_def starts_with_def data_key_def)

lemma map_of_eqI_mem:
  assumes "\<And>k v. (k, v) \<in> set xs \<longleftrightarrow> f k = Some v"
  shows "map_of xs = f"
proof
  fix k
  show "map_of xs k = f k"
  proof (cases "f k")
    case None
    then have "k \<notin> fst ` set xs" using assms by fastforce
    then show ?thesis using None by (simp add: map_of_eq_None_iff)
  next
    case (Some v)
    then obtain w where "map_of xs k = Some w" using assms by (metis weak_map_of_SomeI)
    then show ?thesis using Some assms map_of_SomeD by force
  qed
qed

lemma persisted_data_entries_spec:
  assumes "rocksdb_laws ops view" "persisted_data_entries ops d = Inr entries"
  shows "map_of entries = leaves (view d)" "btree_invar entries"
proof -
  obtain items where it: "db_iterator ops d = map Inr items"
    and entries: "entries = fold (\<lambda>(k, v). btree_insert k v) (List.map_filter data_entry items) []"
    using assms(2) by (auto simp: persisted_data_entries_def try_collect_Inr_iff split: sum.splits)
  have dist: "distinct (map fst items)" "map_of items = view d"
    using rocksdb_lawsD(3,4) [OF assms(1) it] by auto
  have "(h, v) \<in> set (List.map_filter data_entry items) \<longleftrightarrow> leaves (view d) h = Some v" for h v
  proof -
    have "(h, v) \<in> set (List.map_filter data_entry items) \<longleftrightarrow> (\<exists>kv \<in> set items. data_entry kv = Some (h, v))"
      by (force simp: List.map_filter_def)
    also have "\<dots> \<longleftrightarrow> (data_key h, v) \<in> set items"
      by (auto simp: data_entry_iff intro!: bexI [of _ "(data_key h, v)"])
    also have "\<dots> \<longleftrightarrow> leaves (view d) h = Some v"
      using dist by (simp add: leaves_def flip: dist(2))
    finally show ?thesis .
  qed
  then have "map_of (rev (List.map_filter data_entry items)) = leaves (view d)"
    by (intro map_of_eqI_mem) simp
  then show "map_of entries = leaves (view d)"
    by (simp add: entries btree.lookup_extend)
  show "btree_invar entries"
    unfolding entries by (rule btree.invar_extend) (simp add: btree_invar_def)
qed

section \<open>The invariant\<close>

definition stored_root_ok :: "blake3_fn \<Rightarrow> (bytes \<Rightarrow> bytes option) \<Rightarrow> bool" where
  "stored_root_ok blake3 db \<longleftrightarrow>
     (db ROOT_NODE_KEY = None \<and> leaves db = Map.empty) \<or>
     db ROOT_NODE_KEY = Some (hbytes (spec_root blake3 (leaves db)))"

definition smt_inv :: "blake3_fn \<Rightarrow> ('d \<Rightarrow> bytes \<Rightarrow> bytes option) \<Rightarrow> 'd smt \<Rightarrow> bool" where
  "smt_inv blake3 view t \<longleftrightarrow>
     spread (dom (leaves (view (smt_db t)))) \<and>
     stored_root_ok blake3 (view (smt_db t)) \<and>
     (smt_cache_ready t \<longrightarrow> tracks_from 0 blake3 (smt_cache t) [] (leaves (view (smt_db t))))"

lemma smt_inv_new:
  "spread (dom (leaves (view d))) \<Longrightarrow> stored_root_ok blake3 (view d) \<Longrightarrow> smt_inv blake3 view (smt_new d)"
  by (simp add: smt_inv_def smt_new_def)

lemma smt_inv_cache:
  "smt_inv blake3 view t \<Longrightarrow> tracks_from 0 blake3 cache [] (leaves (view (smt_db t))) \<Longrightarrow>
     smt_inv blake3 view (t\<lparr>smt_cache := cache, smt_cache_ready := True\<rparr>)"
  by (simp add: smt_inv_def)

lemma upd_leaves_entries:
  assumes "btree_invar entries"
  shows "upd_leaves Map.empty (map (\<lambda>(k, v). (k, Some v)) entries) = map_of entries"
proof
  fix h
  have "distinct (map fst (map (\<lambda>(k, v). (k, Some v)) entries))"
    using btree_invar_distinct [OF assms] by (simp add: comp_def case_prod_unfold)
  moreover have "map_of (map (\<lambda>(k, v). (k, Some v)) entries) h = map_option Some (map_of entries h)"
    by (induction entries) auto
  ultimately show "upd_leaves Map.empty (map (\<lambda>(k, v). (k, Some v)) entries) h = map_of entries h"
    by (simp add: upd_leaves_distinct split: option.splits)
qed

lemma rebuilt_cache_tracks:
  assumes "rocksdb_laws ops view" "persisted_data_entries ops d = Inr entries" "spread (dom (leaves (view d)))"
  shows "tracks_from 0 blake3
    (apply_node_overlay_entries_to_cache Map.empty
       (stage_changes blake3 Map.empty [] (map (\<lambda>(k, v). (k, Some v)) entries))) [] (leaves (view d))"
proof -
  note entries = persisted_data_entries_spec [OF assms(1,2)]
  let ?cs = "map (\<lambda>(k, v). (k, Some v)) entries"
  have "fst ` set ?cs = dom (leaves (view d))"
    by (simp add: image_image case_prod_unfold dom_map_of_conv_image_fst flip: entries(1))
  then have "tracks_from 0 blake3 Map.empty (stage_changes blake3 Map.empty [] ?cs) (upd_leaves Map.empty ?cs)"
    using assms(3) by (intro stage_changes_tracks tracks_from_empty) simp
  then have "tracks_from 0 blake3 Map.empty (stage_changes blake3 Map.empty [] ?cs) (leaves (view d))"
    by (simp only: upd_leaves_entries [OF entries(2)] entries(1))
  then show ?thesis
    by (simp add: tracks_from_apply_overlay stage_changes_invar)
qed

lemma fold_delete_other:
  "key \<notin> set keys \<Longrightarrow> fold apply_op (map BatchDelete keys) db key = db key"
  by (induction keys arbitrary: db) auto

text \<open>Purging the legacy node index touches neither a leaf nor the stored root.\<close>

lemma purge_keeps:
  assumes laws: "rocksdb_laws ops view" and p: "purge_legacy_persisted_node_index ops t = (r, t')"
  shows "leaves (view (smt_db t')) = leaves (view (smt_db t))"
    and "view (smt_db t') ROOT_NODE_KEY = view (smt_db t) ROOT_NODE_KEY"
    and "smt_cache t' = smt_cache t" "smt_cache_ready t' = smt_cache_ready t"
proof -
  have "t' = t \<or> (\<exists>keys d. (\<forall>h. data_key h \<notin> set keys) \<and> ROOT_NODE_KEY \<notin> set keys
      \<and> db_write ops (smt_db t) (map BatchDelete keys @ [BatchDelete NODE_INDEX_VERSION_KEY]) = Inr d
      \<and> t' = t\<lparr>smt_db := d\<rparr>)"
  proof (cases "t' = t")
    case False
    then obtain ks d where "t' = t\<lparr>smt_db := d\<rparr>"
      "db_write ops (smt_db t) (map BatchDelete
         (filter (\<lambda>k. starts_with k [110, 58] \<and> k \<noteq> ROOT_NODE_KEY) ks)
       @ [BatchDelete NODE_INDEX_VERSION_KEY]) = Inr d"
      using p by (auto simp: purge_legacy_persisted_node_index_def Let_def split: sum.splits option.splits)
    then show ?thesis
      by (intro disjI2 exI conjI) auto
  qed simp
  then show "leaves (view (smt_db t')) = leaves (view (smt_db t))"
    "view (smt_db t') ROOT_NODE_KEY = view (smt_db t) ROOT_NODE_KEY"
    "smt_cache t' = smt_cache t" "smt_cache_ready t' = smt_cache_ready t"
    using rocksdb_lawsD(2) [OF laws]
    by (auto simp: leaves_def fun_eq_iff fold_delete_other)
qed

lemma smt_inv_keeps:
  assumes "smt_inv blake3 view t" "leaves (view (smt_db t')) = leaves (view (smt_db t))"
    "view (smt_db t') ROOT_NODE_KEY = view (smt_db t) ROOT_NODE_KEY"
    "smt_cache t' = smt_cache t" "smt_cache_ready t' = smt_cache_ready t"
  shows "smt_inv blake3 view t'"
  using assms by (simp add: smt_inv_def stored_root_ok_def)

lemma ensure_node_index_inv:
  assumes laws: "rocksdb_laws ops view" and inv: "smt_inv blake3 view t"
    and e: "ensure_node_index blake3 ops t = (r, t')"
  shows "smt_inv blake3 view t'" "leaves (view (smt_db t')) = leaves (view (smt_db t))"
    "r = Inr u \<Longrightarrow> smt_cache_ready t'"
proof -
  have "smt_inv blake3 view t' \<and> leaves (view (smt_db t')) = leaves (view (smt_db t)) \<and>
      (r = Inr u \<longrightarrow> smt_cache_ready t')"
  proof (cases "smt_cache_ready t")
    case True
    then show ?thesis using e inv by (auto simp: ensure_node_index_def)
  next
    case notready: False
    show ?thesis
    proof (cases "persisted_data_entries ops (smt_db t)")
      case (Inl x)
      then show ?thesis
        using e inv notready by (auto simp: ensure_node_index_def rebuild_node_cache_from_persisted_data_def)
    next
      case (Inr entries)
      define c where "c = apply_node_overlay_entries_to_cache Map.empty
        (stage_changes blake3 Map.empty [] (map (\<lambda>(k, v). (k, Some v)) entries))"
      have "tracks_from 0 blake3 c [] (leaves (view (smt_db t)))"
        unfolding c_def using rebuilt_cache_tracks [OF laws Inr] inv by (simp add: smt_inv_def)
      then have "smt_inv blake3 view (t\<lparr>smt_cache := c, smt_cache_ready := True\<rparr>)"
        by (rule smt_inv_cache [OF inv])
      moreover have "purge_legacy_persisted_node_index ops (t\<lparr>smt_cache := c, smt_cache_ready := True\<rparr>) = (r, t')"
        using e notready by (simp add: ensure_node_index_def rebuild_node_cache_from_persisted_data_def
            Inr c_def Let_def)
      note purge_keeps [OF laws this]
      ultimately show ?thesis using smt_inv_keeps by fastforce
    qed
  qed
  then show "smt_inv blake3 view t'" "leaves (view (smt_db t')) = leaves (view (smt_db t))"
    "r = Inr u \<Longrightarrow> smt_cache_ready t'" by auto
qed

section \<open>The operations keep the invariant\<close>

abbreviation (input) contents :: "('d \<Rightarrow> bytes \<Rightarrow> bytes option) \<Rightarrow> 'd smt \<Rightarrow> hash32 \<Rightarrow> bytes option" where
  "contents view t \<equiv> leaves (view (smt_db t))"

text \<open>Committing staged changes: the batch writes the leaves and the root the overlay tracks.\<close>

lemma commit_inv:
  assumes laws: "rocksdb_laws ops view" and ready: "smt_cache_ready t"
    and sp: "spread (dom (contents view t) \<union> fst ` set cs)"
    and ov: "tracks_from 0 blake3 (smt_cache t) ov (upd_leaves (contents view t) cs)" "hashmap_invar ov"
    and w: "db_write ops (smt_db t) (map leaf_op cs
           @ [BatchPut ROOT_NODE_KEY (hbytes (spec_root blake3 (upd_leaves (contents view t) cs))),
              BatchDelete NODE_INDEX_VERSION_KEY]) = Inr d"
  defines "t' \<equiv> t\<lparr>smt_db := d, smt_cache := apply_node_overlay_entries_to_cache (smt_cache t) ov\<rparr>"
  shows "smt_inv blake3 view t'" "contents view t' = upd_leaves (contents view t) cs"
proof -
  note written = write_leaf_batch [OF laws w]
  show leaves: "contents view t' = upd_leaves (contents view t) cs" by (simp add: t'_def written(1))
  have "spread (dom (upd_leaves (contents view t) cs))"
    by (rule spread_mono [OF sp dom_upd_leaves])
  then show "smt_inv blake3 view t'"
    using ov ready by (simp add: smt_inv_def stored_root_ok_def t'_def written tracks_from_apply_overlay)
qed

lemma staged_tracks:
  assumes "smt_inv blake3 view t" "smt_cache_ready t" "spread (dom (contents view t) \<union> fst ` set cs)"
  shows "tracks_from 0 blake3 (smt_cache t) (stage_changes blake3 (smt_cache t) [] cs)
           (upd_leaves (contents view t) cs)"
    and "hashmap_invar (stage_changes blake3 (smt_cache t) [] cs)"
    and "node_hash_from_overlay blake3 (smt_cache t) (stage_changes blake3 (smt_cache t) [] cs) q 0 =
           spec_root blake3 (upd_leaves (contents view t) cs)"
proof -
  show tr: "tracks_from 0 blake3 (smt_cache t) (stage_changes blake3 (smt_cache t) [] cs)
           (upd_leaves (contents view t) cs)"
    using assms by (intro stage_changes_tracks) (auto simp: smt_inv_def)
  show "hashmap_invar (stage_changes blake3 (smt_cache t) [] cs)"
    by (simp add: stage_changes_invar)
  show "node_hash_from_overlay blake3 (smt_cache t) (stage_changes blake3 (smt_cache t) [] cs) q 0 =
           spec_root blake3 (upd_leaves (contents view t) cs)"
    by (rule tracks_root [OF tr])
qed

subsection \<open>Insert\<close>

lemma map_of_dedup_by_key: "map_of (dedup_by_key xs) = map_of xs"
  by (induction xs rule: dedup_by_key.induct) (auto simp: fun_eq_iff)

lemma set_dedup_by_key: "fst ` set (dedup_by_key xs) = fst ` set xs"
  by (induction xs rule: dedup_by_key.induct) auto

lemma distinct_dedup_by_key: "sorted (map fst xs) \<Longrightarrow> distinct (map fst (dedup_by_key xs))"
proof (induction xs rule: dedup_by_key.induct)
  case (3 x y xs)
  have "fst x \<notin> fst ` set (y # xs)" if "fst x \<noteq> fst y"
    using that 3(3) by (auto simp: order.strict_iff_order)
  then show ?case
    using 3 set_dedup_by_key [of "y # xs"] by auto
qed simp_all

definition keyed_entries :: "blake3_fn \<Rightarrow> (bytes \<times> bytes) list \<Rightarrow> (hash32 \<times> bytes) list" where
  "keyed_entries blake3 kvs = map (\<lambda>(key, value). (digest blake3 key, value)) kvs"

lemma fst_keyed_entries: "fst ` set (keyed_entries blake3 kvs) = digest blake3 ` fst ` set kvs"
  by (auto simp: keyed_entries_def image_image case_prod_unfold)

lemma upd_leaves_keyed:
  assumes "keyed = dedup_by_key (sort_key fst (keyed_entries blake3 kvs))"
  shows "upd_leaves m (map (\<lambda>(kh, v). (kh, Some v)) keyed) = m ++ map_of (keyed_entries blake3 kvs)"
proof
  fix h
  have "distinct (map fst (map (\<lambda>(kh, v). (kh, Some v)) keyed))"
    using distinct_dedup_by_key [of "sort_key fst (keyed_entries blake3 kvs)"]
    by (simp add: comp_def case_prod_unfold assms)
  moreover have "map_of (map (\<lambda>(kh, v). (kh, Some v)) keyed) h = map_option Some (map_of keyed h)"
    by (induction keyed) auto
  moreover have "map_of keyed = map_of (keyed_entries blake3 kvs)"
    by (simp add: assms map_of_dedup_by_key)
  ultimately show "upd_leaves m (map (\<lambda>(kh, v). (kh, Some v)) keyed) h = (m ++ map_of (keyed_entries blake3 kvs)) h"
    by (simp add: upd_leaves_distinct map_add_def split: option.splits)
qed

lemma smt_insert_inv:
  assumes laws: "rocksdb_laws ops view" and inv: "smt_inv blake3 view t"
    and sp: "spread (dom (contents view t) \<union> digest blake3 ` fst ` set kvs)"
    and ins: "smt_insert blake3 ops kvs t = (r, t')"
  shows "smt_inv blake3 view t' \<and> contents view t' =
    (case r of Inl _ \<Rightarrow> contents view t | Inr _ \<Rightarrow> contents view t ++ map_of (keyed_entries blake3 kvs))"
proof (cases "kvs = []")
  case True
  then show ?thesis using ins inv by (auto simp: smt_insert_def keyed_entries_def)
next
  case False
  obtain e t1 where en: "ensure_node_index blake3 ops t = (e, t1)" by fastforce
  note en_inv = ensure_node_index_inv [OF laws inv en]
  define keyed where "keyed = dedup_by_key (sort_key fst (keyed_entries blake3 kvs))"
  define cs where "cs = map (\<lambda>(kh, v). (kh, Some v)) keyed"
  have cs: "fst ` set cs = digest blake3 ` fst ` set kvs" "upd_leaves m cs = m ++ map_of (keyed_entries blake3 kvs)" for m
    using set_dedup_by_key [of "sort_key fst (keyed_entries blake3 kvs)"] fst_keyed_entries [of blake3 kvs]
      upd_leaves_keyed [OF keyed_def]
    by (simp_all add: cs_def keyed_def image_image case_prod_unfold)
  show ?thesis
  proof (cases e)
    case (Inl x)
    then show ?thesis using ins en en_inv False by (auto simp: smt_insert_def)
  next
    case (Inr u)
    have ready: "smt_cache_ready t1" using en_inv(3) [OF Inr] .
    have sp1: "spread (dom (contents view t1) \<union> fst ` set cs)" using sp by (simp add: cs en_inv(2))
    note st = staged_tracks [OF en_inv(1) ready sp1]
    have batch: "map (\<lambda>(kh, v). BatchPut (data_key kh) v) keyed = map leaf_op cs"
      by (simp add: cs_def case_prod_unfold)
    show ?thesis
      using ins en False Inr en_inv commit_inv [OF laws ready sp1 st(1,2)]
      by (auto simp: smt_insert_def Let_def batch st(3) cs(2) split: sum.splits
          simp flip: keyed_entries_def keyed_def cs_def)
  qed
qed

subsection \<open>Delete\<close>

lemma upd_leaves_delete:
  "upd_leaves m (map (\<lambda>kh. (kh, None)) khs) = m |` (- set khs)"
proof
  fix h
  have "map_of (rev (map (\<lambda>kh. (kh, None :: bytes option)) khs)) h = (if h \<in> set khs then Some None else None)"
    by (induction khs) (auto simp: map_add_def)
  then show "upd_leaves m (map (\<lambda>kh. (kh, None)) khs) h = (m |` (- set khs)) h"
    by (simp add: upd_leaves_last restrict_map_def)
qed

lemma smt_delete_inv:
  assumes laws: "rocksdb_laws ops view" and inv: "smt_inv blake3 view t"
    and sp: "spread (dom (contents view t) \<union> digest blake3 ` set keys)"
    and del: "smt_delete blake3 ops keys t = (r, t')"
  shows "smt_inv blake3 view t' \<and> contents view t' =
    (case r of Inl _ \<Rightarrow> contents view t | Inr _ \<Rightarrow> contents view t |` (- (digest blake3 ` set keys)))"
proof (cases "keys = []")
  case True
  then show ?thesis using del inv by (auto simp: smt_delete_def)
next
  case False
  obtain e t1 where en: "ensure_node_index blake3 ops t = (e, t1)" by fastforce
  note en_inv = ensure_node_index_inv [OF laws inv en]
  define keyed where "keyed = remdups_adj (sort (map (digest blake3) keys))"
  define cs :: "(hash32 \<times> bytes option) list" where "cs = map (\<lambda>kh. (kh, None)) keyed"
  have cs: "fst ` set cs = digest blake3 ` set keys" "upd_leaves m cs = m |` (- (digest blake3 ` set keys))" for m
    by (simp_all add: cs_def keyed_def upd_leaves_delete image_image)
  show ?thesis
  proof (cases e)
    case (Inl x)
    then show ?thesis using del en en_inv False by (auto simp: smt_delete_def)
  next
    case (Inr u)
    have ready: "smt_cache_ready t1" using en_inv(3) [OF Inr] .
    have sp1: "spread (dom (contents view t1) \<union> fst ` set cs)" using sp by (simp add: cs en_inv(2))
    note st = staged_tracks [OF en_inv(1) ready sp1]
    have batch: "map (\<lambda>kh. BatchDelete (data_key kh)) keyed = map leaf_op cs"
      by (simp add: cs_def)
    show ?thesis
      using del en False Inr en_inv commit_inv [OF laws ready sp1 st(1,2)]
      by (auto simp: smt_delete_def Let_def batch st(3) cs(2) split: sum.splits simp flip: keyed_def cs_def)
  qed
qed

subsection \<open>Batches of updates and deletes\<close>

definition raw_changes ::
  "blake3_fn \<Rightarrow> (bytes \<times> bytes) list \<Rightarrow> bytes list \<Rightarrow> (hash32 \<times> bytes option) list" where
  "raw_changes blake3 updates deletes =
     map (\<lambda>key. (digest blake3 key, None)) deletes
     @ map (\<lambda>(key, value). (digest blake3 key, Some value)) updates"

text \<open>The map after a batch: an updated key has its last update, a deleted one nothing.\<close>

definition changed ::
  "blake3_fn \<Rightarrow> (bytes \<times> bytes) list \<Rightarrow> bytes list \<Rightarrow> (hash32 \<Rightarrow> bytes option) \<Rightarrow> hash32 \<Rightarrow> bytes option" where
  "changed blake3 updates deletes m =
     (m |` (- (digest blake3 ` set deletes))) ++ map_of (rev (keyed_entries blake3 updates))"

lemma upd_leaves_puts:
  "upd_leaves m (map (\<lambda>(key, value). (digest blake3 key, Some value)) updates) =
     m ++ map_of (rev (keyed_entries blake3 updates))"
  by (induction updates arbitrary: m) (auto simp: keyed_entries_def map_add_def fun_eq_iff split: option.splits)

lemma upd_leaves_raw: "upd_leaves m (raw_changes blake3 updates deletes) = changed blake3 updates deletes m"
  using upd_leaves_delete [of m "map (digest blake3) deletes"]
  by (simp add: raw_changes_def changed_def upd_leaves_puts comp_def)

lemma collect_changes_upd:
  "upd_leaves m (collect_changes blake3 updates deletes) = changed blake3 updates deletes m"
proof
  fix h
  let ?raw = "raw_changes blake3 updates deletes"
  have "btree_invar (fold (\<lambda>(k, v). btree_insert k v) ?raw [])" by (rule btree.invar_extend) simp
  moreover have "map_of (fold (\<lambda>(k, v). btree_insert k v) ?raw []) = map_of (rev ?raw)"
    by (simp add: btree.lookup_extend)
  ultimately show "upd_leaves m (collect_changes blake3 updates deletes) h = changed blake3 updates deletes m h"
    unfolding collect_changes_def raw_changes_def [symmetric]
    by (simp add: upd_leaves_distinct btree_invar_distinct map_of_rev_distinct upd_leaves_last flip: upd_leaves_raw)
qed

lemma fst_collect_changes:
  "fst ` set (collect_changes blake3 updates deletes) =
     digest blake3 ` (set deletes \<union> fst ` set updates)"
proof -
  have "fst ` set (fold (\<lambda>(k, v). btree_insert k v) xs ys) = fst ` set xs \<union> fst ` set ys"
    for xs ys :: "(hash32 \<times> bytes option) list"
    by (induction xs arbitrary: ys) (simp_all add: set_keys_btree_insert case_prod_unfold)
  then show ?thesis
    by (auto simp: collect_changes_def image_Un image_image case_prod_unfold)
qed

lemma fst_raw_changes:
  "fst ` set (raw_changes blake3 updates deletes) = digest blake3 ` (set deletes \<union> fst ` set updates)"
  by (auto simp: raw_changes_def image_Un image_image case_prod_unfold)

lemma data_batch_leaf_op: "data_batch blake3 updates deletes = map leaf_op (raw_changes blake3 updates deletes)"
  by (auto simp: data_batch_def raw_changes_def)

definition touched :: "blake3_fn \<Rightarrow> (bytes \<times> bytes) list \<Rightarrow> bytes list \<Rightarrow> hash32 set" where
  "touched blake3 updates deletes = digest blake3 ` (set deletes \<union> fst ` set updates)"

text \<open>The root of a batch, computed without applying it.\<close>

lemma root_hash_with_changes_and_overlay_spec:
  assumes laws: "rocksdb_laws ops view" and inv: "smt_inv blake3 view t"
    and sp: "spread (dom (contents view t) \<union> touched blake3 updates deletes)"
    and ne: "updates \<noteq> [] \<or> deletes \<noteq> []"
    and r: "root_hash_with_changes_and_overlay blake3 ops updates deletes t = (Inr (root, ov), t')"
  shows "smt_inv blake3 view t' \<and> contents view t' = contents view t \<and> smt_cache_ready t'
    \<and> root = spec_root blake3 (changed blake3 updates deletes (contents view t))
    \<and> tracks_from 0 blake3 (smt_cache t') ov (changed blake3 updates deletes (contents view t))
    \<and> hashmap_invar ov"
proof -
  obtain e where en: "ensure_node_index blake3 ops t = (Inr e, t')"
    using r ne by (auto simp: root_hash_with_changes_and_overlay_def Let_def split: sum.splits prod.splits if_splits)
  note en_inv = ensure_node_index_inv [OF laws inv en]
  let ?cs = "collect_changes blake3 updates deletes"
  have ready: "smt_cache_ready t'" using en_inv(3) by simp
  have sp1: "spread (dom (contents view t') \<union> fst ` set ?cs)"
    using sp by (simp add: fst_collect_changes touched_def en_inv(2))
  note st = staged_tracks [OF en_inv(1) ready sp1]
  have base: "tracks_from 0 blake3 (smt_cache t') [] (contents view t')"
    using en_inv(1) ready by (simp add: smt_inv_def)
  show ?thesis
    using r ne en st root_hash_with_sorted_changes_parallel_spec [OF base sp1] en_inv ready
    by (auto simp: root_hash_with_changes_and_overlay_def Let_def collect_changes_upd split: if_splits)
qed

lemma commit_changes_inv:
  assumes laws: "rocksdb_laws ops view" and ready: "smt_cache_ready t"
    and sp: "spread (dom (contents view t) \<union> touched blake3 updates deletes)"
    and ov: "tracks_from 0 blake3 (smt_cache t) ov (changed blake3 updates deletes (contents view t))"
      "hashmap_invar ov"
    and w: "db_write ops (smt_db t) (data_batch blake3 updates deletes
           @ [BatchPut ROOT_NODE_KEY (hbytes (spec_root blake3 (changed blake3 updates deletes (contents view t)))),
              BatchDelete NODE_INDEX_VERSION_KEY]) = Inr d"
  defines "t' \<equiv> t\<lparr>smt_db := d, smt_cache := apply_node_overlay_entries_to_cache (smt_cache t) ov\<rparr>"
  shows "smt_inv blake3 view t'" "contents view t' = changed blake3 updates deletes (contents view t)"
  using commit_inv [OF laws ready, of "raw_changes blake3 updates deletes" blake3 ov d] sp ov w
  by (simp_all add: t'_def upd_leaves_raw fst_raw_changes touched_def data_batch_leaf_op)

lemma apply_changes_with_root_inv:
  assumes laws: "rocksdb_laws ops view" and inv: "smt_inv blake3 view t"
    and sp: "spread (dom (contents view t) \<union> touched blake3 updates deletes)"
    and app: "apply_changes_with_root blake3 ops updates deletes root t = (r, t')"
  shows "smt_inv blake3 view t' \<and>
    (case r of
       Inl e \<Rightarrow> contents view t' = contents view t \<and>
         (e = VerifiedRootMismatch \<longrightarrow> root \<noteq> spec_root blake3 (changed blake3 updates deletes (contents view t)))
     | Inr _ \<Rightarrow> contents view t' = changed blake3 updates deletes (contents view t) \<and>
         root = spec_root blake3 (changed blake3 updates deletes (contents view t)))"
proof -
  obtain e t1 where en: "ensure_node_index blake3 ops t = (e, t1)" by fastforce
  note en_inv = ensure_node_index_inv [OF laws inv en]
  show ?thesis
  proof (cases e)
    case (Inl x)
    have "x \<noteq> VerifiedRootMismatch"
      using en Inl by (auto simp: ensure_node_index_def rebuild_node_cache_from_persisted_data_def
          purge_legacy_persisted_node_index_def persisted_data_entries_def Let_def
          split: if_splits sum.splits option.splits)
    then show ?thesis using app en en_inv Inl by (auto simp: apply_changes_with_root_def)
  next
    case (Inr u)
    have ready: "smt_cache_ready t1" using en_inv(3) [OF Inr] .
    let ?cs = "collect_changes blake3 updates deletes"
    have sp1: "spread (dom (contents view t1) \<union> fst ` set ?cs)"
      "spread (dom (contents view t1) \<union> touched blake3 updates deletes)"
      using sp by (simp_all add: fst_collect_changes touched_def en_inv(2))
    note st = staged_tracks [OF en_inv(1) ready sp1(1), unfolded collect_changes_upd]
    show ?thesis
      using app en Inr en_inv(1,2) commit_changes_inv [OF laws ready sp1(2) st(1,2)]
      by (auto simp: apply_changes_with_root_def Let_def st(3) split: sum.splits if_splits)
  qed
qed

subsection \<open>The two-phase update: compute the root and the overlay, then commit them\<close>

lemma apply_precomputed_inv:
  assumes laws: "rocksdb_laws ops view" and inv: "smt_inv blake3 view t" and ready: "smt_cache_ready t"
    and sp: "spread (dom (contents view t) \<union> touched blake3 updates deletes)"
    and ov: "tracks_from 0 blake3 (smt_cache t) ov (changed blake3 updates deletes (contents view t))"
      "hashmap_invar ov"
    and app: "apply_changes_with_precomputed_overlay blake3 ops updates deletes
        (spec_root blake3 (changed blake3 updates deletes (contents view t))) ov t = (r, t')"
  shows "smt_inv blake3 view t' \<and> r \<noteq> Inl OverlayRootMismatch \<and> contents view t' =
    (case r of Inl _ \<Rightarrow> contents view t | Inr _ \<Rightarrow> changed blake3 updates deletes (contents view t))"
proof -
  have root: "(case map_of ov ROOT_NODE_KEY of
               Some value \<Rightarrow> (case value of Some h \<Rightarrow> h | None \<Rightarrow> DEFAULT_HASHES blake3 ! 0)
             | None \<Rightarrow>
                 (case root_hash blake3 ops t of Inr r \<Rightarrow> r | Inl _ \<Rightarrow> DEFAULT_HASHES blake3 ! 0)) =
      spec_root blake3 (changed blake3 updates deletes (contents view t))"
    using tracks_root [OF ov(1), of zero_hash] ready
    by (simp add: root_hash_def node_hash_from_overlay_def split: option.splits)
  show ?thesis
    using app inv ready commit_changes_inv [OF laws ready sp ov]
    by (auto simp: apply_changes_with_precomputed_overlay_def stage_changes_with_precomputed_overlay_def
        apply_precomputed_node_overlay_def ensure_node_index_def Let_def root split: sum.splits)
qed

subsection \<open>Rebuild\<close>

lemma clear_leaves:
  assumes laws: "rocksdb_laws ops view" and it: "try_collect (db_iterator ops d) = Inr items"
    and w: "db_write ops d
       (map BatchDelete (filter (\<lambda>k. starts_with k [110, 58] \<or> starts_with k [100, 58]) (map fst items))
        @ [BatchDelete NODE_INDEX_VERSION_KEY]) = Inr d'"
  shows "leaves (view d') = Map.empty" "view d' ROOT_NODE_KEY = None"
proof -
  let ?stale = "filter (\<lambda>k. starts_with k [110, 58] \<or> starts_with k [100, 58]) (map fst items)"
  have del: "fold apply_op (map BatchDelete keys) db key = (if key \<in> set keys then None else db key)"
    for keys db key by (induction keys arbitrary: db) auto
  have "map_of items = view d"
    using it rocksdb_lawsD(4) [OF laws] by (simp add: try_collect_Inr_iff)
  then have mem: "view d key = None" if "key \<notin> fst ` set items" for key
    using that by (metis map_of_eq_None_iff)
  have "view d' = fold apply_op (map BatchDelete ?stale @ [BatchDelete NODE_INDEX_VERSION_KEY]) (view d)"
    by (rule rocksdb_lawsD(2) [OF laws w])
  moreover have "starts_with ROOT_NODE_KEY [110, 58]" by (simp add: starts_with_def ROOT_NODE_KEY_def)
  ultimately show "leaves (view d') = Map.empty" "view d' ROOT_NODE_KEY = None"
    using mem by (auto simp: leaves_def fun_eq_iff del)
qed

lemma smt_rebuild_inv:
  assumes laws: "rocksdb_laws ops view" and inv: "smt_inv blake3 view t"
    and sp: "spread (digest blake3 ` fst ` set entries)"
    and reb: "smt_rebuild blake3 ops entries t = (r, t')"
  shows "smt_inv blake3 view t' \<and>
    (case r of Inl _ \<Rightarrow> contents view t' = contents view t \<or> contents view t' = Map.empty
     | Inr _ \<Rightarrow> contents view t' = map_of (keyed_entries blake3 entries))"
proof (cases "\<exists>items d. try_collect (db_iterator ops (smt_db t)) = Inr items \<and> db_write ops (smt_db t)
       (map BatchDelete (filter (\<lambda>k. starts_with k [110, 58] \<or> starts_with k [100, 58]) (map fst items))
        @ [BatchDelete NODE_INDEX_VERSION_KEY]) = Inr d")
  case False
  then show ?thesis using reb inv by (auto simp: smt_rebuild_def Let_def split: sum.splits)
next
  case True
  then obtain items d where it: "try_collect (db_iterator ops (smt_db t)) = Inr items"
    and w: "db_write ops (smt_db t)
       (map BatchDelete (filter (\<lambda>k. starts_with k [110, 58] \<or> starts_with k [100, 58]) (map fst items))
        @ [BatchDelete NODE_INDEX_VERSION_KEY]) = Inr d" by blast
  note clear = clear_leaves [OF laws it w]
  define t1 where "t1 = t\<lparr>smt_db := d, smt_cache := Map.empty, smt_cache_ready := False\<rparr>"
  have inv1: "smt_inv blake3 view t1" "contents view t1 = Map.empty"
    by (simp_all add: t1_def smt_inv_def stored_root_ok_def clear spread_def)
  show ?thesis
  proof (cases "entries = []")
    case False
    have "smt_insert blake3 ops entries t1 = (r, t')"
      using reb False by (simp add: smt_rebuild_def it w Let_def t1_def)
    from smt_insert_inv [OF laws inv1(1) _ this] show ?thesis
      using sp by (auto simp: inv1(2) split: sum.splits)
  next
    case True
    have "leaves (view d') = Map.empty" "view d' ROOT_NODE_KEY = Some (hbytes (DEFAULT_HASHES blake3 ! 0))"
      if "db_write ops d [BatchPut ROOT_NODE_KEY (hbytes (DEFAULT_HASHES blake3 ! 0))] = Inr d'" for d'
      using rocksdb_lawsD(2) [OF laws that] clear(1) by (simp_all add: leaves_def fun_eq_iff)
    then show ?thesis
      using reb inv1 True
      by (auto simp: smt_rebuild_def it w Let_def keyed_entries_def smt_inv_def stored_root_ok_def
          tracks_from_empty spread_def spec_root_empty t1_def split: sum.splits)
  qed
qed

end
