(* ===== verification/Sparse_Merkle_Correct.thy ===== *)
theory Sparse_Merkle_Correct
  imports Sparse_Merkle_Store
begin

text \<open>
  Reads and proofs of the sparse Merkle tree, and the properties of the component: every operation
  refines an operation on the abstract map, the reported root is the root of that map, and proofs
  are complete and, up to hash collisions, binding.
\<close>

section \<open>Reading\<close>

lemma root_hash_spec:
  assumes laws: "rocksdb_laws ops view" and inv: "smt_inv blake3 view t"
    and get: "smt_cache_ready t \<or> db_get ops (smt_db t) ROOT_NODE_KEY = Inr v"
  shows "root_hash blake3 ops t = Inr (spec_root blake3 (contents view t))"
proof (cases "smt_cache_ready t")
  case True
  then show ?thesis using inv by (simp add: root_hash_def smt_inv_def tracks_cache_root)
next
  case False
  then have "v = view (smt_db t) ROOT_NODE_KEY" using get rocksdb_lawsD(1) [OF laws] by simp
  then show ?thesis
    using False get inv
    by (auto simp: root_hash_def smt_inv_def stored_root_ok_def hash_from_slice_def spec_root_empty)
qed

lemma smt_get_spec:
  assumes "rocksdb_laws ops view" "smt_get blake3 ops key t = Inr v"
  shows "v = contents view t (digest blake3 key)"
  using assms rocksdb_lawsD(1) [OF assms(1)] by (auto simp: smt_get_def leaves_def split: sum.splits)

section \<open>Proofs\<close>

definition sibling_hashes :: "blake3_fn \<Rightarrow> (hash32 \<Rightarrow> hash32) \<Rightarrow> hash32 \<Rightarrow> nat \<Rightarrow> nat \<Rightarrow> hash32 list" where
  "sibling_hashes blake3 lf kh S D = map (\<lambda>d. node_at blake3 lf d (sibling_of kh d)) (rev [Suc S..<Suc D])"

lemma fold_proof_step:
  "fold_proof blake3 kh (Suc d) cur (s # ss) =
     fold_proof blake3 kh d (if kbit kh (Suc d) then hash_node blake3 s cur else hash_node blake3 cur s) ss"
proof -
  obtain i j where ij: "key_bit_position (Suc d) = (i, j)" by fastforce
  show ?thesis
    by (simp only: fold_proof.simps ij Let_def prod.case shifted_bit_test [OF ij]) simp
qed

declare fold_proof.simps(2) [simp del]

lemma fold_proof_siblings:
  "S \<le> D \<Longrightarrow> D \<le> 256 \<Longrightarrow>
     fold_proof blake3 kh D (node_at blake3 lf D kh) (sibling_hashes blake3 lf kh S D) = Some (node_at blake3 lf S kh)"
proof (induction D rule: dec_induct)
  case base
  then show ?case by (simp add: sibling_hashes_def)
next
  case (step D)
  have "sibling_hashes blake3 lf kh S (Suc D) =
      node_at blake3 lf (Suc D) (sibling_of kh (Suc D)) # sibling_hashes blake3 lf kh S D"
    using step.hyps by (simp add: sibling_hashes_def)
  then show ?case using step node_at_path [of D blake3 lf kh] by (simp add: fold_proof_step)
qed

lemma smt_proof_spec:
  assumes laws: "rocksdb_laws ops view" and inv: "smt_inv blake3 view t"
    and sp: "spread (insert (digest blake3 key) (dom (contents view t)))"
    and p: "smt_proof blake3 ops key t = (Inr (is_member, leaf, siblings), t')"
  shows "smt_inv blake3 view t' \<and> contents view t' = contents view t
    \<and> is_member = (contents view t (digest blake3 key) \<noteq> None)
    \<and> leaf = leaf_of blake3 (contents view t) (digest blake3 key)
    \<and> siblings = sibling_hashes blake3 (leaf_of blake3 (contents view t)) (digest blake3 key) 0 256"
proof -
  let ?kh = "digest blake3 key" and ?m = "contents view t"
  obtain vo u where v: "db_get ops (smt_db t) (data_key ?kh) = Inr vo"
    and en: "ensure_node_index blake3 ops t = (Inr u, t')"
    and res: "is_member = (vo \<noteq> None)" "leaf = change_leaf blake3 ?kh vo"
      "siblings = map (\<lambda>depth. case key_bit_position depth of (byte_idx, bit_in_byte) \<Rightarrow>
          node_hash_from_cache blake3 (smt_cache t') (xor_byte ?kh byte_idx (push_bit bit_in_byte 1)) depth)
        (rev [1..<257])"
    using p by (auto simp: smt_proof_def Let_def split: sum.splits prod.splits)
  note en_inv = ensure_node_index_inv [OF laws inv en]
  have vo: "vo = ?m ?kh" using rocksdb_lawsD(1) [OF laws v] by (simp add: leaves_def)
  have tr: "tracks_from 0 blake3 (smt_cache t') [] ?m"
    using en_inv by (simp add: smt_inv_def)
  have "node_hash_from_cache blake3 (smt_cache t') (sibling_of ?kh d) d =
      node_at blake3 (leaf_of blake3 ?m) d (sibling_of ?kh d)" if "1 \<le> d" "d \<le> 256" for d
    using sibling_view [OF tr sp, of d "?m ?kh"] that by (simp add: node_hash_from_overlay_def)
  moreover have "siblings = map (\<lambda>d. node_hash_from_cache blake3 (smt_cache t') (sibling_of ?kh d) d) (rev [1..<257])"
    unfolding res sibling_of_def case_prod_unfold by (rule refl)
  ultimately have "siblings = sibling_hashes blake3 (leaf_of blake3 ?m) ?kh 0 256"
    by (simp add: sibling_hashes_def)
  then show ?thesis using en_inv res vo by (simp add: leaf_of_def)
qed

text \<open>The messages hashed while a proof is folded.\<close>

fun proof_msgs :: "blake3_fn \<Rightarrow> hash32 \<Rightarrow> nat \<Rightarrow> hash32 \<Rightarrow> hash32 list \<Rightarrow> bytes list" where
  "proof_msgs blake3 kh d cur [] = []"
| "proof_msgs blake3 kh d cur (s # ss) =
     (let msg = (if kbit kh d then node_msg s cur else node_msg cur s)
      in msg # proof_msgs blake3 kh (d - 1) (blake3 msg) ss)"

lemma fold_proof_inj:
  assumes "fold_proof blake3 kh d c ss = Some r" "fold_proof blake3 kh d c' ss' = Some r"
    and "length ss = length ss'"
    and "inj_on blake3 (set (proof_msgs blake3 kh d c ss) \<union> set (proof_msgs blake3 kh d c' ss'))"
  shows "c = c' \<and> ss = ss'"
  using assms(3,1,2,4)
proof (induction ss ss' arbitrary: d c c' rule: list_induct2)
  case (Cons s ss s' ss')
  obtain e where d: "d = Suc e"
    using Cons.prems(1) by (cases d) (auto simp: fold_proof.simps)
  define msg where "msg = (if kbit kh d then node_msg s c else node_msg c s)"
  define msg' where "msg' = (if kbit kh d then node_msg s' c' else node_msg c' s')"
  have "blake3 msg = blake3 msg' \<and> ss = ss'"
    using Cons.prems
    by (intro Cons.IH [of e])
      (auto simp: d msg_def msg'_def fold_proof_step hash_node_msg Let_def if_distrib [of blake3]
        elim: inj_on_subset)
  moreover have "msg = msg'" if "blake3 msg = blake3 msg'"
    using that Cons.prems(3) by (auto simp: Let_def msg_def msg'_def inj_on_eq_iff split: if_splits dest!: inj_onD)
  ultimately show ?case by (auto simp: msg_def msg'_def split: if_splits)
qed simp

section \<open>Databases whose calls succeed\<close>

definition rocksdb_total :: "'d rocksdb \<Rightarrow> bool" where
  "rocksdb_total ops \<longleftrightarrow>
     (\<forall>d k. \<exists>v. db_get ops d k = Inr v) \<and> (\<forall>d batch. \<exists>d'. db_write ops d batch = Inr d') \<and>
     (\<forall>d. \<exists>items. db_iterator ops d = map Inr items)"

lemma rocksdb_totalE:
  assumes "rocksdb_total ops"
  obtains "\<And>d k e. db_get ops d k \<noteq> Inl e" "\<And>d batch e. db_write ops d batch \<noteq> Inl e"
    "\<And>d e. try_collect (db_iterator ops d) \<noteq> Inl e"
  using assms unfolding rocksdb_total_def by (metis Inl_Inr_False try_collect_map_Inr)

lemma ensure_node_index_total:
  "rocksdb_total ops \<Longrightarrow> ensure_node_index blake3 ops t \<noteq> (Inl e, t')"
  by (erule rocksdb_totalE)
    (auto simp: ensure_node_index_def rebuild_node_cache_from_persisted_data_def persisted_data_entries_def
      purge_legacy_persisted_node_index_def Let_def split: sum.splits option.splits)

lemma smt_insert_total: "rocksdb_total ops \<Longrightarrow> smt_insert blake3 ops kvs t \<noteq> (Inl e, t')"
  using ensure_node_index_total [of ops blake3 t]
  by (auto simp: smt_insert_def Let_def elim: rocksdb_totalE split: sum.splits prod.splits)

lemma smt_delete_total: "rocksdb_total ops \<Longrightarrow> smt_delete blake3 ops keys t \<noteq> (Inl e, t')"
  using ensure_node_index_total [of ops blake3 t]
  by (auto simp: smt_delete_def Let_def elim: rocksdb_totalE split: sum.splits prod.splits)

lemma smt_rebuild_total: "rocksdb_total ops \<Longrightarrow> smt_rebuild blake3 ops entries t \<noteq> (Inl e, t')"
  by (auto simp: smt_rebuild_def Let_def smt_insert_total elim: rocksdb_totalE split: sum.splits)

lemma smt_proof_total: "rocksdb_total ops \<Longrightarrow> smt_proof blake3 ops key t \<noteq> (Inl e, t')"
  using ensure_node_index_total [of ops blake3 t]
  by (auto simp: smt_proof_def Let_def elim: rocksdb_totalE split: sum.splits prod.splits)

lemma apply_changes_with_root_total:
  "rocksdb_total ops \<Longrightarrow> apply_changes_with_root blake3 ops updates deletes root t = (Inl e, t') \<Longrightarrow>
     e = VerifiedRootMismatch"
  using ensure_node_index_total [of ops blake3 t]
  by (auto simp: apply_changes_with_root_def Let_def elim: rocksdb_totalE split: sum.splits prod.splits if_splits)

lemma root_hash_with_changes_and_overlay_total:
  "rocksdb_total ops \<Longrightarrow> updates \<noteq> [] \<or> deletes \<noteq> [] \<Longrightarrow>
     root_hash_with_changes_and_overlay blake3 ops updates deletes t \<noteq> (Inl e, t')"
  using ensure_node_index_total [of ops blake3 t]
  by (auto simp: root_hash_with_changes_and_overlay_def Let_def split: sum.splits prod.splits if_splits)

lemma apply_precomputed_total:
  "rocksdb_total ops \<Longrightarrow>
     apply_changes_with_precomputed_overlay blake3 ops updates deletes root ov t = (Inl e, t') \<Longrightarrow>
     e = OverlayRootMismatch"
  using ensure_node_index_total [of ops blake3 t]
  by (auto simp: apply_changes_with_precomputed_overlay_def stage_changes_with_precomputed_overlay_def Let_def
      elim: rocksdb_totalE split: sum.splits prod.splits if_splits)

lemma mem_ops_total: "rocksdb_total mem_ops"
  by (auto simp: rocksdb_total_def mem_ops_def)

text \<open>A fresh in-memory store, for the examples.\<close>

lemma mem_new_inv: "smt_inv blake3 map_of (smt_new [])" "leaves (map_of (smt_db (smt_new []))) = Map.empty"
  by (simp_all add: smt_inv_def smt_new_def stored_root_ok_def leaves_def [abs_def] spread_def)

lemma digest_const: "digest (\<lambda>_. h) key = h"
  by (simp add: digest_def hash_data_blake3_array_def hash_data_blake3_chunks_array_def)

lemma spread_singleton [simp]: "spread {h}" and spread_empty [simp]: "spread {}"
  by (simp_all add: spread_def)

text \<open>A store with one leaf.\<close>

definition one_leaf_smt :: "(bytes \<times> bytes) list smt" where
  "one_leaf_smt = snd (smt_insert (\<lambda>_. zero_hash) mem_ops [([1], [2])] (smt_new []))"

lemma one_leaf_inv:
  "smt_inv (\<lambda>_. zero_hash) map_of one_leaf_smt" "leaves (map_of (smt_db one_leaf_smt)) = [zero_hash \<mapsto> [2]]"
proof -
  obtain r t' where ins: "smt_insert (\<lambda>_. zero_hash) mem_ops [([1], [2])] (smt_new []) = (r, t')" by fastforce
  moreover have "r = Inr ()" using smt_insert_total [OF mem_ops_total] ins by (cases r) auto
  ultimately show "smt_inv (\<lambda>_. zero_hash) map_of one_leaf_smt"
    "leaves (map_of (smt_db one_leaf_smt)) = [zero_hash \<mapsto> [2]]"
    using smt_insert_inv [OF mem_ops_laws mem_new_inv(1) _ ins]
    by (simp_all add: one_leaf_smt_def mem_new_inv(2) digest_const keyed_entries_def)
qed

section \<open>Properties\<close>

text \<open>
  C1: the from-scratch root computation is a function of the map alone. Whatever the order of the
  entries, duplicates included (the first of equal keys counts), and whether the sequential or the
  bucketed algorithm runs, \<^verbatim>\<open>compute_sparse_root\<close> returns the root of the abstract tree.
\<close>

theorem compute_sparse_root_correct:
  "compute_sparse_root blake3 entries = spec_root blake3 (map_of (keyed_entries blake3 entries))"
  unfolding keyed_entries_def by (rule compute_sparse_root_spec)

text \<open>
  C2: \<^verbatim>\<open>insert\<close> keeps the invariant of the tree. If it returns Ok, the tree holds exactly the old
  leaves overwritten by the batch; if a database call fails, the leaves are unchanged. With a
  database whose calls succeed it returns Ok.
\<close>

theorem smt_insert_correct:
  assumes "rocksdb_laws ops view" "smt_inv blake3 view t"
    and "spread (dom (leaves (view (smt_db t))) \<union> digest blake3 ` fst ` set kvs)"
  shows "case smt_insert blake3 ops kvs t of
      (Inr _, t') \<Rightarrow> smt_inv blake3 view t' \<and>
        leaves (view (smt_db t')) = leaves (view (smt_db t)) ++ map_of (keyed_entries blake3 kvs)
    | (Inl _, t') \<Rightarrow> smt_inv blake3 view t' \<and> leaves (view (smt_db t')) = leaves (view (smt_db t))
        \<and> \<not> rocksdb_total ops"
  using smt_insert_inv [OF assms] smt_insert_total [of ops blake3 kvs t]
  by (fastforce split: prod.splits sum.splits)

theorem smt_insert_correct_witness:
  "case smt_insert (\<lambda>_. zero_hash) mem_ops [([1], [2])] (smt_new []) of
      (Inr _, t') \<Rightarrow> smt_inv (\<lambda>_. zero_hash) map_of t' \<and> leaves (map_of (smt_db t')) zero_hash = Some [2]
    | (Inl _, t') \<Rightarrow> False"
  using smt_insert_correct [OF mem_ops_laws mem_new_inv(1) [of "\<lambda>_. zero_hash"], of "[([1], [2])]"] mem_ops_total
  by (auto simp: mem_new_inv digest_const keyed_entries_def split: prod.splits sum.splits)

text \<open>
  C3: \<^verbatim>\<open>delete\<close> keeps the invariant and, if it returns Ok, removes exactly the given keys; if a
  database call fails, the leaves are unchanged. With a database whose calls succeed it returns Ok.
\<close>

theorem smt_delete_correct:
  assumes "rocksdb_laws ops view" "smt_inv blake3 view t"
    and "spread (dom (leaves (view (smt_db t))) \<union> digest blake3 ` set keys)"
  shows "case smt_delete blake3 ops keys t of
      (Inr _, t') \<Rightarrow> smt_inv blake3 view t' \<and>
        leaves (view (smt_db t')) = leaves (view (smt_db t)) |` (- (digest blake3 ` set keys))
    | (Inl _, t') \<Rightarrow> smt_inv blake3 view t' \<and> leaves (view (smt_db t')) = leaves (view (smt_db t))
        \<and> \<not> rocksdb_total ops"
  using smt_delete_inv [OF assms] smt_delete_total [of ops blake3 keys t]
  by (fastforce split: prod.splits sum.splits)

theorem smt_delete_correct_witness:
  "leaves (map_of (smt_db one_leaf_smt)) zero_hash = Some [2] \<and>
   (case smt_delete (\<lambda>_. zero_hash) mem_ops [[1]] one_leaf_smt of
      (Inr _, t') \<Rightarrow> smt_inv (\<lambda>_. zero_hash) map_of t' \<and> leaves (map_of (smt_db t')) zero_hash = None
    | (Inl _, t') \<Rightarrow> False)"
  using smt_delete_correct [OF mem_ops_laws one_leaf_inv(1), of "[[1]]"] mem_ops_total
  by (auto simp: one_leaf_inv(2) digest_const split: prod.splits sum.splits)

text \<open>
  C4: the two-phase update the block executor uses. The root computed ahead of a non-empty batch
  (sequentially, or in 4096 buckets from 1024 changes on) is the root of the changed map and leaves
  the tree's contents alone; committing it with the overlay computed beside it is never rejected as
  a mismatch, keeps the invariant, and if it returns Ok the tree holds the changed map and reports
  the announced root. With a database whose calls succeed both phases return Ok.
\<close>

theorem two_phase_update_correct:
  assumes "rocksdb_laws ops view" "smt_inv blake3 view t" "updates \<noteq> [] \<or> deletes \<noteq> []"
    and "spread (dom (leaves (view (smt_db t))) \<union> touched blake3 updates deletes)"
  shows "case root_hash_with_changes_and_overlay blake3 ops updates deletes t of
      (Inl _, _) \<Rightarrow> \<not> rocksdb_total ops
    | (Inr (root, overlay), t1) \<Rightarrow>
        root = spec_root blake3 (changed blake3 updates deletes (leaves (view (smt_db t)))) \<and>
        leaves (view (smt_db t1)) = leaves (view (smt_db t)) \<and>
        (case apply_changes_with_precomputed_overlay blake3 ops updates deletes root overlay t1 of
           (Inl e, t2) \<Rightarrow> e \<noteq> OverlayRootMismatch \<and> \<not> rocksdb_total ops \<and> smt_inv blake3 view t2 \<and>
             leaves (view (smt_db t2)) = leaves (view (smt_db t))
         | (Inr _, t2) \<Rightarrow> smt_inv blake3 view t2 \<and> root_hash blake3 ops t2 = Inr root \<and>
             leaves (view (smt_db t2)) = changed blake3 updates deletes (leaves (view (smt_db t))))"
proof -
  obtain r t1 where r: "root_hash_with_changes_and_overlay blake3 ops updates deletes t = (r, t1)" by fastforce
  show ?thesis
  proof (cases r)
    case (Inl e)
    then show ?thesis
      using r root_hash_with_changes_and_overlay_total [OF _ assms(3), of ops blake3 t e t1] by auto
  next
    case (Inr ro)
    obtain root ov where ro: "ro = (root, ov)" by fastforce
    note ph1 = root_hash_with_changes_and_overlay_spec [OF assms(1,2,4,3) r [unfolded Inr ro]]
    obtain r2 t2 where app: "apply_changes_with_precomputed_overlay blake3 ops updates deletes root ov t1 = (r2, t2)"
      by fastforce
    have ph2: "smt_inv blake3 view t2 \<and> r2 \<noteq> Inl OverlayRootMismatch \<and> contents view t2 =
        (case r2 of Inl _ \<Rightarrow> contents view t1 | Inr _ \<Rightarrow> changed blake3 updates deletes (contents view t1))"
      by (rule apply_precomputed_inv [OF assms(1)]) (use ph1 assms(4) app in auto)
    have "smt_cache_ready t2" if "r2 = Inr u" for u
      using that app ph1 by (auto simp: apply_changes_with_precomputed_overlay_def
          stage_changes_with_precomputed_overlay_def apply_precomputed_node_overlay_def ensure_node_index_def Let_def
          split: sum.splits prod.splits if_splits)
    then have "root_hash blake3 ops t2 = Inr root" if "r2 = Inr u" for u
      using that ph1 ph2 root_hash_spec [OF assms(1), of blake3 t2] by simp
    then show ?thesis
      using r Inr ro ph1 app ph2 apply_precomputed_total [of ops blake3 updates deletes root ov t1]
      by (cases r2) auto
  qed
qed

theorem two_phase_update_correct_witness:
  "case root_hash_with_changes_and_overlay (\<lambda>_. zero_hash) mem_ops [([1], [3])] [] one_leaf_smt of
      (Inl _, _) \<Rightarrow> False
    | (Inr (root, overlay), t1) \<Rightarrow>
        root = spec_root (\<lambda>_. zero_hash) [zero_hash \<mapsto> [3]] \<and>
        (case apply_changes_with_precomputed_overlay (\<lambda>_. zero_hash) mem_ops [([1], [3])] [] root overlay t1 of
           (Inl e, t2) \<Rightarrow> False
         | (Inr _, t2) \<Rightarrow> leaves (map_of (smt_db t2)) = [zero_hash \<mapsto> [3]])"
proof -
  have ch: "changed (\<lambda>_. zero_hash) [([1], [3])] [] [zero_hash \<mapsto> [2]] = [zero_hash \<mapsto> [3]]"
    by (simp add: changed_def keyed_entries_def digest_const)
  have sp: "spread (dom (leaves (map_of (smt_db one_leaf_smt))) \<union> touched (\<lambda>_. zero_hash) [([1], [3])] [])"
    by (simp add: one_leaf_inv(2) touched_def digest_const)
  note main = two_phase_update_correct [OF mem_ops_laws one_leaf_inv(1) _ sp]
  obtain r1 t1 where r1: "root_hash_with_changes_and_overlay (\<lambda>_. zero_hash) mem_ops [([1], [3])] [] one_leaf_smt = (r1, t1)"
    by fastforce
  show ?thesis
  proof (cases r1)
    case (Inr ro)
    obtain root ov where ro: "ro = (root, ov)" by fastforce
    obtain r2 t2 where r2: "apply_changes_with_precomputed_overlay (\<lambda>_. zero_hash) mem_ops [([1], [3])] [] root ov t1 = (r2, t2)"
      by fastforce
    show ?thesis using main mem_ops_total r2 by (cases r2) (auto simp: r1 Inr ro one_leaf_inv(2) ch)
  qed (use main r1 mem_ops_total in simp)
qed

text \<open>
  C5: \<^verbatim>\<open>apply_changes_with_root\<close> applies a batch exactly when the caller's root is the root of the
  changed map. Otherwise it reports a verified-root mismatch, and in every failure the leaves are
  unchanged and the invariant holds.
\<close>

theorem apply_changes_with_root_correct:
  assumes "rocksdb_laws ops view" "smt_inv blake3 view t"
    and "spread (dom (leaves (view (smt_db t))) \<union> touched blake3 updates deletes)"
  shows "case apply_changes_with_root blake3 ops updates deletes root t of
      (Inr _, t') \<Rightarrow> smt_inv blake3 view t' \<and>
        root = spec_root blake3 (changed blake3 updates deletes (leaves (view (smt_db t)))) \<and>
        leaves (view (smt_db t')) = changed blake3 updates deletes (leaves (view (smt_db t)))
    | (Inl e, t') \<Rightarrow> smt_inv blake3 view t' \<and> leaves (view (smt_db t')) = leaves (view (smt_db t)) \<and>
        (if e = VerifiedRootMismatch
         then root \<noteq> spec_root blake3 (changed blake3 updates deletes (leaves (view (smt_db t))))
         else \<not> rocksdb_total ops)"
proof -
  obtain r t' where app: "apply_changes_with_root blake3 ops updates deletes root t = (r, t')" by fastforce
  show ?thesis
    using apply_changes_with_root_inv [OF assms app] app apply_changes_with_root_total [of ops blake3 updates deletes root t]
    by (cases r) auto
qed

theorem apply_changes_with_root_correct_witness:
  "case apply_changes_with_root (\<lambda>_. zero_hash) mem_ops [] [[1]] (spec_root (\<lambda>_. zero_hash) Map.empty) one_leaf_smt of
      (Inr _, t') \<Rightarrow> leaves (map_of (smt_db t')) = Map.empty
    | (Inl e, t') \<Rightarrow> False"
proof -
  have "changed (\<lambda>_. zero_hash) [] [[1]] [zero_hash \<mapsto> [2]] = Map.empty"
    by (auto simp: changed_def keyed_entries_def digest_const restrict_map_def)
  moreover obtain r t' where "apply_changes_with_root (\<lambda>_. zero_hash) mem_ops [] [[1]]
      (spec_root (\<lambda>_. zero_hash) Map.empty) one_leaf_smt = (r, t')" by fastforce
  ultimately show ?thesis
    using apply_changes_with_root_correct [OF mem_ops_laws one_leaf_inv(1), of "[]" "[[1]]"
        "spec_root (\<lambda>_. zero_hash) Map.empty"] mem_ops_total
    by (cases r) (simp_all add: one_leaf_inv(2) touched_def digest_const split: if_splits)
qed

text \<open>
  C6: the incremental tree and the from-scratch computation agree. After \<^verbatim>\<open>rebuild\<close> returns Ok,
  the tree holds exactly the given entries and its root is \<^verbatim>\<open>compute_sparse_root\<close> of them, both
  before and after the database is reopened with an empty cache.
\<close>

theorem rebuild_matches_compute_sparse_root:
  assumes "rocksdb_laws ops view" "rocksdb_total ops" "smt_inv blake3 view t"
    and "spread (digest blake3 ` fst ` set entries)"
  shows "case smt_rebuild blake3 ops entries t of
      (Inl _, _) \<Rightarrow> False
    | (Inr _, t') \<Rightarrow> leaves (view (smt_db t')) = map_of (keyed_entries blake3 entries) \<and>
        root_hash blake3 ops t' = Inr (compute_sparse_root blake3 entries) \<and>
        root_hash blake3 ops (smt_new (smt_db t')) = Inr (compute_sparse_root blake3 entries)"
proof -
  obtain r t' where reb: "smt_rebuild blake3 ops entries t = (r, t')" by fastforce
  then obtain u where r: "r = Inr u" using smt_rebuild_total [OF assms(2)] by (cases r) auto
  note inv = smt_rebuild_inv [OF assms(1,3,4) reb, unfolded r]
  then have inv': "smt_inv blake3 view (smt_new (smt_db t'))"
    by (auto simp: smt_inv_def smt_new_def)
  have "\<exists>v. db_get ops d ROOT_NODE_KEY = Inr v" for d using assms(2) by (auto simp: rocksdb_total_def)
  then have "root_hash blake3 ops s = Inr (spec_root blake3 (contents view s))" if "smt_inv blake3 view s" for s
    using root_hash_spec [OF assms(1) that] by blast
  moreover have "spec_root blake3 (map_of (keyed_entries blake3 entries)) = compute_sparse_root blake3 entries"
    by (simp add: compute_sparse_root_spec keyed_entries_def)
  ultimately show ?thesis using reb r inv inv' by (simp add: smt_new_def)
qed

theorem rebuild_matches_compute_sparse_root_witness:
  "case smt_rebuild (\<lambda>_. zero_hash) mem_ops [([5], [6])] one_leaf_smt of
      (Inl _, _) \<Rightarrow> False
    | (Inr _, t') \<Rightarrow> leaves (map_of (smt_db t')) = [zero_hash \<mapsto> [6]] \<and>
        root_hash (\<lambda>_. zero_hash) mem_ops t' = Inr (compute_sparse_root (\<lambda>_. zero_hash) [([5], [6])])"
  using rebuild_matches_compute_sparse_root [OF mem_ops_laws mem_ops_total one_leaf_inv(1), of "[([5], [6])]"]
  by (auto simp: digest_const keyed_entries_def split: prod.splits sum.splits)

text \<open>
  C7: a proof the tree produces verifies. \<^verbatim>\<open>proof\<close> reports membership as the map has it, returns the
  leaf of the key with 256 siblings, keeps the tree's contents, and \<^verbatim>\<open>verify_proof\<close> accepts it
  against the root the tree reports. With a database whose calls succeed it returns Ok.
\<close>

theorem smt_proof_verifies:
  assumes "rocksdb_laws ops view" "smt_inv blake3 view t"
    and "spread (insert (digest blake3 key) (dom (leaves (view (smt_db t)))))"
  shows "case smt_proof blake3 ops key t of
      (Inl _, _) \<Rightarrow> \<not> rocksdb_total ops
    | (Inr (is_member, leaf, siblings), t') \<Rightarrow>
        is_member = (digest blake3 key \<in> dom (leaves (view (smt_db t)))) \<and>
        leaf = leaf_of blake3 (leaves (view (smt_db t))) (digest blake3 key) \<and> length siblings = 256 \<and>
        leaves (view (smt_db t')) = leaves (view (smt_db t)) \<and>
        (\<exists>root. root_hash blake3 ops t' = Inr root \<and>
           verify_proof blake3 root key (is_member, leaf, siblings) = Some True)"
proof -
  obtain r t' where p: "smt_proof blake3 ops key t = (r, t')" by fastforce
  let ?kh = "digest blake3 key" and ?lf = "leaf_of blake3 (leaves (view (smt_db t)))"
  show ?thesis
  proof (cases r)
    case (Inl e)
    then show ?thesis using p smt_proof_total [of ops blake3 key t e t'] by auto
  next
    case (Inr x)
    obtain b leaf siblings where x: "x = (b, leaf, siblings)" by (metis prod_cases3)
    note spec = smt_proof_spec [OF assms p [unfolded Inr x]]
    have "smt_cache_ready t'"
      using p ensure_node_index_inv(3) [OF assms(1,2)]
      by (auto simp: Inr smt_proof_def Let_def split: sum.splits prod.splits)
    then have "root_hash blake3 ops t' = Inr (spec_root blake3 (leaves (view (smt_db t))))"
      using spec root_hash_spec [OF assms(1), of blake3 t'] by simp
    moreover have "fold_proof blake3 ?kh 256 (?lf ?kh) (sibling_hashes blake3 ?lf ?kh 0 256) =
        Some (spec_root blake3 (leaves (view (smt_db t))))"
      using fold_proof_siblings [of 0 256 blake3 ?kh ?lf] by (simp add: spec_root_at [of _ _ ?kh])
    moreover have "length siblings = 256" using spec by (simp add: sibling_hashes_def)
    ultimately show ?thesis using spec by (simp add: p Inr x verify_proof_def domIff)
  qed
qed

theorem smt_proof_verifies_witness:
  "case smt_proof (\<lambda>_. zero_hash) mem_ops [9] one_leaf_smt of
      (Inl _, _) \<Rightarrow> False
    | (Inr (is_member, leaf, siblings), t') \<Rightarrow> is_member \<and> length siblings = 256 \<and>
        (\<exists>root. root_hash (\<lambda>_. zero_hash) mem_ops t' = Inr root \<and>
           verify_proof (\<lambda>_. zero_hash) root [9] (is_member, leaf, siblings) = Some True)"
proof -
  obtain r t' where p: "smt_proof (\<lambda>_. zero_hash) mem_ops [9] one_leaf_smt = (r, t')" by fastforce
  show ?thesis
    using smt_proof_verifies [OF mem_ops_laws one_leaf_inv(1), of "[9]"] mem_ops_total
    by (cases r) (auto simp: p one_leaf_inv(2) digest_const)
qed

lemma default_leaf: "DEFAULT_HASHES blake3 ! 256 = hash_leaf blake3 zero_hash (replicate 32 0)"
proof -
  have "default_chain blake3 n ! n = hash_leaf blake3 zero_hash (replicate 32 0)" for n
    by (induction n) (simp_all add: Let_def)
  then show ?thesis by (simp add: DEFAULT_HASHES_def)
qed

text \<open>With a constant hash every node is that constant.\<close>

lemma proof_msgs_const:
  "set (proof_msgs (\<lambda>_. h) kh d h (replicate n h)) \<subseteq> {node_msg h h}"
  by (induction n arbitrary: d) (auto simp: Let_def)

lemma node_at_const: "d \<le> 256 \<Longrightarrow> (\<And>g. lf g = h) \<Longrightarrow> node_at (\<lambda>_. h) lf d p = h"
  by (cases "d = 256") (simp_all add: node_at_path hash_node_msg)

lemma leaf_of_const: "leaf_of (\<lambda>_. h) m g = h"
  by (cases "m g") (simp_all add: leaf_of_def change_leaf_def default_leaf hash_leaf_def
      hash_data_blake3_chunks_array_def)

lemma sibling_hashes_const:
  "sibling_hashes (\<lambda>_. h) (leaf_of (\<lambda>_. h) m) kh 0 256 = replicate 256 h"
  unfolding sibling_hashes_def by (rule replicate_eqI) (auto simp: node_at_const leaf_of_const)

lemma fold_proof_const: "n \<le> d \<Longrightarrow> fold_proof (\<lambda>_. h) kh d h (replicate n h) = Some h"
proof (induction n arbitrary: d)
  case (Suc n)
  then obtain e where "d = Suc e" by (cases d) auto
  with Suc show ?case by (simp add: fold_proof_step hash_node_msg)
qed simp

text \<open>
  C8: a full-length proof binds the leaf. If \<^verbatim>\<open>verify_proof\<close> accepts a leaf with 256 siblings
  against the root of the tree's map, the leaf is the one the map has at the key (the value's leaf
  hash, or the default leaf of an absent key) and the siblings are the tree's own, unless BLAKE3
  collides on the messages hashed along the two paths.
\<close>

theorem verify_proof_binding:
  assumes "verify_proof blake3 (spec_root blake3 m) key (is_member, leaf, siblings) = Some True"
    and "length siblings = 256"
    and "inj_on blake3
      (set (proof_msgs blake3 (digest blake3 key) 256 leaf siblings) \<union>
       set (proof_msgs blake3 (digest blake3 key) 256 (leaf_of blake3 m (digest blake3 key))
              (sibling_hashes blake3 (leaf_of blake3 m) (digest blake3 key) 0 256)))"
  shows "leaf = leaf_of blake3 m (digest blake3 key) \<and>
    siblings = sibling_hashes blake3 (leaf_of blake3 m) (digest blake3 key) 0 256"
proof -
  let ?kh = "digest blake3 key" and ?lf = "leaf_of blake3 m"
  have "fold_proof blake3 ?kh 256 leaf siblings = Some (spec_root blake3 m)"
    using assms(1) by (auto simp: verify_proof_def)
  moreover have "fold_proof blake3 ?kh 256 (?lf ?kh) (sibling_hashes blake3 ?lf ?kh 0 256) = Some (spec_root blake3 m)"
    using fold_proof_siblings [of 0 256 blake3 ?kh ?lf] by (simp add: spec_root_at [of _ _ ?kh])
  moreover have "length siblings = length (sibling_hashes blake3 ?lf ?kh 0 256)"
    using assms(2) by (simp add: sibling_hashes_def)
  ultimately show ?thesis using assms(3) by (rule fold_proof_inj)
qed

theorem verify_proof_binding_witness:
  "verify_proof (\<lambda>_. zero_hash) (spec_root (\<lambda>_. zero_hash) [zero_hash \<mapsto> [2]]) [9]
      (True, zero_hash, replicate 256 zero_hash) = Some True \<and>
   zero_hash = leaf_of (\<lambda>_. zero_hash) [zero_hash \<mapsto> [2]] (digest (\<lambda>_. zero_hash) [9])"
proof -
  let ?b = "\<lambda>_. zero_hash" and ?lf = "leaf_of (\<lambda>_. zero_hash) [zero_hash \<mapsto> [2]]"
  have v: "verify_proof ?b (spec_root ?b [zero_hash \<mapsto> [2]]) [9] (True, zero_hash, replicate 256 zero_hash) = Some True"
    using fold_proof_const [of 256 256 zero_hash] by (simp add: verify_proof_def spec_root_def node_at_const leaf_of_const)
  moreover have "inj_on ?b (set (proof_msgs ?b zero_hash 256 zero_hash (replicate 256 zero_hash)) \<union>
      set (proof_msgs ?b zero_hash 256 zero_hash (replicate 256 zero_hash)))"
    using proof_msgs_const [of zero_hash zero_hash 256 256] by (auto intro!: inj_onI)
  ultimately show ?thesis
    using verify_proof_binding [OF v] by (simp add: digest_const leaf_of_const sibling_hashes_const)
qed

end
