(* ===== verification/Merkle.thy ===== *)
theory Merkle
  imports Hash32
begin

text \<open>
  The transaction Merkle tree of \<^verbatim>\<open>crates/smt/src/merkle.rs\<close>: root, inclusion proofs, the compressed
  proof format with its byte encoding, and multiproofs. A level with an odd number of nodes passes
  its last node through unhashed; the proof marks such a level with an empty sibling.
\<close>

section \<open>Root and inclusion proofs\<close>

definition bytes_to_hash :: "bytes \<Rightarrow> hash32" where
  "bytes_to_hash bs = (if length bs = 32 then Hash32 bs else zero_hash)"

definition tx_hashes_to_arrays :: "bytes list \<Rightarrow> hash32 list" where
  "tx_hashes_to_arrays tx_hashes = map bytes_to_hash tx_hashes"

text \<open>The loop over \<^verbatim>\<open>chunks(2)\<close> that builds the level above.\<close>

fun next_level :: "blake3_fn \<Rightarrow> hash32 list \<Rightarrow> hash32 list" where
  "next_level blake3 (x # y # rest) = hash_node blake3 x y # next_level blake3 rest"
| "next_level blake3 [x] = [x]"
| "next_level blake3 [] = []"

lemma length_next_level [simp]: "length (next_level blake3 xs) = (length xs + 1) div 2"
  by (induction blake3 xs rule: next_level.induct) simp_all

function compute_merkle_root_arrays :: "blake3_fn \<Rightarrow> hash32 list \<Rightarrow> hash32" where
  "compute_merkle_root_arrays blake3 current_level =
     (if current_level = [] then zero_hash
      else if length current_level > 1 then compute_merkle_root_arrays blake3 (next_level blake3 current_level)
      else current_level ! 0)"
  by pat_completeness auto
termination
  by (relation "measure (\<lambda>(_, xs). length xs)") auto

declare compute_merkle_root_arrays.simps [simp del]

definition compute_merkle_root_optimized :: "blake3_fn \<Rightarrow> hash32 list \<Rightarrow> hash32" where
  "compute_merkle_root_optimized blake3 hashes = compute_merkle_root_arrays blake3 hashes"

definition compute_merkle_root :: "blake3_fn \<Rightarrow> bytes list \<Rightarrow> bytes" where
  "compute_merkle_root blake3 tx_hashes =
     (if length tx_hashes = 1 then tx_hashes ! 0
      else hbytes (compute_merkle_root_arrays blake3 (tx_hashes_to_arrays tx_hashes)))"

text \<open>The loop of \<^verbatim>\<open>generate_merkle_proof\<close>: one sibling per level, empty where there is none.\<close>

function merkle_path :: "blake3_fn \<Rightarrow> hash32 list \<Rightarrow> nat \<Rightarrow> bytes list" where
  "merkle_path blake3 current_level current_index =
     (if length current_level > 1 then
        (let sibling_index = (if even current_index then current_index + 1 else current_index - 1)
         in (if sibling_index < length current_level then hbytes (current_level ! sibling_index) else [])
            # merkle_path blake3 (next_level blake3 current_level) (current_index div 2))
      else [])"
  by pat_completeness auto
termination
  by (relation "measure (\<lambda>(_, xs, _). length xs)") auto

declare merkle_path.simps [simp del]

definition generate_merkle_proof :: "blake3_fn \<Rightarrow> bytes list \<Rightarrow> nat \<Rightarrow> bytes list" where
  "generate_merkle_proof blake3 tx_hashes index =
     (if index \<ge> length tx_hashes then [] else merkle_path blake3 (tx_hashes_to_arrays tx_hashes) index)"

text \<open>The loop of \<^verbatim>\<open>verify_merkle_proof\<close>: an empty sibling is a pass-through.\<close>

fun fold_path :: "blake3_fn \<Rightarrow> hash32 \<Rightarrow> nat \<Rightarrow> bytes list \<Rightarrow> hash32" where
  "fold_path blake3 current_hash current_index [] = current_hash"
| "fold_path blake3 current_hash current_index (sibling_vec # siblings) =
     fold_path blake3
       (if sibling_vec \<noteq> [] then
          (let sibling = bytes_to_hash sibling_vec
           in if even current_index then hash_node blake3 current_hash sibling
              else hash_node blake3 sibling current_hash)
        else current_hash)
       (current_index div 2) siblings"

definition verify_merkle_proof :: "blake3_fn \<Rightarrow> bytes \<Rightarrow> nat \<Rightarrow> bytes list \<Rightarrow> bytes \<Rightarrow> bool" where
  "verify_merkle_proof blake3 tx_hash index proof merkle_root =
     (if proof = [] \<and> tx_hash = merkle_root then True
      else hbytes (fold_path blake3 (bytes_to_hash tx_hash) index proof) = merkle_root)"

fun batch_verify_merkle_proofs :: "blake3_fn \<Rightarrow> (bytes \<times> nat \<times> bytes list) list \<Rightarrow> bytes \<Rightarrow> bool" where
  "batch_verify_merkle_proofs blake3 [] merkle_root = True"
| "batch_verify_merkle_proofs blake3 ((tx_hash, index, proof) # proofs) merkle_root =
     (if \<not> verify_merkle_proof blake3 tx_hash index proof merkle_root then False
      else batch_verify_merkle_proofs blake3 proofs merkle_root)"

section \<open>Multiproofs\<close>

text \<open>
  One level of \<^verbatim>\<open>generate_merkle_multiproof\<close>: the siblings pair \<open>chunk_idx\<close> contributes to the
  ordered set of proof nodes, and the indices to prove one level up. The level itself is built as
  in the other loops.
\<close>

definition multiproof_nodes :: "hash32 list \<Rightarrow> nat set \<Rightarrow> nat \<Rightarrow> bytes set" where
  "multiproof_nodes current_level current_indices chunk_idx =
     (let left_idx = chunk_idx * 2;
          right_idx = left_idx + 1;
          need_left = left_idx \<in> current_indices;
          need_right = right_idx < length current_level \<and> right_idx \<in> current_indices
      in if need_left \<and> \<not> need_right then
           (if right_idx < length current_level then {hbytes (current_level ! right_idx)} else {[]})
         else if need_right \<and> \<not> need_left then {hbytes (current_level ! left_idx)}
         else {})"

definition multiproof_parents :: "hash32 list \<Rightarrow> nat set \<Rightarrow> nat set" where
  "multiproof_parents current_level current_indices =
     set (filter (\<lambda>chunk_idx. chunk_idx * 2 \<in> current_indices \<or>
            (chunk_idx * 2 + 1 < length current_level \<and> chunk_idx * 2 + 1 \<in> current_indices))
          [0..<(length current_level + 1) div 2])"

function multiproof_loop :: "blake3_fn \<Rightarrow> hash32 list \<Rightarrow> nat set \<Rightarrow> bytes set \<Rightarrow> bytes set" where
  "multiproof_loop blake3 current_level current_indices proof_nodes =
     (if length current_level > 1 then
        multiproof_loop blake3 (next_level blake3 current_level)
          (multiproof_parents current_level current_indices)
          (proof_nodes \<union> \<Union> (set (map (multiproof_nodes current_level current_indices)
                                  [0..<(length current_level + 1) div 2])))
      else proof_nodes)"
  by pat_completeness auto
termination
  by (relation "measure (\<lambda>(_, xs, _). length xs)") auto

declare multiproof_loop.simps [simp del]

definition generate_merkle_multiproof :: "blake3_fn \<Rightarrow> bytes list \<Rightarrow> nat list \<Rightarrow> bytes list" where
  "generate_merkle_multiproof blake3 tx_hashes indices =
     (if indices = [] \<or> tx_hashes = [] then []
      else sorted_list_of_set (multiproof_loop blake3 (tx_hashes_to_arrays tx_hashes) (set indices) {}))"

section \<open>Compressed proofs\<close>

record compressed_merkle_proof =
  cp_siblings :: "bytes list"
  cp_flags :: "bool list"

fun position_flags :: "nat \<Rightarrow> bytes list \<Rightarrow> bool list" where
  "position_flags current_index [] = []"
| "position_flags current_index (_ # proof) = even current_index # position_flags (current_index div 2) proof"

definition from_proof :: "bytes \<Rightarrow> nat \<Rightarrow> bytes list \<Rightarrow> compressed_merkle_proof" where
  "from_proof tx_hash index proof = \<lparr>cp_siblings = proof, cp_flags = position_flags index proof\<rparr>"

fun fold_flags :: "blake3_fn \<Rightarrow> hash32 \<Rightarrow> (bytes \<times> bool) list \<Rightarrow> hash32" where
  "fold_flags blake3 current_hash [] = current_hash"
| "fold_flags blake3 current_hash ((sibling_vec, is_right) # rest) =
     fold_flags blake3
       (if sibling_vec \<noteq> [] then
          (let sibling = bytes_to_hash sibling_vec
           in if is_right then hash_node blake3 current_hash sibling
              else hash_node blake3 sibling current_hash)
        else current_hash) rest"

definition cp_verify :: "blake3_fn \<Rightarrow> compressed_merkle_proof \<Rightarrow> bytes \<Rightarrow> nat \<Rightarrow> bytes \<Rightarrow> bool" where
  "cp_verify blake3 p tx_hash index merkle_root =
     (if cp_siblings p = [] \<and> tx_hash = merkle_root then True
      else if length (cp_siblings p) \<noteq> length (cp_flags p) then False
      else hbytes (fold_flags blake3 (bytes_to_hash tx_hash) (zip (cp_siblings p) (cp_flags p))) = merkle_root)"

definition u32_to_le_bytes :: "u32 \<Rightarrow> bytes" where
  "u32_to_le_bytes w = [ucast w, ucast (drop_bit 8 w), ucast (drop_bit 16 w), ucast (drop_bit 24 w)]"

definition u32_from_le_bytes :: "byte \<Rightarrow> byte \<Rightarrow> byte \<Rightarrow> byte \<Rightarrow> u32" where
  "u32_from_le_bytes a b c d =
     ucast a OR push_bit 8 (ucast b) OR push_bit 16 (ucast c) OR push_bit 24 (ucast d)"

text \<open>The flag-packing loop of \<^verbatim>\<open>to_bytes\<close>, with its running byte and bit position.\<close>

fun pack_flags :: "byte \<Rightarrow> nat \<Rightarrow> bool list \<Rightarrow> bytes" where
  "pack_flags flag_byte bit_pos [] = (if bit_pos > 0 then [flag_byte] else [])"
| "pack_flags flag_byte bit_pos (flag # flags) =
     (let flag_byte = (if flag then flag_byte OR push_bit bit_pos 1 else flag_byte);
          bit_pos = bit_pos + 1
      in if bit_pos = 8 then flag_byte # pack_flags 0 0 flags else pack_flags flag_byte bit_pos flags)"

definition cp_to_bytes :: "compressed_merkle_proof \<Rightarrow> bytes" where
  "cp_to_bytes p =
     u32_to_le_bytes (of_nat (length (cp_siblings p))) @ pack_flags 0 0 (cp_flags p) @ concat (cp_siblings p)"

definition cp_from_bytes :: "bytes \<Rightarrow> compressed_merkle_proof option" where
  "cp_from_bytes bs =
     (if length bs < 4 then None
      else
        (let count = unat (u32_from_le_bytes (bs ! 0) (bs ! 1) (bs ! 2) (bs ! 3));
             flag_bytes_needed = (count + 7) div 8
         in if length bs < 4 + flag_bytes_needed + count * 32 then None
            else Some \<lparr>
              cp_siblings = map (\<lambda>i. take 32 (drop (4 + flag_bytes_needed + i * 32) bs)) [0..<count],
              cp_flags = map (\<lambda>i. (bs ! (4 + i div 8)) AND push_bit (i mod 8) 1 \<noteq> 0) [0..<count]\<rparr>))"

end
