(* ===== verification/Merkle_Correct.thy ===== *)
theory Merkle_Correct
  imports Merkle
begin

text \<open>
  Properties of the transaction Merkle tree: generated proofs verify, verified proofs bind the
  transaction up to hash collisions, the compressed format is equivalent and survives its byte
  encoding, and the multiproof of one index carries the ordinary proof's siblings.
\<close>

section \<open>Completeness\<close>

lemma bytes_to_hash_hbytes [simp]: "bytes_to_hash (hbytes h) = h"
  by (simp add: bytes_to_hash_def)

lemma next_level_nth:
  "i < length (next_level blake3 xs) \<Longrightarrow>
     next_level blake3 xs ! i =
       (if 2 * i + 1 < length xs then hash_node blake3 (xs ! (2 * i)) (xs ! (2 * i + 1)) else xs ! (2 * i))"
proof (induction blake3 xs arbitrary: i rule: next_level.induct)
  case (1 blake3 x y rest)
  then show ?case by (cases i) auto
qed auto

text \<open>Walking one level up from index \<open>i\<close>: hashing with the sibling, if there is one.\<close>

lemma next_level_parent:
  assumes "i < length xs" "length xs > 1"
  defines "s \<equiv> (if even i then i + 1 else i - 1)"
  shows "next_level blake3 xs ! (i div 2) =
    (if s < length xs then (if even i then hash_node blake3 (xs ! i) (xs ! s) else hash_node blake3 (xs ! s) (xs ! i))
     else xs ! i)"
proof (cases "even i")
  case True
  then obtain k where "i = 2 * k" by (auto elim: evenE)
  then show ?thesis using assms by (simp add: next_level_nth)
next
  case False
  then obtain k where "i = 2 * k + 1" by (auto elim: oddE)
  then show ?thesis using assms by (simp add: next_level_nth)
qed

lemma fold_path_merkle_path:
  "i < length xs \<Longrightarrow> fold_path blake3 (xs ! i) i (merkle_path blake3 xs i) = compute_merkle_root_arrays blake3 xs"
proof (induction blake3 xs arbitrary: i rule: compute_merkle_root_arrays.induct)
  case (1 blake3 xs)
  show ?case
  proof (cases "length xs > 1")
    case True
    define s where "s = (if even i then i + 1 else i - 1)"
    have i2: "i div 2 < length (next_level blake3 xs)" using 1(2) by simp
    have ne: "xs \<noteq> []" using 1(2) by auto
    have "merkle_path blake3 xs i =
        (if s < length xs then hbytes (xs ! s) else []) # merkle_path blake3 (next_level blake3 xs) (i div 2)"
      using True by (subst merkle_path.simps) (simp add: s_def Let_def)
    then have "fold_path blake3 (xs ! i) i (merkle_path blake3 xs i) =
        fold_path blake3 (next_level blake3 xs ! (i div 2)) (i div 2) (merkle_path blake3 (next_level blake3 xs) (i div 2))"
      using next_level_parent [OF 1(2) True, of blake3] by (simp add: s_def Let_def)
    also have "\<dots> = compute_merkle_root_arrays blake3 (next_level blake3 xs)"
      by (rule 1(1) [OF ne True i2])
    finally show ?thesis using True ne by (subst compute_merkle_root_arrays.simps) simp
  next
    case False
    then have "length xs = 1" "i = 0" using 1(2) by auto
    then show ?thesis
      using 1(2) by (subst compute_merkle_root_arrays.simps, subst merkle_path.simps) auto
  qed
qed

lemma nth_tx_hashes_to_arrays: "i < length txs \<Longrightarrow> tx_hashes_to_arrays txs ! i = bytes_to_hash (txs ! i)"
  and length_tx_hashes_to_arrays [simp]: "length (tx_hashes_to_arrays txs) = length txs"
  by (simp_all add: tx_hashes_to_arrays_def)

lemma generate_merkle_proof_complete:
  assumes "i < length txs"
  shows "verify_merkle_proof blake3 (txs ! i) i (generate_merkle_proof blake3 txs i) (compute_merkle_root blake3 txs)"
proof (cases "length txs = 1")
  case True
  then have "merkle_path blake3 (tx_hashes_to_arrays txs) i = []" by (subst merkle_path.simps) simp
  then show ?thesis
    using True assms by (simp add: verify_merkle_proof_def generate_merkle_proof_def compute_merkle_root_def)
next
  case False
  then show ?thesis
    using fold_path_merkle_path [of i "tx_hashes_to_arrays txs" blake3] assms
    by (simp add: verify_merkle_proof_def generate_merkle_proof_def compute_merkle_root_def nth_tx_hashes_to_arrays)
qed

section \<open>Compressed proofs verify like plain ones\<close>

lemma length_position_flags [simp]: "length (position_flags i pf) = length pf"
  by (induction pf arbitrary: i) auto

lemma fold_flags_position:
  "fold_flags blake3 h (zip pf (position_flags i pf)) = fold_path blake3 h i pf"
  by (induction pf arbitrary: h i) auto

lemma cp_verify_from_proof:
  "cp_verify blake3 (from_proof tx i pf) tx i root = verify_merkle_proof blake3 tx i pf root"
  by (simp add: cp_verify_def from_proof_def verify_merkle_proof_def fold_flags_position)

section \<open>Inclusion proofs as an interface\<close>

text \<open>
  What a client of inclusion proofs relies on: the proof generated for a position verifies at that
  position against the root. Plain and compressed proofs both provide it.
\<close>

locale inclusion_proof =
  fixes generate :: "bytes list \<Rightarrow> nat \<Rightarrow> 'p"
    and verify :: "bytes \<Rightarrow> nat \<Rightarrow> 'p \<Rightarrow> bytes \<Rightarrow> bool"
    and root :: "bytes list \<Rightarrow> bytes"
  assumes complete: "i < length txs \<Longrightarrow> verify (txs ! i) i (generate txs i) (root txs)"
begin

lemma all_verify:
  "set is \<subseteq> {..<length txs} \<Longrightarrow>
     list_all (\<lambda>(tx, i, p). verify tx i p (root txs)) (map (\<lambda>i. (txs ! i, i, generate txs i)) is)"
  by (auto simp: list_all_iff intro: complete)

end

interpretation plain_proof: inclusion_proof "generate_merkle_proof blake3"
  "verify_merkle_proof blake3" "compute_merkle_root blake3" for blake3
  by unfold_locales (rule generate_merkle_proof_complete)

interpretation compressed_proof: inclusion_proof
  "\<lambda>txs i. from_proof (txs ! i) i (generate_merkle_proof blake3 txs i)"
  "\<lambda>tx i p root. cp_verify blake3 p tx i root" "compute_merkle_root blake3" for blake3
  by unfold_locales (simp add: cp_verify_from_proof generate_merkle_proof_complete)

lemma batch_verify_list_all:
  "batch_verify_merkle_proofs blake3 ps root \<longleftrightarrow>
     list_all (\<lambda>(tx, i, p). verify_merkle_proof blake3 tx i p root) ps"
  by (induction blake3 ps root rule: batch_verify_merkle_proofs.induct) auto

section \<open>Binding\<close>

text \<open>The messages hashed while a path is folded.\<close>

fun path_msgs :: "blake3_fn \<Rightarrow> hash32 \<Rightarrow> nat \<Rightarrow> bytes list \<Rightarrow> bytes list" where
  "path_msgs blake3 h i [] = []"
| "path_msgs blake3 h i (s # ss) =
     (if s = [] then path_msgs blake3 h (i div 2) ss
      else
        (let msg = (if even i then node_msg h (bytes_to_hash s) else node_msg (bytes_to_hash s) h)
         in msg # path_msgs blake3 (blake3 msg) (i div 2) ss))"

lemma fold_path_inj:
  assumes "list_all2 (\<lambda>s s'. s = [] \<longleftrightarrow> s' = []) ss ss'"
    and "fold_path blake3 h i ss = fold_path blake3 h' i ss'"
    and "inj_on blake3 (set (path_msgs blake3 h i ss) \<union> set (path_msgs blake3 h' i ss'))"
  shows "h = h'"
  using assms
proof (induction ss ss' arbitrary: h h' i rule: list_all2_induct)
  case (Cons s ss s' ss')
  show ?case
  proof (cases "s = []")
    case True
    then show ?thesis using Cons by simp
  next
    case False
    define msg where "msg = (if even i then node_msg h (bytes_to_hash s) else node_msg (bytes_to_hash s) h)"
    define msg' where "msg' = (if even i then node_msg h' (bytes_to_hash s') else node_msg (bytes_to_hash s') h')"
    have msgs: "path_msgs blake3 h i (s # ss) = msg # path_msgs blake3 (blake3 msg) (i div 2) ss"
      "path_msgs blake3 h' i (s' # ss') = msg' # path_msgs blake3 (blake3 msg') (i div 2) ss'"
      using False Cons.hyps by (simp_all add: msg_def msg'_def Let_def)
    have "blake3 msg = blake3 msg'"
    proof (rule Cons.IH)
      show "fold_path blake3 (blake3 msg) (i div 2) ss = fold_path blake3 (blake3 msg') (i div 2) ss'"
        using Cons.prems(1) Cons.hyps False 
        by (cases "even i") (simp_all add: msg_def msg'_def hash_node_msg Let_def)
      show "inj_on blake3 (set (path_msgs blake3 (blake3 msg) (i div 2) ss) \<union>
          set (path_msgs blake3 (blake3 msg') (i div 2) ss'))"
        by (rule inj_on_subset [OF Cons.prems(2)]) (unfold msgs, auto)
    qed
    moreover have "msg \<in> set (path_msgs blake3 h i (s # ss))" "msg' \<in> set (path_msgs blake3 h' i (s' # ss'))"
      unfolding msgs by simp_all
    ultimately have "msg = msg'" using Cons.prems(2) by (auto dest: inj_onD)
    then show ?thesis by (auto simp: msg_def msg'_def split: if_splits)
  qed
qed simp

section \<open>Multiproofs of one index\<close>

lemma multiproof_parents_single:
  assumes "i < length xs"
  shows "multiproof_parents xs {i} = {i div 2}"
proof -
  have "c * 2 = i \<or> c * 2 + 1 < length xs \<and> c * 2 + 1 = i \<longleftrightarrow> c = i div 2" for c
    using assms by (cases "even i") (auto elim: evenE oddE)
  then show ?thesis using assms by (auto simp: multiproof_parents_def)
qed

lemma multiproof_nodes_single:
  assumes "i < length xs"
  defines "s \<equiv> (if even i then i + 1 else i - 1)"
  shows "multiproof_nodes xs {i} c =
    (if c = i div 2 then {if s < length xs then hbytes (xs ! s) else []} else {})"
proof (cases "even i")
  case True
  then obtain k where "i = 2 * k" by (auto elim: evenE)
  then show ?thesis using assms by (auto simp: multiproof_nodes_def Let_def mult.commute)
next
  case False
  then obtain k where "i = 2 * k + 1" by (auto elim: oddE)
  then show ?thesis using assms by (auto simp: multiproof_nodes_def Let_def mult.commute)
qed

lemma multiproof_loop_single:
  "i < length xs \<Longrightarrow> multiproof_loop blake3 xs {i} P = P \<union> set (merkle_path blake3 xs i)"
proof (induction blake3 xs i arbitrary: P rule: merkle_path.induct)
  case (1 blake3 xs i)
  show ?case
  proof (cases "length xs > 1")
    case True
    define s where "s = (if even i then i + 1 else i - 1)"
    have "i div 2 < (length xs + 1) div 2" using 1(2) by simp
    then have "(\<Union>c \<in> {0..<(length xs + 1) div 2}. multiproof_nodes xs {i} c) =
        {if s < length xs then hbytes (xs ! s) else []}"
      using multiproof_nodes_single [OF 1(2)] by (auto simp: s_def)
    then show ?thesis
      using 1(1) [OF True s_def, of "P \<union> {if s < length xs then hbytes (xs ! s) else []}"] 1(2) True
      by (subst multiproof_loop.simps, subst merkle_path.simps)
        (simp add: multiproof_parents_single [OF 1(2)] s_def [symmetric] Let_def Un_assoc)
  next
    case False
    then show ?thesis by (subst multiproof_loop.simps, subst merkle_path.simps) simp
  qed
qed

section \<open>Byte encoding of compressed proofs\<close>

lemma u32_le_bytes_roundtrip:
  "u32_from_le_bytes (ucast w) (ucast (drop_bit 8 w)) (ucast (drop_bit 16 w)) (ucast (drop_bit 24 w)) = w"
proof (rule bit_word_eqI)
  fix n :: nat assume "n < LENGTH(32)"
  then show "bit (u32_from_le_bytes (ucast w) (ucast (drop_bit 8 w)) (ucast (drop_bit 16 w)) (ucast (drop_bit 24 w))) n = bit w n"
    by (cases "n < 8"; cases "n < 16"; cases "n < 24") (auto simp: u32_from_le_bytes_def bit_simps)
qed

lemma pack_flags_length: "length (pack_flags b p fs) = (p + length fs + 7) div 8" if "p < 8"
  using that
proof (induction b p fs rule: pack_flags.induct)
  case (2 b p f fs)
  then show ?case by (cases "p + 1 = 8") (auto simp: Let_def)
qed auto

text \<open>Bits below the running position stay as they are; the following ones are the flags.\<close>

lemma pack_flags_nth:
  assumes "p < 8" "\<forall>j \<ge> p. \<not> bit b j"
  shows "(j < p \<longrightarrow> bit (pack_flags b p fs ! 0) j = bit b j) \<and>
    (i < length fs \<longrightarrow> bit (pack_flags b p fs ! ((p + i) div 8)) ((p + i) mod 8) = fs ! i)"
  using assms
proof (induction b p fs arbitrary: i j rule: pack_flags.induct)
  case (2 b p f fs)
  define b' where "b' = (if f then b OR push_bit p 1 else b)"
  have b': "bit b' j = (if j = p then f else bit b j)" if "j < 8" for j
    using that 2(4) by (auto simp: b'_def bit_simps)
  have b'': "\<forall>j \<ge> p + 1. \<not> bit b' j"
    using 2(4) by (auto simp: b'_def bit_simps)
  show ?case
  proof (cases "p + 1 = 8")
    case True
    then have eq: "pack_flags b p (f # fs) = b' # pack_flags 0 0 fs" by (simp add: b'_def Let_def)
    have ih: "n < length fs \<longrightarrow> bit (pack_flags 0 0 fs ! (n div 8)) (n mod 8) = fs ! n" for n
      using 2(1) [OF refl refl, of 0 n] True by simp
    have p: "p = 7" using True by simp
    have "(7 + Suc n) div 8 = Suc (n div 8)" "(7 + Suc n) mod 8 = n mod 8" for n :: nat by simp_all
    then have "bit (pack_flags b p (f # fs) ! ((p + i) div 8)) ((p + i) mod 8) = (f # fs) ! i"
      if "i < length (f # fs)"
      using that ih [of "i - 1"] b' [of 7] by (cases i) (simp_all add: eq [unfolded p] p del: pack_flags.simps(2))
    moreover have "bit (pack_flags b p (f # fs) ! 0) j = bit b j" if "j < p"
      unfolding eq using that b' [of j] p by simp
    ultimately show ?thesis by blast
  next
    case False
    then have eq: "pack_flags b p (f # fs) = pack_flags b' (p + 1) fs" by (simp add: b'_def Let_def)
    note ih = 2(2) [OF _ _ False]
    show ?thesis
    proof (intro conjI impI)
      show "bit (pack_flags b p (f # fs) ! 0) j = bit b j" if "j < p"
        using that ih [of b' j 0] 2(3) False b' b'' by (simp add: eq b'_def del: pack_flags.simps(2))
      show "bit (pack_flags b p (f # fs) ! ((p + i) div 8)) ((p + i) mod 8) = (f # fs) ! i"
        if "i < length (f # fs)"
        using that ih [of b' p "i - 1"] 2(3) False b' b'' by (cases i) (auto simp: eq b'_def simp del: pack_flags.simps(2))
    qed
  qed
qed simp

lemma concat_slices:
  "(\<forall>s \<in> set ss. length s = n) \<Longrightarrow> i < length ss \<Longrightarrow> take n (drop (i * n) (concat ss)) = ss ! i"
proof (induction ss arbitrary: i)
  case (Cons s ss)
  then show ?case by (cases i) auto
qed simp

lemma length_concat_const: "(\<forall>s \<in> set ss. length s = n) \<Longrightarrow> length (concat ss) = length ss * n"
  by (induction ss) auto

lemma cp_roundtrip:
  assumes len: "\<forall>s \<in> set (cp_siblings p). length s = 32" and flags: "length (cp_flags p) = length (cp_siblings p)"
    and size: "length (cp_siblings p) < 2 ^ 32"
  shows "cp_from_bytes (cp_to_bytes p) = Some p"
proof -
  let ?n = "length (cp_siblings p)" and ?bs = "cp_to_bytes p"
  define w :: u32 where "w = of_nat ?n"
  have w: "unat w = ?n" using size by (simp add: w_def unat_of_nat take_bit_nat_eq_self)
  have pl: "length (pack_flags 0 0 (cp_flags p)) = (?n + 7) div 8"
    using pack_flags_length [of 0 0 "cp_flags p"] flags by simp
  have cl: "length (concat (cp_siblings p)) = ?n * 32" using length_concat_const [OF len] .
  have bs: "?bs = u32_to_le_bytes w @ pack_flags 0 0 (cp_flags p) @ concat (cp_siblings p)"
    by (simp add: cp_to_bytes_def w_def)
  have l4: "length (u32_to_le_bytes w) = 4" by (simp add: u32_to_le_bytes_def)
  have lbs: "length ?bs = 4 + (?n + 7) div 8 + ?n * 32" unfolding bs by (simp add: l4 pl cl)
  have count: "unat (u32_from_le_bytes (?bs ! 0) (?bs ! 1) (?bs ! 2) (?bs ! 3)) = ?n"
    unfolding bs by (simp add: u32_to_le_bytes_def numeral_2_eq_2 numeral_3_eq_3 u32_le_bytes_roundtrip w)
  have sib: "take 32 (drop (4 + (?n + 7) div 8 + i * 32) ?bs) = cp_siblings p ! i" if "i < ?n" for i
    using concat_slices [OF len that] unfolding bs by (simp add: l4 pl)
  have flag: "((?bs ! (4 + i div 8)) AND push_bit (i mod 8) 1 \<noteq> 0) = cp_flags p ! i" if "i < ?n" for i
  proof -
    have "i div 8 < (?n + 7) div 8" using that by (simp add: div_less_iff_less_mult)
    then have "?bs ! (4 + i div 8) = pack_flags 0 0 (cp_flags p) ! (i div 8)"
      unfolding bs by (simp add: nth_append l4 pl)
    moreover have "bit (pack_flags 0 0 (cp_flags p) ! (i div 8)) (i mod 8) = cp_flags p ! i"
      using pack_flags_nth [of 0 0 0 "cp_flags p" i] that flags by simp
    ultimately show ?thesis by (simp only: byte_masked_zero_iff) simp
  qed
  have "map (\<lambda>i. take 32 (drop (4 + (?n + 7) div 8 + i * 32) ?bs)) [0..<?n] = cp_siblings p"
    by (rule nth_equalityI) (simp_all add: sib)
  moreover have "map (\<lambda>i. (?bs ! (4 + i div 8)) AND push_bit (i mod 8) 1 \<noteq> 0) [0..<?n] = cp_flags p"
    by (rule nth_equalityI) (simp_all only: length_map length_upt flags nth_map_upt flag, simp_all add: flag)
  ultimately show ?thesis
    unfolding cp_from_bytes_def Let_def count using lbs by simp
qed

lemma generate_merkle_proof_Nil_iff:
  "i < length txs \<Longrightarrow> generate_merkle_proof blake3 txs i = [] \<longleftrightarrow> length txs = 1"
  unfolding generate_merkle_proof_def by (subst merkle_path.simps) (auto simp: Let_def)

section \<open>Properties\<close>

text \<open>
  C9: the proof generated for a transaction verifies at its index against the block's root, for
  every list of transaction hashes and every index in range, and so does the whole batch of proofs
  for any indices in range; the compressed form of a proof verifies exactly when the plain form does.
\<close>

theorem merkle_proofs_complete:
  assumes "set is \<subseteq> {..<length txs}"
  shows "batch_verify_merkle_proofs blake3 (map (\<lambda>i. (txs ! i, i, generate_merkle_proof blake3 txs i)) is)
      (compute_merkle_root blake3 txs) \<and>
    list_all (\<lambda>i. cp_verify blake3 (from_proof (txs ! i) i (generate_merkle_proof blake3 txs i)) (txs ! i) i
      (compute_merkle_root blake3 txs)) is"
  using plain_proof.all_verify [OF assms, of blake3] compressed_proof.all_verify [OF assms, of blake3]
  by (simp add: batch_verify_list_all list_all_iff)

theorem merkle_proofs_complete_witness:
  "batch_verify_merkle_proofs (\<lambda>_. zero_hash)
     (map (\<lambda>i. ([[1], [2], [3]] ! i, i, generate_merkle_proof (\<lambda>_. zero_hash) [[1], [2], [3]] i)) [2, 0])
     (compute_merkle_root (\<lambda>_. zero_hash) [[1], [2], [3]])"
  by (rule merkle_proofs_complete [THEN conjunct1]) simp

text \<open>
  C10: inclusion proofs bind the transaction. A 32-byte hash that verifies at index \<open>i\<close> with a proof
  of the shape of the honest one (as many levels, the same levels passed through) is the i-th
  transaction hash of the block, unless BLAKE3 collides on the messages of the two paths. The shape
  hypothesis is needed: the verifier knows neither the tree's size nor its depth.
\<close>

theorem merkle_proof_binding:
  assumes "verify_merkle_proof blake3 tx_hash i pf (compute_merkle_root blake3 txs)"
    and "i < length txs" "length tx_hash = 32" "length (txs ! i) = 32"
    and "map (\<lambda>s. s = []) pf = map (\<lambda>s. s = []) (generate_merkle_proof blake3 txs i)"
    and "inj_on blake3 (set (path_msgs blake3 (bytes_to_hash tx_hash) i pf) \<union>
      set (path_msgs blake3 (bytes_to_hash (txs ! i)) i (generate_merkle_proof blake3 txs i)))"
  shows "tx_hash = txs ! i"
proof (cases "pf = [] \<and> tx_hash = compute_merkle_root blake3 txs")
  case True
  then have "length txs = 1"
    using assms(2,5) by (simp add: generate_merkle_proof_Nil_iff)
  then show ?thesis using True assms(2) by (simp add: compute_merkle_root_def)
next
  case False
  have shape: "list_all2 (\<lambda>s s'. s = [] \<longleftrightarrow> s' = []) pf (generate_merkle_proof blake3 txs i)"
    using assms(5) [folded list.rel_eq] by (simp add: list_all2_map1 list_all2_map2)
  have "hbytes (fold_path blake3 (bytes_to_hash tx_hash) i pf) = compute_merkle_root blake3 txs"
    using assms(1) False by (simp add: verify_merkle_proof_def split: if_splits)
  moreover have "hbytes (fold_path blake3 (bytes_to_hash (txs ! i)) i (generate_merkle_proof blake3 txs i)) =
      compute_merkle_root blake3 txs"
  proof (cases "length txs = 1")
    case True
    then have "generate_merkle_proof blake3 txs i = []"
      using assms(2) by (simp add: generate_merkle_proof_Nil_iff)
    then show ?thesis using True assms(2,4) by (simp add: compute_merkle_root_def bytes_to_hash_def)
  next
    case False
    then show ?thesis
      using fold_path_merkle_path [of i "tx_hashes_to_arrays txs" blake3] assms(2)
      by (simp add: generate_merkle_proof_def compute_merkle_root_def nth_tx_hashes_to_arrays)
  qed
  ultimately have "fold_path blake3 (bytes_to_hash tx_hash) i pf =
      fold_path blake3 (bytes_to_hash (txs ! i)) i (generate_merkle_proof blake3 txs i)"
    by (intro hash32_eqI) simp
  then have "bytes_to_hash tx_hash = bytes_to_hash (txs ! i)"
    by (rule fold_path_inj [OF shape _ assms(6)])
  then show ?thesis using assms(3,4) by (simp add: bytes_to_hash_def Hash32_eq_iff)
qed

text \<open>A hash that keeps the first bytes of its message, for the example.\<close>

definition prefix_hash :: blake3_fn where
  "prefix_hash bs = Hash32 (take 32 (bs @ replicate 32 0))"

theorem merkle_proof_binding_witness:
  "verify_merkle_proof prefix_hash (replicate 32 7) 1 [replicate 32 5]
     (compute_merkle_root prefix_hash [replicate 32 5, replicate 32 7]) \<and>
   replicate 32 (7 :: byte) = [replicate 32 5, replicate 32 7] ! 1"
proof -
  let ?txs = "[replicate 32 (5 :: byte), replicate 32 7]"
  have gen: "generate_merkle_proof prefix_hash ?txs 1 = [replicate 32 5]"
    by (simp add: generate_merkle_proof_def tx_hashes_to_arrays_def bytes_to_hash_def)
      (subst merkle_path.simps, simp, subst merkle_path.simps, simp)
  have v: "verify_merkle_proof prefix_hash (replicate 32 7) 1 [replicate 32 5] (compute_merkle_root prefix_hash ?txs)"
    using generate_merkle_proof_complete [of 1 ?txs prefix_hash, unfolded gen] by simp
  have "replicate 32 (7 :: byte) = ?txs ! 1"
    by (rule merkle_proof_binding [OF v]) (simp_all only: gen, simp_all)
  with v show ?thesis by blast
qed

text \<open>
  C11: compressed proofs survive the wire format. A proof with one flag per sibling, all siblings 32
  bytes long and fewer than 2 to the 32 of them, decodes from its encoding to itself.
\<close>

theorem compressed_proof_roundtrip:
  assumes "list_all (\<lambda>s. length s = 32) (cp_siblings p)" "length (cp_flags p) = length (cp_siblings p)"
    and "length (cp_siblings p) < 2 ^ 32"
  shows "cp_from_bytes (cp_to_bytes p) = Some p"
  using assms by (intro cp_roundtrip) (simp_all add: list_all_iff)

theorem compressed_proof_roundtrip_witness:
  "cp_from_bytes (cp_to_bytes \<lparr>cp_siblings = [replicate 32 1, replicate 32 2], cp_flags = [True, False]\<rparr>) =
     Some \<lparr>cp_siblings = [replicate 32 1, replicate 32 2], cp_flags = [True, False]\<rparr>"
  by (rule compressed_proof_roundtrip) simp_all

text \<open>
  The multiproof for one index carries exactly the siblings of the ordinary proof, as a sorted
  set: same members, no duplicates.
\<close>

theorem multiproof_single_index:
  assumes "i < length txs"
  shows "set (generate_merkle_multiproof blake3 txs [i]) = set (generate_merkle_proof blake3 txs i) \<and>
    sorted_wrt (<) (generate_merkle_multiproof blake3 txs [i])"
proof -
  have "txs \<noteq> []" using assms by auto
  then have "generate_merkle_multiproof blake3 txs [i] =
      sorted_list_of_set (set (generate_merkle_proof blake3 txs i))"
    using multiproof_loop_single [of i "tx_hashes_to_arrays txs" blake3 "{}"] assms
    by (simp add: generate_merkle_multiproof_def generate_merkle_proof_def)
  then show ?thesis by simp
qed

theorem multiproof_single_index_witness:
  "set (generate_merkle_multiproof prefix_hash [[1], [2], [3]] [2]) =
     set (generate_merkle_proof prefix_hash [[1], [2], [3]] 2)"
  using multiproof_single_index [of 2 "[[1], [2], [3]]" prefix_hash] by simp

end
