(* ===== verification/Gas.thy ===== *)
theory Gas
  imports Kanari_Prelude "HOL-Library.Signed_Division"
begin

text \<open>
  The gas models of \<^verbatim>\<open>crates/kanari-types/src/gas\<close>: the pricing policies v1, v2, v3 and v3.1 (the
  selected one), the configuration, the gas meter and the per-transaction gas record. Arithmetic is
  the release build's: checked and saturating where the code says so, wrapping otherwise. The
  floating-point display fields are left out.
\<close>

section \<open>Pricing policies\<close>

definition effective_gas_price_v1 :: "u64 \<Rightarrow> u64" where
  "effective_gas_price_v1 requested = requested"

definition gas_price_is_valid_v1 :: "u64 \<Rightarrow> bool" where
  "gas_price_is_valid_v1 requested \<longleftrightarrow> requested > 0"

definition ZERO_GAS_PRICE :: u64 where
  "ZERO_GAS_PRICE = 0"

definition effective_gas_price_v2 :: "u64 \<Rightarrow> u64" where
  "effective_gas_price_v2 requested = ZERO_GAS_PRICE"

definition gas_price_is_valid_v2 :: "u64 \<Rightarrow> bool" where
  "gas_price_is_valid_v2 requested \<longleftrightarrow> True"

definition V3_PRICE_DISCOUNT :: u64 where
  "V3_PRICE_DISCOUNT = 10"

definition effective_gas_price_v3 :: "u64 \<Rightarrow> u64" where
  "effective_gas_price_v3 requested =
     (if requested = 0 then 0 else max (requested div V3_PRICE_DISCOUNT) 1)"

definition gas_price_is_valid_v3 :: "u64 \<Rightarrow> bool" where
  "gas_price_is_valid_v3 requested \<longleftrightarrow> requested > 0"

definition V3_1_PRICE_DISCOUNT :: u64 where
  "V3_1_PRICE_DISCOUNT = 5"

definition effective_gas_price_v3_1 :: "u64 \<Rightarrow> u64" where
  "effective_gas_price_v3_1 requested =
     (if requested = 0 then 0 else max (requested div V3_1_PRICE_DISCOUNT) 1)"

definition gas_price_is_valid_v3_1 :: "u64 \<Rightarrow> bool" where
  "gas_price_is_valid_v3_1 requested \<longleftrightarrow> requested > 0"

text \<open>\<^verbatim>\<open>select_gas_impl!(v3_1)\<close>: the names the other crates import.\<close>

definition effective_gas_price :: "u64 \<Rightarrow> u64" where
  "effective_gas_price = effective_gas_price_v3_1"

definition gas_price_is_valid :: "u64 \<Rightarrow> bool" where
  "gas_price_is_valid = gas_price_is_valid_v3_1"

section \<open>Configuration, operations and errors\<close>

datatype gas_error =
    OutOfGas u64 u64
  | InsufficientGasBalance u64 u64
  | PriceTooLow u64 u64
  | GasOverflow

record gas_config =
  base_price :: u64
  max_gas_per_tx :: u64
  max_gas_per_block :: u64
  min_gas_price :: u64
  storage_price_per_byte :: u64
  storage_rebate_rate :: u8

definition default_transaction_gas_limit :: "gas_config \<Rightarrow> u64" where
  "default_transaction_gas_limit c = max_gas_per_tx c"

definition default_transaction_gas_price :: "gas_config \<Rightarrow> u64" where
  "default_transaction_gas_price c = max (base_price c) (min_gas_price c)"

definition validate_price :: "gas_config \<Rightarrow> u64 \<Rightarrow> gas_error + unit" where
  "validate_price c gas_price =
     (if gas_price < min_gas_price c then Inl (PriceTooLow gas_price (min_gas_price c)) else Inr ())"

definition gas_config_default :: gas_config where
  "gas_config_default = \<lparr>base_price = 1, max_gas_per_tx = 100000, max_gas_per_block = 1000000,
     min_gas_price = 1, storage_price_per_byte = 1, storage_rebate_rate = 99\<rparr>"

datatype gas_operation =
    Transfer
  | PublishModule u64
  | ExecuteFunction u32
  | CreateAccount
  | UpdateAccount

primrec gas_units :: "gas_operation \<Rightarrow> u64" where
  "gas_units Transfer = 100"
| "gas_units (PublishModule module_size) = 500 + module_size"
| "gas_units (ExecuteFunction complexity) = 200 + ucast complexity * 10"
| "gas_units CreateAccount = 150"
| "gas_units UpdateAccount = 50"

primrec gas_operation_name :: "gas_operation \<Rightarrow> string" where
  "gas_operation_name Transfer = ''Transfer''"
| "gas_operation_name (PublishModule _) = ''PublishModule''"
| "gas_operation_name (ExecuteFunction _) = ''ExecuteFunction''"
| "gas_operation_name CreateAccount = ''CreateAccount''"
| "gas_operation_name UpdateAccount = ''UpdateAccount''"

section \<open>The gas meter\<close>

record gas_meter =
  gm_gas_used :: u64
  gm_gas_price :: u64
  gm_gas_limit :: u64
  gm_storage_bytes_written :: u64
  gm_storage_bytes_deleted :: u64

definition gas_meter_new :: "u64 \<Rightarrow> u64 \<Rightarrow> gas_meter" where
  "gas_meter_new gas_limit gas_price = \<lparr>gm_gas_used = 0, gm_gas_price = gas_price, gm_gas_limit = gas_limit,
     gm_storage_bytes_written = 0, gm_storage_bytes_deleted = 0\<rparr>"

definition charge_storage :: "u64 \<Rightarrow> gas_meter \<Rightarrow> gas_error + gas_meter" where
  "charge_storage bytes m =
     (case checked_add (gm_storage_bytes_written m) bytes of
        None \<Rightarrow> Inl GasOverflow
      | Some w \<Rightarrow> Inr (m\<lparr>gm_storage_bytes_written := w\<rparr>))"

definition rebate_storage :: "u64 \<Rightarrow> gas_meter \<Rightarrow> gas_meter" where
  "rebate_storage bytes m =
     m\<lparr>gm_storage_bytes_deleted := saturating_add (gm_storage_bytes_deleted m) bytes\<rparr>"

text \<open>Arithmetic on \<^verbatim>\<open>i128\<close>, wrapping; division truncates towards zero.\<close>

definition i128 :: "int \<Rightarrow> int" where
  "i128 x = sint (word_of_int x :: 128 word)"

definition net_storage_fee :: "gas_config \<Rightarrow> gas_meter \<Rightarrow> int" where
  "net_storage_fee config m =
     (let price = uint (storage_price_per_byte config);
          cost = i128 (uint (gm_storage_bytes_written m) * price);
          rebate = i128 (i128 (uint (gm_storage_bytes_deleted m) * price) * uint (storage_rebate_rate config)) sdiv 100
      in min (max (i128 (cost - rebate)) (- (2 ^ 63))) (2 ^ 63 - 1))"

definition consume :: "u64 \<Rightarrow> gas_meter \<Rightarrow> gas_error + gas_meter" where
  "consume units m =
     (case checked_add (gm_gas_used m) units of
        None \<Rightarrow> Inl GasOverflow
      | Some new_usage \<Rightarrow>
          if new_usage > gm_gas_limit m then Inl (OutOfGas new_usage (gm_gas_limit m))
          else Inr (m\<lparr>gm_gas_used := new_usage\<rparr>))"

definition gas_total_cost :: "gas_meter \<Rightarrow> u64" where
  "gas_total_cost m = saturating_mul (gm_gas_used m) (gm_gas_price m)"

definition gas_remaining :: "gas_meter \<Rightarrow> u64" where
  "gas_remaining m = saturating_sub (gm_gas_limit m) (gm_gas_used m)"

definition has_enough :: "u64 \<Rightarrow> gas_meter \<Rightarrow> bool" where
  "has_enough units m \<longleftrightarrow> gas_remaining m \<ge> units"

section \<open>Estimates and transaction gas\<close>

record gas_estimate =
  ge_gas_units :: u64
  ge_gas_price :: u64
  ge_total_cost_mist :: u64

definition gas_estimate_new :: "u64 \<Rightarrow> u64 \<Rightarrow> gas_estimate" where
  "gas_estimate_new units gas_price =
     \<lparr>ge_gas_units = units, ge_gas_price = gas_price, ge_total_cost_mist = saturating_mul units gas_price\<rparr>"

definition gas_estimate_from_operation :: "gas_operation \<Rightarrow> u64 \<Rightarrow> gas_estimate" where
  "gas_estimate_from_operation operation gas_price = gas_estimate_new (gas_units operation) gas_price"

record transaction_gas =
  tg_gas_limit :: u64
  tg_gas_price :: u64
  tg_gas_used :: u64
  tg_gas_refund :: u64

definition transaction_gas_new :: "u64 \<Rightarrow> u64 \<Rightarrow> transaction_gas" where
  "transaction_gas_new gas_limit gas_price =
     \<lparr>tg_gas_limit = gas_limit, tg_gas_price = gas_price, tg_gas_used = 0, tg_gas_refund = 0\<rparr>"

definition tg_total_cost :: "transaction_gas \<Rightarrow> u64" where
  "tg_total_cost g = saturating_mul (tg_gas_used g) (tg_gas_price g)"

definition tg_refund_amount :: "transaction_gas \<Rightarrow> u64" where
  "tg_refund_amount g = saturating_mul (tg_gas_refund g) (tg_gas_price g)"

definition tg_net_cost :: "transaction_gas \<Rightarrow> u64" where
  "tg_net_cost g = saturating_sub (tg_total_cost g) (tg_refund_amount g)"

section \<open>The contract of a pricing policy\<close>

lemma saturating_mul_mono: "b \<le> c \<Longrightarrow> saturating_mul a b \<le> saturating_mul a c"
  by (simp add: word_le_nat_alt unat_saturating_mul) (meson min.coboundedI1 mult_le_mono2 order_refl)

lemma saturating_mul_pos: "0 < a \<Longrightarrow> 0 < b \<Longrightarrow> 0 < saturating_mul a b" for a :: u64
  by (simp add: word_less_nat_alt unat_saturating_mul)

text \<open>
  A policy never charges above the requested price and is monotone; a priced policy moreover never
  turns a price it accepts into zero. The zero-fee policy v2 is only the former.
\<close>

locale gas_discount =
  fixes effective :: "u64 \<Rightarrow> u64"
  assumes effective_le: "effective p \<le> p"
    and effective_mono: "p \<le> q \<Longrightarrow> effective p \<le> effective q"
begin

lemma cost_le: "saturating_mul used (effective p) \<le> saturating_mul used p"
  by (rule saturating_mul_mono) (rule effective_le)

lemma cost_mono: "p \<le> q \<Longrightarrow> saturating_mul used (effective p) \<le> saturating_mul used (effective q)"
  by (rule saturating_mul_mono) (rule effective_mono)

end

locale priced_gas = gas_discount +
  fixes valid :: "u64 \<Rightarrow> bool"
  assumes valid_charged: "valid p \<Longrightarrow> 0 < effective p"
begin

lemma cost_pos: "valid p \<Longrightarrow> 0 < used \<Longrightarrow> 0 < saturating_mul used (effective p)"
  by (simp add: saturating_mul_pos valid_charged)

end

lemma discounted_price:
  fixes requested d :: u64
  assumes "0 < d"
  defines "eff \<equiv> \<lambda>r. if r = 0 then 0 else max (r div d) 1"
  shows "eff requested \<le> requested" "requested \<le> q \<Longrightarrow> eff requested \<le> eff q" "0 < requested \<Longrightarrow> 0 < eff requested"
proof -
  have le: "r div d \<le> r" for r :: u64
    by (simp add: word_le_nat_alt unat_div_distrib)
  have mono: "r div d \<le> q div d" if "r \<le> q" for r q :: u64
    using that by (simp add: word_le_nat_alt unat_div_distrib div_le_mono)
  have pos: "1 \<le> r" if "r \<noteq> 0" for r :: u64
    using that by (simp add: word_le_nat_alt unat_gt_0 Suc_leI)
  show "eff requested \<le> requested" using le pos by (auto simp: eff_def)
  show "eff requested \<le> eff q" if "requested \<le> q" using that mono [OF that] by (auto simp: eff_def max_def)
  show "0 < eff requested" if "0 < requested" using that by (auto simp: eff_def max_def word_less_nat_alt word_le_nat_alt)
qed

lemma discount_pos: "0 < V3_PRICE_DISCOUNT" "0 < V3_1_PRICE_DISCOUNT"
  by (simp_all add: V3_PRICE_DISCOUNT_def V3_1_PRICE_DISCOUNT_def)

interpretation gas_v1: priced_gas effective_gas_price_v1 gas_price_is_valid_v1
  by unfold_locales (simp_all add: effective_gas_price_v1_def gas_price_is_valid_v1_def)

interpretation gas_v2: gas_discount effective_gas_price_v2
  by unfold_locales (simp_all add: effective_gas_price_v2_def ZERO_GAS_PRICE_def)

interpretation gas_v3: priced_gas effective_gas_price_v3 gas_price_is_valid_v3
  unfolding effective_gas_price_v3_def [abs_def] gas_price_is_valid_v3_def [abs_def]
  by unfold_locales (simp_all only: discounted_price [OF discount_pos(1)])

interpretation gas_v3_1: priced_gas effective_gas_price_v3_1 gas_price_is_valid_v3_1
  unfolding effective_gas_price_v3_1_def [abs_def] gas_price_is_valid_v3_1_def [abs_def]
  by unfold_locales (simp_all only: discounted_price [OF discount_pos(2)])

section \<open>The meter as a state machine\<close>

text \<open>
  The meters an execution can reach, with the number of gas units it has accepted. A failing
  operation returns before it writes, so it leaves the meter as it is.
\<close>

inductive meter_reach :: "u64 \<Rightarrow> u64 \<Rightarrow> gas_meter \<Rightarrow> nat \<Rightarrow> bool" for limit price where
  new: "meter_reach limit price (gas_meter_new limit price) 0"
| used: "meter_reach limit price m n \<Longrightarrow> consume units m = Inr m' \<Longrightarrow> meter_reach limit price m' (n + unat units)"
| written: "meter_reach limit price m n \<Longrightarrow> charge_storage bytes m = Inr m' \<Longrightarrow> meter_reach limit price m' n"
| deleted: "meter_reach limit price m n \<Longrightarrow> meter_reach limit price (rebate_storage bytes m) n"

lemma consume_Inr_iff:
  "consume units m = Inr m' \<longleftrightarrow>
     unat (gm_gas_used m) + unat units \<le> unat (gm_gas_limit m) \<and>
     m' = m\<lparr>gm_gas_used := gm_gas_used m + units\<rparr>"
proof -
  have "unat (gm_gas_limit m) < 2 ^ 64" using unat_lt_size [of "gm_gas_limit m"] by simp
  then show ?thesis
    by (auto simp: consume_def checked_add_def word_le_nat_alt word_less_nat_alt unat_add_no_wrap not_less)
qed

lemma charge_storage_Inr:
  "charge_storage bytes m = Inr m' \<Longrightarrow> \<exists>w. m' = m\<lparr>gm_storage_bytes_written := w\<rparr>"
  by (auto simp: charge_storage_def split: option.splits)

lemma meter_reach_inv:
  "meter_reach limit price m n \<Longrightarrow>
     unat (gm_gas_used m) = n \<and> n \<le> unat limit \<and> gm_gas_limit m = limit \<and> gm_gas_price m = price"
proof (induction rule: meter_reach.induct)
  case new
  then show ?case by (simp add: gas_meter_new_def)
next
  case (used m n units m')
  moreover have "unat limit < 2 ^ 64" using unat_lt_size [of limit] by simp
  ultimately show ?case by (auto simp: consume_Inr_iff unat_add_no_wrap)
next
  case (written m n bytes m')
  then show ?case by (auto dest!: charge_storage_Inr)
next
  case (deleted m n bytes)
  then show ?case by (simp add: rebate_storage_def)
qed

lemma has_enough_iff:
  "gm_gas_used m \<le> gm_gas_limit m \<Longrightarrow>
     has_enough units m \<longleftrightarrow> unat (gm_gas_used m) + unat units \<le> unat (gm_gas_limit m)"
  by (auto simp: has_enough_def gas_remaining_def word_le_nat_alt unat_saturating_sub)

section \<open>Storage fees\<close>

lemma i128_exact: "- (2 ^ 127) \<le> x \<Longrightarrow> x < 2 ^ 127 \<Longrightarrow> i128 x = x"
  unfolding i128_def by (simp add: sint_sbintrunc' signed_take_bit_int_eq_self)

lemma sdiv_pos: "0 \<le> a \<Longrightarrow> 0 < b \<Longrightarrow> a sdiv b = a div b" for a b :: int
  by (simp add: signed_divide_int_def sgn_if)

section \<open>Properties\<close>

text \<open>
  C12: the selected gas model charges. For every price it accepts, a transaction that uses gas pays a
  positive amount, never more than the undiscounted v1 price, and the amount grows with the price.
\<close>

theorem active_gas_model_priced:
  assumes "gas_price_is_valid p" "p \<le> q"
  shows "(0 < used \<longrightarrow> 0 < saturating_mul used (effective_gas_price p)) \<and>
    saturating_mul used (effective_gas_price p) \<le> saturating_mul used (effective_gas_price_v1 p) \<and>
    saturating_mul used (effective_gas_price p) \<le> saturating_mul used (effective_gas_price q) \<and>
    unat (effective_gas_price p) = max (unat p div 5) 1"
proof -
  have "p \<noteq> 0" using assms(1) by (auto simp: gas_price_is_valid_def gas_price_is_valid_v3_1_def)
  then have "unat (effective_gas_price p) = max (unat p div 5) 1"
    by (simp add: effective_gas_price_def effective_gas_price_v3_1_def V3_1_PRICE_DISCOUNT_def max_def
        word_le_nat_alt unat_div_distrib)
  then show ?thesis
    using gas_v3_1.cost_pos [of p used] gas_v3_1.cost_le [of used p] gas_v3_1.cost_mono [OF assms(2), of used] assms(1)
    by (simp add: effective_gas_price_def gas_price_is_valid_def effective_gas_price_v1_def)
qed

theorem active_gas_model_priced_witness:
  "0 < saturating_mul (10 :: u64) (effective_gas_price 3) \<and> unat (effective_gas_price 3) = 1"
  using active_gas_model_priced [of 3 7 10] by (simp add: gas_price_is_valid_def gas_price_is_valid_v3_1_def)

text \<open>
  C13: gas metering is exact. In every meter an execution can reach, the gas used is the sum of the
  units it accepted and never exceeds the limit; the limit and the price never change; an operation
  is accepted exactly when \<^verbatim>\<open>has_enough\<close> says so, and otherwise fails with out-of-gas or overflow.
\<close>

theorem gas_meter_exact:
  assumes "meter_reach limit price m n"
  shows "unat (gm_gas_used m) = n \<and> n \<le> unat limit \<and> gm_gas_limit m = limit \<and> gm_gas_price m = price \<and>
    unat (gas_remaining m) = unat limit - n \<and>
    (has_enough units m \<longleftrightarrow> consume units m = Inr (m\<lparr>gm_gas_used := gm_gas_used m + units\<rparr>)) \<and>
    (\<not> has_enough units m \<longleftrightarrow> consume units m = Inl GasOverflow \<or>
       consume units m = Inl (OutOfGas (gm_gas_used m + units) limit))"
proof -
  note inv = meter_reach_inv [OF assms]
  then have le: "gm_gas_used m \<le> gm_gas_limit m" by (simp add: word_le_nat_alt)
  have iff: "has_enough units m \<longleftrightarrow> consume units m = Inr (m\<lparr>gm_gas_used := gm_gas_used m + units\<rparr>)"
    using has_enough_iff [OF le] by (simp add: consume_Inr_iff)
  have "consume units m = Inl GasOverflow \<or> consume units m = Inl (OutOfGas (gm_gas_used m + units) limit) \<or>
      (\<exists>m'. consume units m = Inr m')"
    using inv by (auto simp: consume_def checked_add_def)
  then have "\<not> has_enough units m \<longleftrightarrow> consume units m = Inl GasOverflow \<or>
       consume units m = Inl (OutOfGas (gm_gas_used m + units) limit)"
    using iff consume_Inr_iff [of units m] by fastforce
  then show ?thesis using inv iff by (simp add: gas_remaining_def unat_saturating_sub)
qed

theorem gas_meter_exact_witness:
  "\<exists>m. meter_reach 100 1 m 40 \<and> unat (gas_remaining m) = 60 \<and> \<not> has_enough 61 m"
proof -
  define m where "m = (gas_meter_new 100 1)\<lparr>gm_gas_used := 40\<rparr>"
  have "consume 40 (gas_meter_new 100 1) = Inr m"
    by (simp add: consume_Inr_iff gas_meter_new_def m_def)
  from meter_reach.used [OF meter_reach.new this] have r: "meter_reach 100 1 m 40" by simp
  moreover have "\<not> has_enough 61 m" by (simp add: has_enough_iff m_def gas_meter_new_def)
  ultimately show ?thesis using gas_meter_exact [OF r, of 61] by (intro exI [of _ m]) simp
qed

text \<open>
  The net storage fee is exact as long as the products fit the 128-bit intermediates: bytes
  written times the price, minus the rebate rounded down, clamped to 64 bits. It is non-negative when
  no more was deleted than written and the rebate rate is at most 100 percent.
\<close>

theorem net_storage_fee_exact:
  assumes "uint (gm_storage_bytes_written m) * uint (storage_price_per_byte c) < 2 ^ 127"
    and "uint (gm_storage_bytes_deleted m) * uint (storage_price_per_byte c) * uint (storage_rebate_rate c) < 2 ^ 127"
    and "uint (gm_storage_bytes_deleted m) * uint (storage_price_per_byte c) < 2 ^ 127"
  defines "cost \<equiv> uint (gm_storage_bytes_written m) * uint (storage_price_per_byte c)"
    and "rebate \<equiv> uint (gm_storage_bytes_deleted m) * uint (storage_price_per_byte c) * uint (storage_rebate_rate c) div 100"
  shows "net_storage_fee c m = min (max (cost - rebate) (- (2 ^ 63))) (2 ^ 63 - 1) \<and>
    (gm_storage_bytes_deleted m \<le> gm_storage_bytes_written m \<and> storage_rebate_rate c \<le> 100 \<longrightarrow>
       0 \<le> net_storage_fee c m)"
proof -
  let ?w = "uint (gm_storage_bytes_written m)" and ?d = "uint (gm_storage_bytes_deleted m)"
  let ?p = "uint (storage_price_per_byte c)" and ?r = "uint (storage_rebate_rate c)"
  have nn: "0 \<le> ?w * ?p" "0 \<le> ?d * ?p" "0 \<le> ?d * ?p * ?r" by simp_all
  have "0 \<le> rebate" "rebate \<le> ?d * ?p * ?r" 
    using nn(3) unfolding rebate_def by linarith+
  then have fits: "- (2 ^ 127) \<le> cost - rebate" "cost - rebate < 2 ^ 127"
    using assms(1,2) nn(1) unfolding cost_def by linarith+
  have fee: "net_storage_fee c m = min (max (cost - rebate) (- (2 ^ 63))) (2 ^ 63 - 1)"
    using i128_exact [of "?w * ?p"] i128_exact [of "?d * ?p"] i128_exact [of "?d * ?p * ?r"] i128_exact [OF fits] nn assms(1-3)
    by (simp add: net_storage_fee_def Let_def sdiv_pos cost_def rebate_def)
  have "rebate \<le> cost" if "gm_storage_bytes_deleted m \<le> gm_storage_bytes_written m" "storage_rebate_rate c \<le> 100"
  proof -
    have "?r \<le> 100" "?d \<le> ?w" using that by (simp_all add: word_le_def)
    then have "?d * ?p * ?r \<le> ?d * ?p * 100" "?d * ?p \<le> ?w * ?p"
      by (simp_all add: mult_left_mono mult_right_mono)
    then show ?thesis unfolding rebate_def cost_def by linarith
  qed
  then show ?thesis using fee by auto
qed

theorem net_storage_fee_exact_witness:
  "net_storage_fee gas_config_default
     \<lparr>gm_gas_used = 0, gm_gas_price = 1, gm_gas_limit = 9, gm_storage_bytes_written = 300,
      gm_storage_bytes_deleted = 101\<rparr> = 201"
  using net_storage_fee_exact [of "\<lparr>gm_gas_used = 0, gm_gas_price = 1, gm_gas_limit = 9,
      gm_storage_bytes_written = 300, gm_storage_bytes_deleted = 101\<rparr>" gas_config_default]
  by (simp add: gas_config_default_def)

end
