(* ===== verification/Coin.thy ===== *)
theory Coin
  imports Kanari_Prelude
begin

text \<open>
  Balances, coins and the treasury capability of \<^verbatim>\<open>crates/kanari-types/src\<close> (\<^verbatim>\<open>balance.rs\<close>,
  \<^verbatim>\<open>coin.rs\<close>, \<^verbatim>\<open>collection.rs\<close>). A method on \<^verbatim>\<open>&mut self\<close> returns the updated record; a failed
  \<^verbatim>\<open>assert!\<close> or \<^verbatim>\<open>expect\<close> is \<open>None\<close>; \<^verbatim>\<open>+\<close> wraps as in the release build. Object ids are an
  opaque type \<open>'u\<close>.
\<close>

section \<open>Balances\<close>

datatype balance_error = BalanceOverflow | InsufficientBalance

record balance_record =
  bal_value :: u64

definition balance_new :: "u64 \<Rightarrow> balance_record" where
  "balance_new v = \<lparr>bal_value = v\<rparr>"

definition balance_zero :: balance_record where
  "balance_zero = \<lparr>bal_value = 0\<rparr>"

definition is_sufficient :: "u64 \<Rightarrow> balance_record \<Rightarrow> bool" where
  "is_sufficient amount b \<longleftrightarrow> bal_value b \<ge> amount"

definition increase :: "u64 \<Rightarrow> balance_record \<Rightarrow> balance_error + balance_record" where
  "increase amount b =
     (case checked_add (bal_value b) amount of
        None \<Rightarrow> Inl BalanceOverflow
      | Some v \<Rightarrow> Inr (b\<lparr>bal_value := v\<rparr>))"

definition decrease :: "u64 \<Rightarrow> balance_record \<Rightarrow> balance_error + balance_record" where
  "decrease amount b =
     (if bal_value b < amount then Inl InsufficientBalance
      else Inr (b\<lparr>bal_value := bal_value b - amount\<rparr>))"

text \<open>\<^verbatim>\<open>transfer\<close> updates both records in place: the result, then \<^verbatim>\<open>self\<close> and \<^verbatim>\<open>to\<close> as the
  call leaves them.\<close>

definition balance_transfer ::
  "u64 \<Rightarrow> balance_record \<Rightarrow> balance_record \<Rightarrow> (balance_error + unit) \<times> balance_record \<times> balance_record" where
  "balance_transfer amount self to =
     (case decrease amount self of
        Inl e \<Rightarrow> (Inl e, self, to)
      | Inr self \<Rightarrow>
          (case increase amount to of
             Inl e \<Rightarrow> (Inl e, self, to)
           | Inr to \<Rightarrow> (Inr (), self, to)))"

definition balance_merge :: "balance_record \<Rightarrow> balance_record \<Rightarrow> balance_record" where
  "balance_merge self other = self\<lparr>bal_value := bal_value self + bal_value other\<rparr>"

definition balance_split :: "u64 \<Rightarrow> balance_record \<Rightarrow> (balance_record \<times> balance_record) option" where
  "balance_split amount self =
     (if \<not> amount > 0 then None
      else if \<not> bal_value self \<ge> amount then None
      else Some (balance_new amount, self\<lparr>bal_value := bal_value self - amount\<rparr>))"

definition balance_destroy :: "balance_record \<Rightarrow> u64" where
  "balance_destroy b = bal_value b"

section \<open>Coins\<close>

record 'u coin_record =
  coin_id :: 'u
  coin_balance :: balance_record

definition coin_new :: "'u \<Rightarrow> balance_record \<Rightarrow> 'u coin_record" where
  "coin_new i b = \<lparr>coin_id = i, coin_balance = b\<rparr>"

definition coin_value :: "'u coin_record \<Rightarrow> u64" where
  "coin_value c = bal_value (coin_balance c)"

definition coin_burn :: "'u coin_record \<Rightarrow> u64" where
  "coin_burn c = balance_destroy (coin_balance c)"

definition coin_split :: "u64 \<Rightarrow> 'u \<Rightarrow> 'u coin_record \<Rightarrow> ('u coin_record \<times> 'u coin_record) option" where
  "coin_split amount new_id self =
     (case balance_split amount (coin_balance self) of
        None \<Rightarrow> None
      | Some (new_balance, rest) \<Rightarrow> Some (coin_new new_id new_balance, self\<lparr>coin_balance := rest\<rparr>))"

definition coin_join :: "'u coin_record \<Rightarrow> 'u coin_record \<Rightarrow> 'u coin_record" where
  "coin_join self other = self\<lparr>coin_balance := balance_merge (coin_balance self) (coin_balance other)\<rparr>"

section \<open>The treasury capability\<close>

record treasury_cap =
  total_supply :: u64

definition treasury_new :: treasury_cap where
  "treasury_new = \<lparr>total_supply = 0\<rparr>"

definition treasury_mint :: "u64 \<Rightarrow> 'u \<Rightarrow> treasury_cap \<Rightarrow> ('u coin_record \<times> treasury_cap) option" where
  "treasury_mint amount new_id cap =
     (if \<not> amount > 0 then None
      else
        (case checked_add (total_supply cap) amount of
           None \<Rightarrow> None
         | Some new_total \<Rightarrow> Some (coin_new new_id (balance_new amount), cap\<lparr>total_supply := new_total\<rparr>)))"

definition treasury_burn :: "'u coin_record \<Rightarrow> treasury_cap \<Rightarrow> (u64 \<times> treasury_cap) option" where
  "treasury_burn coin cap =
     (let v = coin_burn coin
      in if \<not> total_supply cap \<ge> v then None
         else Some (v, cap\<lparr>total_supply := total_supply cap - v\<rparr>))"

section \<open>NFT supply\<close>

record nft_cap =
  nft_remaining :: u64
  nft_issued_counter :: u64

definition consume_for_mint :: "nft_cap \<Rightarrow> nft_cap option" where
  "consume_for_mint c =
     (if \<not> nft_remaining c > 0 then None
      else Some (c\<lparr>nft_issued_counter := saturating_add (nft_issued_counter c) 1,
                    nft_remaining := saturating_sub (nft_remaining c) 1\<rparr>))"

definition return_from_burn :: "nft_cap \<Rightarrow> nft_cap" where
  "return_from_burn c = c\<lparr>nft_remaining := saturating_add (nft_remaining c) 1\<rparr>"

section \<open>Transfers of balances\<close>

lemma decrease_Inr_iff:
  "decrease amount b = Inr b' \<longleftrightarrow> amount \<le> bal_value b \<and> b' = b\<lparr>bal_value := bal_value b - amount\<rparr>"
  by (auto simp: decrease_def not_less)

lemma increase_Inr_iff:
  "increase amount b = Inr b' \<longleftrightarrow>
     unat (bal_value b) + unat amount < 2 ^ 64 \<and> b' = b\<lparr>bal_value := bal_value b + amount\<rparr>"
  by (auto simp: increase_def checked_add_def)

section \<open>Coins in circulation\<close>

text \<open>
  The coins a treasury capability has in circulation, as a list; each rule is one operation on them.
\<close>

type_synonym 'u circulation = "treasury_cap \<times> 'u coin_record list"

inductive coin_reach :: "'u circulation \<Rightarrow> bool" where
  start: "coin_reach (treasury_new, [])"
| mint: "coin_reach (cap, coins) \<Longrightarrow> treasury_mint amount i cap = Some (c, cap') \<Longrightarrow> coin_reach (cap', c # coins)"
| burn: "coin_reach (cap, xs @ c # ys) \<Longrightarrow> treasury_burn c cap = Some (v, cap') \<Longrightarrow> coin_reach (cap', xs @ ys)"
| split: "coin_reach (cap, xs @ c # ys) \<Longrightarrow> coin_split amount i c = Some (n, c') \<Longrightarrow>
    coin_reach (cap, n # xs @ c' # ys)"
| join: "coin_reach (cap, xs @ c # ys @ d # zs) \<Longrightarrow> coin_reach (cap, xs @ coin_join c d # ys @ zs)"

definition circulating :: "'u coin_record list \<Rightarrow> nat" where
  "circulating coins = (\<Sum>c \<leftarrow> coins. unat (coin_value c))"

lemma circulating_simps [simp]:
  "circulating [] = 0" "circulating (c # cs) = unat (coin_value c) + circulating cs"
  "circulating (xs @ ys) = circulating xs + circulating ys"
  by (simp_all add: circulating_def)

lemma coin_value_split:
  assumes "coin_split amount i c = Some (n, c')"
  shows "unat (coin_value n) + unat (coin_value c') = unat (coin_value c)"
  using assms
  by (auto simp: coin_split_def balance_split_def coin_new_def balance_new_def coin_value_def unat_sub
      word_le_nat_alt split: if_splits)

lemma coin_value_join:
  "unat (coin_value c) + unat (coin_value d) < 2 ^ 64 \<Longrightarrow>
     unat (coin_value (coin_join c d)) = unat (coin_value c) + unat (coin_value d)"
  by (simp add: coin_value_def coin_join_def balance_merge_def unat_add_no_wrap)

lemma coin_reach_supply: "coin_reach s \<Longrightarrow> circulating (snd s) = unat (total_supply (fst s))"
proof (induction rule: coin_reach.induct)
  case start
  then show ?case by (simp add: treasury_new_def)
next
  case (mint cap coins amount i c cap')
  then show ?case
    by (auto simp: treasury_mint_def coin_new_def balance_new_def coin_value_def unat_checked_add
        split: if_splits option.splits)
next
  case (burn cap xs c ys v cap')
  then show ?case
    by (auto simp: treasury_burn_def coin_burn_def balance_destroy_def coin_value_def Let_def unat_sub word_le_nat_alt
        split: if_splits)
next
  case (split cap xs c ys amount i n c')
  then show ?case using coin_value_split [OF split.hyps(2)] by simp
next
  case (join cap xs c ys d zs)
  have "unat (total_supply cap) < 2 ^ 64" using unat_lt_size [of "total_supply cap"] by simp
  then show ?case using join.IH coin_value_join [of c d] by simp
qed

section \<open>Properties\<close>

text \<open>
  C14: a balance transfer that succeeds moves exactly the amount and conserves the sum; it succeeds
  exactly when the sender has the amount and the receiver does not overflow. An insufficient balance
  leaves both unchanged. An overflow at the receiver is reported too, but by then the sender has
  already been debited.
\<close>

theorem balance_transfer_accounting:
  "case balance_transfer amount self to of (r, self', to') \<Rightarrow>
     (r = Inr () \<longleftrightarrow> amount \<le> bal_value self \<and> unat (bal_value to) + unat amount < 2 ^ 64) \<and>
     (r = Inr () \<longrightarrow> unat (bal_value self') = unat (bal_value self) - unat amount \<and>
        unat (bal_value self') + unat (bal_value to') = unat (bal_value self) + unat (bal_value to)) \<and>
     (r = Inl InsufficientBalance \<longrightarrow> self' = self \<and> to' = to) \<and>
     (r = Inl BalanceOverflow \<longrightarrow> bal_value self' = bal_value self - amount \<and> to' = to)"
  by (auto simp: balance_transfer_def decrease_def increase_def checked_add_def not_less
      word_le_nat_alt word_less_nat_alt unat_sub unat_add_no_wrap split: option.splits sum.splits if_splits)

theorem balance_transfer_accounting_witness:
  "balance_transfer 3 (balance_new 5) (balance_new 1) = (Inr (), balance_new 2, balance_new 4)"
  using balance_transfer_accounting [of 3 "balance_new 5" "balance_new 1"]
  by (auto simp: balance_transfer_def decrease_def increase_def checked_add_def balance_new_def split: sum.splits)

text \<open>
  C15: the treasury capability accounts for every coin. Whatever coins are minted, burned, split and
  joined, the coins in circulation add up to the recorded total supply. Joining therefore never
  wraps, although it adds unchecked, and burning a circulating coin never underflows.
\<close>

theorem supply_conserved:
  assumes "coin_reach (cap, coins)"
  shows "circulating coins = unat (total_supply cap) \<and>
    (\<forall>c \<in> set coins. treasury_burn c cap \<noteq> None) \<and>
    (\<forall>xs c ys d zs. coins = xs @ c # ys @ d # zs \<longrightarrow>
       unat (coin_value (coin_join c d)) = unat (coin_value c) + unat (coin_value d))"
proof -
  have tot: "circulating coins = unat (total_supply cap)" using coin_reach_supply [OF assms] by simp
  have lt: "unat (total_supply cap) < 2 ^ 64" using unat_lt_size [of "total_supply cap"] by simp
  have "treasury_burn c cap \<noteq> None" if "c \<in> set coins" for c
  proof -
    from that obtain xs ys where "coins = xs @ c # ys" by (auto dest: split_list)
    then show ?thesis
      using tot by (auto simp: treasury_burn_def coin_burn_def balance_destroy_def coin_value_def Let_def word_le_nat_alt)
  qed
  moreover have "unat (coin_value (coin_join c d)) = unat (coin_value c) + unat (coin_value d)"
    if "coins = xs @ c # ys @ d # zs" for xs c ys d zs
    by (rule coin_value_join) (use that tot lt in simp)
  ultimately show ?thesis using tot by blast
qed

theorem supply_conserved_witness:
  "\<exists>cap coins. coin_reach (cap, coins :: nat coin_record list) \<and> length coins = 2 \<and> circulating coins = 10 \<and>
     unat (total_supply cap) = 10"
proof -
  define c where "c = coin_new (0 :: nat) (balance_new 10)"
  define n where "n = coin_new (1 :: nat) (balance_new 4)"
  define c' where "c' = coin_new (0 :: nat) (balance_new 6)"
  have "treasury_mint 10 0 treasury_new = Some (c, \<lparr>total_supply = 10\<rparr>)"
    by (simp add: treasury_mint_def treasury_new_def checked_add_def c_def)
  from coin_reach.mint [OF coin_reach.start this] have "coin_reach (\<lparr>total_supply = 10\<rparr>, [] @ c # [])" by simp
  moreover have "coin_split 4 1 c = Some (n, c')"
    by (simp add: coin_split_def balance_split_def c_def n_def c'_def coin_new_def balance_new_def)
  ultimately have r: "coin_reach (\<lparr>total_supply = 10\<rparr>, n # [] @ c' # [])" by (rule coin_reach.split)
  show ?thesis using supply_conserved [OF r] r by (intro exI [of _ "\<lparr>total_supply = 10\<rparr>"] exI [of _ "n # [] @ c' # []"]) simp
qed

text \<open>
  An NFT capability never issues beyond its supply: a mint succeeds exactly while units remain,
  and then moves one unit from the remaining to the issued side.
\<close>

theorem nft_mint_accounting:
  "case consume_for_mint c of
      None \<Rightarrow> nft_remaining c = 0
    | Some c' \<Rightarrow> unat (nft_remaining c') + 1 = unat (nft_remaining c) \<and>
        unat (nft_issued_counter c') = min (unat (nft_issued_counter c) + 1) (2 ^ 64 - 1) \<and>
        return_from_burn c' = c\<lparr>nft_issued_counter := nft_issued_counter c'\<rparr>"
proof (cases "nft_remaining c = 0")
  case False
  then have "unat (nft_remaining c) > 0" by (simp add: unat_gt_0)
  moreover have "saturating_add (saturating_sub (nft_remaining c) 1) 1 = nft_remaining c"
    using calculation unat_lt_size [of "nft_remaining c"]
    by (intro word_unat_eq_iff [THEN iffD2]) (simp add: unat_saturating_add unat_saturating_sub)
  ultimately show ?thesis
    using False by (simp add: consume_for_mint_def return_from_burn_def unat_saturating_add unat_saturating_sub word_neq_0_conv)
qed (simp add: consume_for_mint_def)

end
