(* ===== verification/Rust_Str.thy ===== *)
theory Rust_Str
  imports Hash32 "HOL-Library.Char_ord"
begin

text \<open>
  Strings of the Rust sources. A \<^verbatim>\<open>str\<close> is the list of its UTF-8 bytes, each written as a character, so
  that \<^verbatim>\<open>len\<close> is the length of the list and \<^verbatim>\<open>Ord\<close> is the lexicographic order of the library.
  \<open>utf8_valid\<close> says which byte lists are strings. \<^verbatim>\<open>trim\<close> removes the whitespace of Unicode, encoded;
  \<^verbatim>\<open>to_uppercase\<close> is modelled on ASCII letters only (other characters are kept).
\<close>

section \<open>Bytes and characters\<close>

definition as_bytes :: "string \<Rightarrow> bytes" where
  "as_bytes s = map of_char s"

definition str_of_bytes :: "bytes \<Rightarrow> string" where
  "str_of_bytes bs = map (\<lambda>b. char_of (unat b)) bs"

definition cont_byte :: "byte \<Rightarrow> bool" where
  "cont_byte b \<longleftrightarrow> 0x80 \<le> b \<and> b \<le> 0xBF"

text \<open>The well-formed sequences of \<^verbatim>\<open>std::str::from_utf8\<close>, by their first byte.\<close>

fun utf8_valid :: "bytes \<Rightarrow> bool" where
  "utf8_valid [] = True"
| "utf8_valid (a # bs) =
     (if a < 0x80 then utf8_valid bs
      else case bs of
        [] \<Rightarrow> False
      | b # cs \<Rightarrow>
          if 0xC2 \<le> a \<and> a \<le> 0xDF then cont_byte b \<and> utf8_valid cs
          else case cs of
            [] \<Rightarrow> False
          | c # ds \<Rightarrow>
              if a = 0xE0 then 0xA0 \<le> b \<and> b \<le> 0xBF \<and> cont_byte c \<and> utf8_valid ds
              else if a = 0xED then 0x80 \<le> b \<and> b \<le> 0x9F \<and> cont_byte c \<and> utf8_valid ds
              else if 0xE1 \<le> a \<and> a \<le> 0xEF then cont_byte b \<and> cont_byte c \<and> utf8_valid ds
              else case ds of
                [] \<Rightarrow> False
              | d # es \<Rightarrow>
                  (if a = 0xF0 then 0x90 \<le> b \<and> b \<le> 0xBF
                   else if a = 0xF4 then 0x80 \<le> b \<and> b \<le> 0x8F
                   else 0xF1 \<le> a \<and> a \<le> 0xF3 \<and> cont_byte b)
                  \<and> cont_byte c \<and> cont_byte d \<and> utf8_valid es)"

definition from_utf8 :: "bytes \<Rightarrow> string option" where
  "from_utf8 bs = (if utf8_valid bs then Some (str_of_bytes bs) else None)"

definition is_ascii_digit :: "char \<Rightarrow> bool" where
  "is_ascii_digit c \<longleftrightarrow> 48 \<le> (of_char c :: nat) \<and> (of_char c :: nat) \<le> 57"

definition is_ascii_hexdigit :: "char \<Rightarrow> bool" where
  "is_ascii_hexdigit c \<longleftrightarrow>
     is_ascii_digit c \<or> 65 \<le> (of_char c :: nat) \<and> (of_char c :: nat) \<le> 70
       \<or> 97 \<le> (of_char c :: nat) \<and> (of_char c :: nat) \<le> 102"

definition to_ascii_lowercase :: "char \<Rightarrow> char" where
  "to_ascii_lowercase c =
     (if 65 \<le> (of_char c :: nat) \<and> (of_char c :: nat) \<le> 90 then char_of ((of_char c :: nat) + 32) else c)"

definition to_ascii_uppercase :: "char \<Rightarrow> char" where
  "to_ascii_uppercase c =
     (if 97 \<le> (of_char c :: nat) \<and> (of_char c :: nat) \<le> 122 then char_of ((of_char c :: nat) - 32) else c)"

section \<open>Searching and splitting\<close>

definition starts_with :: "string \<Rightarrow> string \<Rightarrow> bool" where
  "starts_with p s \<longleftrightarrow> take (length p) s = p"

fun str_contains :: "string \<Rightarrow> string \<Rightarrow> bool" where
  "str_contains p [] \<longleftrightarrow> p = []"
| "str_contains p (c # s) \<longleftrightarrow> starts_with p (c # s) \<or> str_contains p s"

text \<open>\<^verbatim>\<open>split_once(c)\<close>: what is before and after the first separator.\<close>

fun split_once :: "char \<Rightarrow> string \<Rightarrow> (string \<times> string) option" where
  "split_once c [] = None"
| "split_once c (x # xs) =
     (if x = c then Some ([], xs)
      else map_option (\<lambda>(a, b). (x # a, b)) (split_once c xs))"

text \<open>\<^verbatim>\<open>split(c)\<close>: the pieces between the separators, at least one.\<close>

fun str_split :: "char \<Rightarrow> string \<Rightarrow> string list" where
  "str_split c [] = [[]]"
| "str_split c (x # xs) =
     (if x = c then [] # str_split c xs
      else (case str_split c xs of p # ps \<Rightarrow> (x # p) # ps | [] \<Rightarrow> [[x]]))"

lemma starts_with_append [simp]: "starts_with p (p @ s)"
  by (simp add: starts_with_def)

lemma starts_with_Nil [simp]: "starts_with p [] \<longleftrightarrow> p = []"
  by (auto simp: starts_with_def)

lemma starts_with_Cons [simp]:
  "starts_with [] s" "starts_with (a # p) (b # s) \<longleftrightarrow> a = b \<and> starts_with p s"
  by (auto simp: starts_with_def)

lemma starts_with_iff: "starts_with p s \<longleftrightarrow> (\<exists>t. s = p @ t)"
  by (metis append_take_drop_id append_eq_conv_conj starts_with_def)

lemma split_once_None [simp]: "split_once c s = None \<longleftrightarrow> c \<notin> set s"
  by (induction s) auto

lemma split_once_notin: "c \<notin> set s \<Longrightarrow> split_once c s = None"
  by simp

lemma split_once_Some: "split_once c s = Some (a, b) \<Longrightarrow> s = a @ c # b \<and> c \<notin> set a"
  by (induction s arbitrary: a) (auto split: if_splits)

lemma split_once_append: "c \<notin> set a \<Longrightarrow> split_once c (a @ c # b) = Some (a, b)"
  by (induction a) auto

lemma split_once_length: "split_once c s = Some (a, b) \<Longrightarrow> length b < length s"
  by (auto dest: split_once_Some)

lemma str_split_none: "c \<notin> set s \<Longrightarrow> str_split c s = [s]"
  by (induction s) auto

lemma str_split_one: "c \<notin> set a \<Longrightarrow> c \<notin> set b \<Longrightarrow> str_split c (a @ c # b) = [a, b]"
  by (induction a) (auto simp: str_split_none)

section \<open>Trimming\<close>

text \<open>The UTF-8 encodings of the 25 code points with the property \<^verbatim>\<open>White_Space\<close>.\<close>

definition white_space :: "string list" where
  "white_space = map (map char_of)
     ([[9], [10], [11], [12], [13], [32], [0xC2, 0x85], [0xC2, 0xA0], [0xE1, 0x9A, 0x80],
       [0xE2, 0x80, 0x80], [0xE2, 0x80, 0x81], [0xE2, 0x80, 0x82], [0xE2, 0x80, 0x83],
       [0xE2, 0x80, 0x84], [0xE2, 0x80, 0x85], [0xE2, 0x80, 0x86], [0xE2, 0x80, 0x87],
       [0xE2, 0x80, 0x88], [0xE2, 0x80, 0x89], [0xE2, 0x80, 0x8A], [0xE2, 0x80, 0xA8],
       [0xE2, 0x80, 0xA9], [0xE2, 0x80, 0xAF], [0xE2, 0x81, 0x9F], [0xE3, 0x80, 0x80]] :: nat list list)"

function strip_start :: "string list \<Rightarrow> string \<Rightarrow> string" where
  "strip_start ws s =
     (case find (\<lambda>w. w \<noteq> [] \<and> starts_with w s) ws of
        None \<Rightarrow> s
      | Some w \<Rightarrow> strip_start ws (drop (length w) s))"
  by pat_completeness auto
termination
  by (relation "measure (length \<circ> snd)") (auto simp: find_Some_iff starts_with_iff)

declare strip_start.simps [simp del]

definition str_trim :: "string \<Rightarrow> string" where
  "str_trim s = rev (strip_start (map rev white_space) (rev (strip_start white_space s)))"

text \<open>A visible ASCII character is neither whitespace nor part of the encoding of one.\<close>

definition ascii_graphic :: "char \<Rightarrow> bool" where
  "ascii_graphic c \<longleftrightarrow> 33 \<le> (of_char c :: nat) \<and> (of_char c :: nat) \<le> 126"

lemma strip_start_id:
  assumes "\<And>w. w \<in> set ws \<Longrightarrow> w \<noteq> [] \<Longrightarrow> s \<noteq> [] \<Longrightarrow> hd w \<noteq> hd s"
  shows "strip_start ws s = s"
proof -
  have "find (\<lambda>w. w \<noteq> [] \<and> starts_with w s) ws = None"
  proof -
    have "\<not> (w \<noteq> [] \<and> starts_with w s)" if "w \<in> set ws" for w
      using assms [OF that] by (cases w; cases s) auto
    then show ?thesis by (simp add: find_None_iff)
  qed
  then show ?thesis by (subst strip_start.simps) simp
qed

lemma white_space_not_graphic:
  assumes "w \<in> set white_space" "w \<noteq> []"
  shows "\<not> ascii_graphic (hd w)" "\<not> ascii_graphic (last w)"
  using assms by (auto simp: white_space_def ascii_graphic_def)

lemma str_trim_id:
  assumes "s \<noteq> [] \<Longrightarrow> ascii_graphic (hd s) \<and> ascii_graphic (last s)"
  shows "str_trim s = s"
proof -
  have "strip_start white_space s = s"
    using assms white_space_not_graphic(1) by (intro strip_start_id) metis
  moreover have "strip_start (map rev white_space) (rev s) = rev s"
  proof (rule strip_start_id)
    fix w assume "w \<in> set (map rev white_space)" "w \<noteq> []" "rev s \<noteq> []"
    then have "rev w \<in> set white_space" "rev w \<noteq> []" "s \<noteq> []" by auto
    then show "hd w \<noteq> hd (rev s)"
      using assms white_space_not_graphic(2) [of "rev w"] by (auto simp: hd_rev last_rev)
  qed
  ultimately show ?thesis by (simp add: str_trim_def)
qed

definition trim_start_zeros :: "string \<Rightarrow> string" where
  "trim_start_zeros s = dropWhile (\<lambda>c. c = CHR ''0'') s"

definition trim_end_zeros :: "string \<Rightarrow> string" where
  "trim_end_zeros s = rev (dropWhile (\<lambda>c. c = CHR ''0'') (rev s))"

text \<open>Left-padding to a width, as the format specifiers \<^verbatim>\<open>{:09}\<close> and \<^verbatim>\<open>{:0>width$}\<close> do.\<close>

definition pad_zeros :: "nat \<Rightarrow> string \<Rightarrow> string" where
  "pad_zeros width s = replicate (width - length s) CHR ''0'' @ s"

lemma pad_zeros_trim_start:
  "length s = n \<Longrightarrow> pad_zeros n (trim_start_zeros s) = s"
proof -
  assume l: "length s = n"
  let ?z = "takeWhile (\<lambda>c. c = CHR ''0'') s"
  have "?z = replicate (length ?z) CHR ''0''" by (rule replicate_eqI) (auto dest: set_takeWhileD)
  moreover have "length ?z = n - length (trim_start_zeros s)"
    using l length_append [of ?z "dropWhile (\<lambda>c. c = CHR ''0'') s"] by (simp add: trim_start_zeros_def)
  ultimately show ?thesis
    unfolding pad_zeros_def trim_start_zeros_def by (metis takeWhile_dropWhile_id)
qed

lemma trim_start_pad [simp]: "trim_start_zeros (pad_zeros n s) = trim_start_zeros s"
  by (simp add: pad_zeros_def trim_start_zeros_def dropWhile_append)

lemma length_pad_zeros: "length (pad_zeros n s) = max n (length s)"
  by (simp add: pad_zeros_def)

section \<open>Decimal and hexadecimal digits\<close>

definition digit_char :: "nat \<Rightarrow> char" where
  "digit_char n = char_of (48 + n)"

fun show_nat :: "nat \<Rightarrow> string" where
  "show_nat n = (if n < 10 then [digit_char n] else show_nat (n div 10) @ [digit_char (n mod 10)])"

declare show_nat.simps [simp del]

definition hex_char :: "nat \<Rightarrow> char" where
  "hex_char n = (if n < 10 then char_of (48 + n) else char_of (87 + n))"

definition hex_value :: "char \<Rightarrow> nat" where
  "hex_value c =
     (let n = of_char c :: nat
      in if n \<le> 57 then n - 48 else if n \<le> 70 then n - 55 else n - 87)"

text \<open>\<^verbatim>\<open>{:02x}\<close> of each byte.\<close>

definition hex_byte :: "byte \<Rightarrow> string" where
  "hex_byte b = [hex_char (unat b div 16), hex_char (unat b mod 16)]"

definition lower_hex :: "bytes \<Rightarrow> string" where
  "lower_hex bs = concat (map hex_byte bs)"

lemma length_lower_hex [simp]: "length (lower_hex bs) = 2 * length bs"
  by (induction bs) (simp_all add: lower_hex_def hex_byte_def)

lemma of_char_hex_char: "n < 16 \<Longrightarrow> (of_char (hex_char n) :: nat) = (if n < 10 then 48 + n else 87 + n)"
  by (simp add: hex_char_def)

lemma hex_value_hex_char [simp]: "n < 16 \<Longrightarrow> hex_value (hex_char n) = n"
  by (simp add: hex_value_def of_char_hex_char Let_def)

lemma hex_char_inj: "m < 16 \<Longrightarrow> n < 16 \<Longrightarrow> hex_char m = hex_char n \<longleftrightarrow> m = n"
  by (metis hex_value_hex_char)

lemma unat_byte_lt: "unat (b :: byte) < 256"
  using unat_lt_size [of b] by simp

lemma byte_div_lt: "unat (b :: byte) div 16 < 16"
  using unat_byte_lt [of b] by simp

lemma hex_byte_inj: "hex_byte a = hex_byte b \<longleftrightarrow> a = b"
proof
  assume "hex_byte a = hex_byte b"
  then have "unat a div 16 = unat b div 16" "unat a mod 16 = unat b mod 16"
    using byte_div_lt by (simp_all add: hex_byte_def hex_char_inj)
  then have "unat a = unat b" by (metis div_mult_mod_eq)
  then show "a = b" by (simp add: word_unat_eq_iff)
qed simp

lemma lower_hex_simps [simp]: "lower_hex [] = []" "lower_hex (b # bs) = hex_byte b @ lower_hex bs"
  by (simp_all add: lower_hex_def)

lemma lower_hex_inj: "lower_hex a = lower_hex b \<longleftrightarrow> a = b"
proof (induction a arbitrary: b)
  case Nil
  then show ?case by (cases b) (simp_all add: hex_byte_def)
next
  case (Cons x a)
  then show ?case
  proof (cases b)
    case (Cons y b')
    have "length (hex_byte x) = length (hex_byte y)" by (simp add: hex_byte_def)
    then show ?thesis using Cons Cons.IH [of b'] by (simp add: hex_byte_inj)
  qed (simp add: hex_byte_def)
qed

lemma hex_char_is_hexdigit: "n < 16 \<Longrightarrow> is_ascii_hexdigit (hex_char n)"
  by (simp add: is_ascii_hexdigit_def is_ascii_digit_def of_char_hex_char)

lemma lower_hex_hexdigits: "list_all is_ascii_hexdigit (lower_hex bs)"
  by (induction bs) (simp_all add: hex_byte_def hex_char_is_hexdigit byte_div_lt)

lemma to_lower_hex_char [simp]: "n < 16 \<Longrightarrow> to_ascii_lowercase (hex_char n) = hex_char n"
  by (auto simp: to_ascii_lowercase_def of_char_hex_char)

lemma map_lower_lower_hex [simp]: "map to_ascii_lowercase (lower_hex bs) = lower_hex bs"
  by (induction bs) (simp_all add: hex_byte_def byte_div_lt)

lemma hexdigit_lower:
  assumes "is_ascii_hexdigit c"
  shows "to_ascii_lowercase c = hex_char (hex_value c)" "hex_value c < 16"
proof -
  define n :: nat where "n = of_char c"
  then have c: "c = char_of n" by simp
  consider "48 \<le> n" "n \<le> 57" | "65 \<le> n" "n \<le> 70" | "97 \<le> n" "n \<le> 102"
    using assms by (auto simp: is_ascii_hexdigit_def is_ascii_digit_def n_def)
  then have "to_ascii_lowercase c = hex_char (hex_value c) \<and> hex_value c < 16"
    by cases (simp_all add: to_ascii_lowercase_def hex_char_def hex_value_def flip: n_def, auto simp: c)
  then show "to_ascii_lowercase c = hex_char (hex_value c)" "hex_value c < 16" by auto
qed

lemma lower_hexdigit: "to_ascii_lowercase c = hex_char n \<Longrightarrow> n < 16 \<Longrightarrow> is_ascii_hexdigit c"
proof -
  assume a: "to_ascii_lowercase c = hex_char n" "n < 16"
  then have "of_char (to_ascii_lowercase c) = (if n < 10 then 48 + n else 87 + n)"
    by (simp only: of_char_hex_char)
  then show ?thesis
    using \<open>n < 16\<close> by (auto simp: to_ascii_lowercase_def is_ascii_hexdigit_def is_ascii_digit_def split: if_splits)
qed

text \<open>Every even-length string of hexadecimal digits is, up to case, the text of one byte list.\<close>

fun unhex :: "string \<Rightarrow> bytes option" where
  "unhex [] = Some []"
| "unhex [c] = None"
| "unhex (c # d # s) =
     (if is_ascii_hexdigit c \<and> is_ascii_hexdigit d
      then map_option (\<lambda>bs. of_nat (16 * hex_value c + hex_value d) # bs) (unhex s) else None)"

lemma hex_byte_of_values:
  "m < 16 \<Longrightarrow> n < 16 \<Longrightarrow> hex_byte (of_nat (16 * m + n)) = [hex_char m, hex_char n]"
proof -
  assume a: "m < 16" "n < 16"
  then have "16 * m + n < 256" by simp
  then have "unat (of_nat (16 * m + n) :: byte) = 16 * m + n" by (simp add: unsigned_of_nat take_bit_nat_eq_self del: of_nat_add of_nat_mult)
  with a show ?thesis by (simp add: hex_byte_def del: of_nat_add of_nat_mult)
qed

lemma unhex_iff: "unhex s = Some bs \<longleftrightarrow> lower_hex bs = map to_ascii_lowercase s"
proof (induction s arbitrary: bs rule: unhex.induct)
  case 1
  then show ?case by (cases bs) (auto simp: hex_byte_def)
next
  case (2 c)
  have "lower_hex bs \<noteq> [x]" for x by (cases bs) (auto simp: hex_byte_def)
  then show ?case by simp
next
  case (3 c d s)
  show ?case
  proof (cases "is_ascii_hexdigit c \<and> is_ascii_hexdigit d")
    case True
    let ?b = "of_nat (16 * hex_value c + hex_value d) :: byte"
    have h: "hex_byte ?b = [to_ascii_lowercase c, to_ascii_lowercase d]"
      using True hexdigit_lower by (simp add: hex_byte_of_values del: of_nat_add of_nat_mult)
    show ?thesis
    proof (cases bs)
      case (Cons b bs')
      have "lower_hex (b # bs') = map to_ascii_lowercase (c # d # s) \<longleftrightarrow>
          hex_byte b = hex_byte ?b \<and> lower_hex bs' = map to_ascii_lowercase s"
        unfolding h by (simp add: hex_byte_def)
      then show ?thesis
        using 3 [OF True] True Cons by (auto simp: hex_byte_inj simp del: of_nat_add of_nat_mult)
    qed (use True in auto)
  next
    case False
    have "lower_hex bs \<noteq> to_ascii_lowercase c # to_ascii_lowercase d # map to_ascii_lowercase s"
      using False lower_hexdigit byte_div_lt by (cases bs) (auto simp: hex_byte_def dest: sym)
    with False show ?thesis by auto
  qed
qed

lemma unhex_total:
  "list_all is_ascii_hexdigit s \<Longrightarrow> even (length s) \<Longrightarrow> \<exists>bs. unhex s = Some bs"
  by (induction s rule: unhex.induct) auto

end
