(* ===== verification/Gas_Coin.thy ===== *)
theory Gas_Coin
  imports Rust_Str
begin

text \<open>
  Amounts of the native token, \<^verbatim>\<open>crates/kanari-types/src/gas_coin.rs\<close>: conversion between KANARI and
  Mist and the decimal parser and printer for money.
\<close>

section \<open>Numbers\<close>

definition digits_value :: "string \<Rightarrow> nat" where
  "digits_value s = foldl (\<lambda>n c. 10 * n + (of_char c - 48)) 0 s"

text \<open>\<^verbatim>\<open>parse::<u64>\<close> of a non-empty string of ASCII digits.\<close>

definition parse_u64 :: "string \<Rightarrow> u64 option" where
  "parse_u64 s = (if digits_value s < 2 ^ 64 then Some (of_nat (digits_value s)) else None)"

section \<open>The module\<close>

datatype amount_error = InvalidAmount | TooManyFractionDigits | AmountOverflow

definition MIST_PER_GAS :: u64 where
  "MIST_PER_GAS = 1000000000"

definition KANARI_DECIMALS :: nat where
  "KANARI_DECIMALS = 9"

definition TOTAL_SUPPLY_GAS :: u64 where
  "TOTAL_SUPPLY_GAS = 11000000"

definition TOTAL_SUPPLY_MIST :: u64 where
  "TOTAL_SUPPLY_MIST = 11000000000000000"

definition gas_to_mist :: "u64 \<Rightarrow> u64" where
  "gas_to_mist gas = saturating_mul gas MIST_PER_GAS"

definition mist_to_gas :: "u64 \<Rightarrow> u64" where
  "mist_to_gas mist = mist div MIST_PER_GAS"

definition format_gas :: "u64 \<Rightarrow> string" where
  "format_gas mist =
     (let gas = mist div MIST_PER_GAS;
          remaining_mist = mist mod MIST_PER_GAS
      in if remaining_mist = 0 then show_nat (unat gas) @ '' KANARI''
         else show_nat (unat gas) @ ''.'' @ pad_zeros 9 (show_nat (unat remaining_mist)) @ '' KANARI'')"

definition parse_kanari_to_mist :: "string \<Rightarrow> amount_error + u64" where
  "parse_kanari_to_mist s =
     (let trimmed = str_trim s
      in if trimmed = [] \<or> hd trimmed = CHR ''-'' then Inl InvalidAmount
         else
           (let parts = str_split CHR ''.'' trimmed;
                int_part = hd parts;
                frac_part = (if length parts > 1 then parts ! 1 else [])
            in if length parts > 2 then Inl InvalidAmount
               else
                 (let int_digits = (if int_part = [] then ''0'' else int_part)
                  in if \<not> list_all is_ascii_digit int_digits \<or> \<not> list_all is_ascii_digit frac_part
                     then Inl InvalidAmount
                     else if length frac_part > KANARI_DECIMALS then Inl TooManyFractionDigits
                     else
                       (let frac_padded = frac_part @ replicate (KANARI_DECIMALS - length frac_part) CHR ''0'';
                            combined = int_digits @ frac_padded;
                            normalized = trim_start_zeros combined;
                            normalized = (if normalized = [] then ''0'' else normalized)
                        in case parse_u64 normalized of None \<Rightarrow> Inl AmountOverflow | Some v \<Rightarrow> Inr v))))"

definition format_mist_to_kanari :: "u64 \<Rightarrow> string" where
  "format_mist_to_kanari mist =
     (let digits = show_nat (unat mist);
          scale = KANARI_DECIMALS
      in if length digits \<le> scale then
           (let frac = pad_zeros scale digits;
                trimmed = trim_end_zeros frac
            in if trimmed = [] then ''0'' else ''0.'' @ trimmed)
         else
           (let split = length digits - scale;
                int_part = take split digits;
                frac_part = drop split digits;
                trimmed = trim_end_zeros frac_part
            in if trimmed = [] then int_part else int_part @ ''.'' @ trimmed))"

section \<open>Digits\<close>

lemma of_char_digit: "n < 10 \<Longrightarrow> (of_char (digit_char n) :: nat) = 48 + n"
  by (simp add: digit_char_def)

lemma digits_value_append: "digits_value (a @ b) = digits_value a * 10 ^ length b + digits_value b"
proof (induction b rule: rev_induct)
  case (snoc x b)
  then show ?case by (simp add: digits_value_def algebra_simps flip: append_assoc)
qed (simp add: digits_value_def)

lemma digits_value_zeros [simp]: "digits_value (replicate n CHR ''0'') = 0"
  by (induction n) (simp_all add: digits_value_def)

lemma digits_value_show_nat: "digits_value (show_nat n) = n"
proof (induction n rule: less_induct)
  case (less n)
  show ?case
  proof (cases "n < 10")
    case True
    then show ?thesis by (subst show_nat.simps) (simp add: digits_value_def of_char_digit)
  next
    case False
    then have "digits_value (show_nat (n div 10)) = n div 10" by (intro less) simp
    then show ?thesis
      using False by (subst show_nat.simps) (simp add: digits_value_append, simp add: digits_value_def of_char_digit)
  qed
qed

lemma show_nat_digits: "list_all is_ascii_digit (show_nat n)"
proof (induction n rule: less_induct)
  case (less n)
  have "is_ascii_digit (digit_char k)" if "k < 10" for k
    using that by (simp add: is_ascii_digit_def of_char_digit)
  then show ?case using less [of "n div 10"] by (subst show_nat.simps) auto
qed

lemma show_nat_not_Nil [simp]: "show_nat n \<noteq> []"
  by (subst show_nat.simps) simp

lemma digits_value_trim_start [simp]: "digits_value (trim_start_zeros s) = digits_value s"
proof (induction s)
  case (Cons c s)
  then show ?case by (simp add: trim_start_zeros_def digits_value_def)
qed (simp add: trim_start_zeros_def)

lemma trim_end_zeros_append: "\<exists>k. s = trim_end_zeros s @ replicate k CHR ''0''"
proof -
  have "takeWhile (\<lambda>c. c = CHR ''0'') (rev s) = replicate (length (takeWhile (\<lambda>c. c = CHR ''0'') (rev s))) CHR ''0''"
    by (rule replicate_eqI) (auto dest: set_takeWhileD)
  moreover have "s = rev (dropWhile (\<lambda>c. c = CHR ''0'') (rev s)) @ rev (takeWhile (\<lambda>c. c = CHR ''0'') (rev s))"
    by (metis rev_append rev_rev_ident takeWhile_dropWhile_id)
  ultimately show ?thesis unfolding trim_end_zeros_def by (metis rev_replicate)
qed

section \<open>Parsing plain decimals\<close>

lemma digit_not_special:
  assumes "is_ascii_digit c"
  shows "ascii_graphic c" "c \<noteq> CHR ''.''" "c \<noteq> CHR ''-''"
  using assms by (auto simp: is_ascii_digit_def ascii_graphic_def)

text \<open>The value of a decimal with the given integer and fraction digits, in Mist.\<close>

definition mist_value :: "string \<Rightarrow> string \<Rightarrow> nat" where
  "mist_value ip fp = digits_value ip * 10 ^ 9 + digits_value fp * 10 ^ (9 - length fp)"

lemma parse_combined:
  assumes "length fp \<le> 9"
  shows "(let combined = ip @ fp @ replicate (9 - length fp) CHR ''0'';
              normalized = trim_start_zeros combined;
              normalized = (if normalized = [] then ''0'' else normalized)
          in case parse_u64 normalized of None \<Rightarrow> Inl AmountOverflow | Some v \<Rightarrow> Inr v) =
    (if mist_value ip fp < 2 ^ 64 then Inr (of_nat (mist_value ip fp)) else Inl AmountOverflow)"
proof -
  let ?c = "ip @ fp @ replicate (9 - length fp) CHR ''0''"
  have v: "digits_value ?c = mist_value ip fp"
    using assms by (simp add: digits_value_append mist_value_def algebra_simps flip: power_add)
  have "digits_value (if trim_start_zeros ?c = [] then ''0'' else trim_start_zeros ?c) = mist_value ip fp"
    using v digits_value_trim_start [of ?c] by (auto simp: digits_value_def)
  then show ?thesis by (simp add: Let_def parse_u64_def)
qed

lemma parse_point:
  assumes "list_all is_ascii_digit ip" "list_all is_ascii_digit fp" "length fp \<le> 9" "ip \<noteq> []"
  shows "parse_kanari_to_mist (ip @ CHR ''.'' # fp) =
    (if mist_value ip fp < 2 ^ 64 then Inr (of_nat (mist_value ip fp)) else Inl AmountOverflow)"
proof -
  have mem: "is_ascii_digit c" if "c \<in> set ip \<or> c \<in> set fp" for c
    using that assms(1,2) by (auto simp: list_all_iff)
  have t: "str_trim (ip @ CHR ''.'' # fp) = ip @ CHR ''.'' # fp"
    using mem digit_not_special assms(4) by (intro str_trim_id) (auto simp: ascii_graphic_def hd_append)
  have s: "str_split CHR ''.'' (ip @ CHR ''.'' # fp) = [ip, fp]"
    using mem digit_not_special str_split_one [of "CHR ''.''" ip fp] by auto
  have "hd (ip @ CHR ''.'' # fp) \<noteq> CHR ''-''"
    using assms(4) mem [of "hd ip"] digit_not_special by (cases ip) auto
  then show ?thesis
    using assms parse_combined [OF assms(3), of ip]
    by (simp add: parse_kanari_to_mist_def t s KANARI_DECIMALS_def Let_def)
qed

lemma parse_plain:
  assumes "list_all is_ascii_digit ip" "ip \<noteq> []"
  shows "parse_kanari_to_mist ip =
    (if mist_value ip [] < 2 ^ 64 then Inr (of_nat (mist_value ip [])) else Inl AmountOverflow)"
proof -
  have mem: "is_ascii_digit c" if "c \<in> set ip" for c using that assms(1) by (auto simp: list_all_iff)
  have t: "str_trim ip = ip" using mem digit_not_special by (intro str_trim_id) auto
  have s: "str_split CHR ''.'' ip = [ip]" using mem digit_not_special by (intro str_split_none) auto
  have "hd ip \<noteq> CHR ''-''" using assms(2) mem [of "hd ip"] digit_not_special by (cases ip) auto
  then show ?thesis
    using assms parse_combined [of "[]" ip] by (simp add: parse_kanari_to_mist_def t s KANARI_DECIMALS_def Let_def)
qed

section \<open>Properties\<close>

text \<open>
  C16: money survives printing and parsing. For every amount of Mist, parsing the printed KANARI
  amount gives the amount back, to the last Mist.
\<close>

theorem format_parse_roundtrip: "parse_kanari_to_mist (format_mist_to_kanari mist) = Inr mist"
proof -
  let ?d = "show_nat (unat mist)"
  have lt: "unat mist < 2 ^ 64" using unat_lt_size [of mist] by simp
  have digits: "list_all is_ascii_digit ?d" by (rule show_nat_digits)
  have zero: "list_all is_ascii_digit ''0''" by (simp add: is_ascii_digit_def)
  have rt: "parse_kanari_to_mist (if trim_end_zeros fp = [] then ip else ip @ ''.'' @ trim_end_zeros fp) = Inr mist"
    if ip: "ip \<noteq> []" "list_all is_ascii_digit ip" and fp: "length fp = 9" "list_all is_ascii_digit fp"
      and v: "digits_value (ip @ fp) = unat mist" for ip fp
  proof -
    obtain k where k: "fp = trim_end_zeros fp @ replicate k CHR ''0''" using trim_end_zeros_append by blast
    then have len: "9 - length (trim_end_zeros fp) = k" "length (trim_end_zeros fp) \<le> 9"
      using fp(1) by (metis add_diff_cancel_left' length_append length_replicate, metis fp(1) k le_add1 length_append)
    have tz: "list_all is_ascii_digit (trim_end_zeros fp)" using fp(2) k by (metis list_all_append)
    have "mist_value ip (trim_end_zeros fp) = unat mist"
      using v len fp(1) k digits_value_append [of "trim_end_zeros fp" "replicate k CHR ''0''"]
      by (simp add: mist_value_def digits_value_append)
    then show ?thesis
      using parse_point [OF ip(2) tz len(2) ip(1)] parse_plain [OF ip(2,1)] lt by auto
  qed
  show ?thesis
  proof (cases "length ?d \<le> 9")
    case True
    have "digits_value (''0'' @ pad_zeros 9 ?d) = unat mist"
      unfolding digits_value_append pad_zeros_def by (simp add: digits_value_show_nat) (simp add: digits_value_def)
    moreover have "length (pad_zeros 9 ?d) = 9" "list_all is_ascii_digit (pad_zeros 9 ?d)"
      using True digits by (auto simp: pad_zeros_def list_all_iff is_ascii_digit_def)
    ultimately show ?thesis
      using True rt [of "''0''" "pad_zeros 9 ?d"] zero
      by (auto simp: format_mist_to_kanari_def KANARI_DECIMALS_def Let_def split: if_splits)
  next
    case False
    define n where "n = length ?d - 9"
    have "list_all is_ascii_digit (take n ?d)" "list_all is_ascii_digit (drop n ?d)"
      using digits by (metis append_take_drop_id list_all_append)+
    moreover have "length (drop n ?d) = 9" "take n ?d \<noteq> []" using False by (auto simp: n_def)
    moreover have "digits_value (take n ?d @ drop n ?d) = unat mist" by (simp add: digits_value_show_nat)
    ultimately show ?thesis
      using False rt [of "take n ?d" "drop n ?d"]
      by (auto simp: format_mist_to_kanari_def KANARI_DECIMALS_def Let_def n_def split: if_splits)
  qed
qed

text \<open>
  C17: parsing is exact integer arithmetic. An amount with digits before the point and at most nine
  after it is parsed to the integer part times ten to the nine plus the fraction scaled to nine digits;
  it is rejected exactly when that does not fit 64 bits.
\<close>

theorem parse_kanari_exact:
  assumes "list_all is_ascii_digit ip" "ip \<noteq> []" "list_all is_ascii_digit fp" "length fp \<le> 9"
  shows "parse_kanari_to_mist (ip @ ''.'' @ fp) =
    (let v = digits_value ip * 10 ^ 9 + digits_value fp * 10 ^ (9 - length fp)
     in if v < 2 ^ 64 then Inr (of_nat v) else Inl AmountOverflow)"
  using parse_point [OF assms(1,3,4,2)] by (simp add: mist_value_def Let_def)

theorem parse_kanari_exact_witness: "parse_kanari_to_mist ''12.5'' = Inr 12500000000"
  using parse_kanari_exact [of "''12''" "''5''"] by (simp add: is_ascii_digit_def digits_value_def Let_def)

end
