(* ===== verification/Address.thy ===== *)
theory Address
  imports Rust_Str
begin

text \<open>
  Addresses. The Move address of \<^verbatim>\<open>third_party/move/crates/move-core-types/src/account_address.rs\<close>
  and the stricter address of \<^verbatim>\<open>crates/kanari-types/src/address.rs\<close> are both 32 bytes; each has its own
  parser. The crate \<^verbatim>\<open>hex\<close> and SHA3-256 are parameters; \<open>hex_laws\<close> is what \<^verbatim>\<open>hex\<close> documents.
\<close>

section \<open>The hex crate\<close>

record hex_ops =
  hex_encode :: "bytes \<Rightarrow> string"
  hex_decode :: "string \<Rightarrow> bytes option"
  hex_decode_32 :: "string \<Rightarrow> hash32 option"

text \<open>
  \<^verbatim>\<open>hex::encode\<close> writes two lower-case digits per byte; \<^verbatim>\<open>hex::decode\<close> and \<^verbatim>\<open><[u8; 32]>::from_hex\<close>
  read digits of either case and fail on anything else, and on a wrong length.
\<close>

definition hex_laws :: "hex_ops \<Rightarrow> bool" where
  "hex_laws h \<longleftrightarrow>
     (\<forall>bs. hex_encode h bs = lower_hex bs) \<and>
     (\<forall>s bs. hex_decode h s = Some bs \<longleftrightarrow> lower_hex bs = map to_ascii_lowercase s) \<and>
     (\<forall>s a. hex_decode_32 h s = Some a \<longleftrightarrow> lower_hex (hbytes a) = map to_ascii_lowercase s)"

section \<open>Move addresses\<close>

type_synonym account_address = hash32

definition ADDRESS_LENGTH :: nat where
  "ADDRESS_LENGTH = 32"

definition aa_ZERO :: account_address where
  "aa_ZERO = Hash32 (replicate 32 0)"

definition aa_ONE :: account_address where
  "aa_ONE = Hash32 ((replicate 32 0)[31 := 1])"

definition aa_TWO :: account_address where
  "aa_TWO = Hash32 ((replicate 32 0)[31 := 2])"

definition to_canonical_string :: "hex_ops \<Rightarrow> bool \<Rightarrow> account_address \<Rightarrow> string" where
  "to_canonical_string h with_prefix a =
     (if with_prefix then ''0x'' @ hex_encode h (hbytes a) else hex_encode h (hbytes a))"

definition short_str_lossless :: "hex_ops \<Rightarrow> account_address \<Rightarrow> string" where
  "short_str_lossless h a =
     (let hex_str = trim_start_zeros (hex_encode h (hbytes a))
      in if hex_str = [] then ''0'' else hex_str)"

definition aa_from_hex :: "hex_ops \<Rightarrow> string \<Rightarrow> account_address option" where
  "aa_from_hex h s = hex_decode_32 h s"

definition aa_from_hex_literal :: "hex_ops \<Rightarrow> string \<Rightarrow> account_address option" where
  "aa_from_hex_literal h literal =
     (if \<not> starts_with ''0x'' literal then None
      else
        (let hex_len = length literal - 2
         in if hex_len < ADDRESS_LENGTH * 2
            then aa_from_hex h (replicate (ADDRESS_LENGTH * 2 - hex_len) CHR ''0'' @ drop 2 literal)
            else aa_from_hex h (drop 2 literal)))"

definition aa_to_hex_literal :: "hex_ops \<Rightarrow> account_address \<Rightarrow> string" where
  "aa_to_hex_literal h a = ''0x'' @ short_str_lossless h a"

definition aa_to_hex :: "account_address \<Rightarrow> string" where
  "aa_to_hex a = lower_hex (hbytes a)"

definition aa_from_bytes :: "bytes \<Rightarrow> account_address option" where
  "aa_from_bytes bs = (if length bs = ADDRESS_LENGTH then Some (Hash32 bs) else None)"

definition aa_from_str :: "hex_ops \<Rightarrow> string \<Rightarrow> account_address option" where
  "aa_from_str h s =
     (case aa_from_hex_literal h s of Some a \<Rightarrow> Some a | None \<Rightarrow> aa_from_hex h s)"

section \<open>Kanari addresses\<close>

datatype address_parse_error =
    InvalidLength nat
  | InvalidHexPrefix
  | InvalidHexString
  | InvalidCharacter char
  | EmptyString
  | Overflow
  | InvalidUtf8
  | ZeroAddress
  | InvalidPadding

type_synonym address = hash32

definition STD_ADDRESS :: string where
  "STD_ADDRESS = ''0x1''"

definition KANARI_SYSTEM_ADDRESS :: string where
  "KANARI_SYSTEM_ADDRESS = ''0x2''"

definition GENESIS_ADDRESS :: string where
  "GENESIS_ADDRESS = ''0x0''"

definition DEV_ADDRESS :: string where
  "DEV_ADDRESS = ''0x3ba63b92aac5f2bff87e580e820b61faf1c5fe9ae12f0bc8addd931a340b3146''"

definition DAO_ADDRESS :: string where
  "DAO_ADDRESS = ''0x7e669cf309e9761beb2083d12564895ccea1389f2851a479edcc0d1ad19e4350''"

definition from_account_address :: "account_address \<Rightarrow> address" where
  "from_account_address addr =
     (let move_bytes = hbytes addr;
          start_idx = ADDRESS_LENGTH - length move_bytes;
          copy_len = min (length move_bytes) ADDRESS_LENGTH
      in Hash32 (replicate start_idx 0 @ take copy_len move_bytes
           @ replicate (ADDRESS_LENGTH - (start_idx + copy_len)) 0))"

definition validate_non_zero :: "address \<Rightarrow> address_parse_error + unit" where
  "validate_non_zero a = (if list_all (\<lambda>b. b = 0) (hbytes a) then Inl ZeroAddress else Inr ())"

text \<open>The subtraction \<^verbatim>\<open>bytes.len() - Self::LENGTH\<close> is on \<^verbatim>\<open>usize\<close>.\<close>

definition validate_padding :: "bytes \<Rightarrow> address_parse_error + unit" where
  "validate_padding bs =
     (let zeros = length (takeWhile (\<lambda>b. b = 0) bs)
      in if zeros = length bs then Inr ()
         else if (of_nat zeros :: u64) < of_nat (length bs) - of_nat ADDRESS_LENGTH then Inl InvalidPadding
         else Inr ())"

definition validate_hex :: "string \<Rightarrow> address_parse_error + unit" where
  "validate_hex hex =
     (if hex = [] then Inl EmptyString
      else if length hex > ADDRESS_LENGTH * 2 then Inl Overflow
      else case find (\<lambda>c. \<not> is_ascii_hexdigit c) hex of
        Some c \<Rightarrow> Inl (InvalidCharacter c)
      | None \<Rightarrow> Inr ())"

definition address_from_hex :: "hex_ops \<Rightarrow> string \<Rightarrow> address_parse_error + address" where
  "address_from_hex h hex =
     (if \<not> utf8_valid (as_bytes hex) then Inl InvalidUtf8
      else case validate_hex hex of
        Inl e \<Rightarrow> Inl e
      | Inr _ \<Rightarrow>
          (case hex_decode_32 h hex of
             None \<Rightarrow> Inl InvalidHexString
           | Some a \<Rightarrow> (case validate_non_zero a of Inl e \<Rightarrow> Inl e | Inr _ \<Rightarrow> Inr a)))"

definition address_to_hex :: "hex_ops \<Rightarrow> address \<Rightarrow> string" where
  "address_to_hex h a = hex_encode h (hbytes a)"

definition address_to_hex_literal :: "hex_ops \<Rightarrow> address \<Rightarrow> string" where
  "address_to_hex_literal h a = ''0x'' @ address_to_hex h a"

text \<open>How the public key behind a tag is hashed: as text for hybrid and SPHINCS+ keys, decoded otherwise.\<close>

definition hash_hex_string :: "string \<Rightarrow> bool" where
  "hash_hex_string tag =
     (let tag_upper = map to_ascii_uppercase tag;
          is_hybrid = str_contains ''HYBRID'' tag_upper \<or> str_contains ''ED25519'' tag_upper
            \<or> str_contains ''K256'' tag_upper
      in is_hybrid \<or> str_contains ''SPHINCS'' tag_upper)"

function address_from_hex_literal ::
  "(bytes \<Rightarrow> hash32) \<Rightarrow> hex_ops \<Rightarrow> string \<Rightarrow> address_parse_error + address" where
  "address_from_hex_literal sha3 h literal =
     (if literal = [] then Inl EmptyString
      else case split_once CHR '':'' literal of
        Some (tag, addr_or_pub) \<Rightarrow>
          if starts_with ''0x'' addr_or_pub then address_from_hex_literal sha3 h addr_or_pub
          else if hash_hex_string tag then Inr (sha3 (as_bytes addr_or_pub))
          else (case hex_decode h addr_or_pub of
                  None \<Rightarrow> Inl InvalidHexString
                | Some pubkey_bytes \<Rightarrow> Inr (sha3 pubkey_bytes))
      | None \<Rightarrow>
          if \<not> starts_with ''0x'' literal then Inl InvalidHexPrefix
          else
            (let hex_str = drop 2 literal;
                 hex_len = length hex_str
             in if hex_len > ADDRESS_LENGTH * 2 then Inl Overflow
                else case validate_hex hex_str of
                  Inl e \<Rightarrow> Inl e
                | Inr _ \<Rightarrow>
                    address_from_hex h
                      (if hex_len < ADDRESS_LENGTH * 2 then pad_zeros (ADDRESS_LENGTH * 2) hex_str else hex_str)))"
  by pat_completeness auto
termination
  by (relation "measure (\<lambda>(_, _, s). length s)") (auto dest: split_once_length)

declare address_from_hex_literal.simps [simp del]

definition to_account_address :: "address \<Rightarrow> account_address" where
  "to_account_address a = a"

definition parse_to_account_address ::
  "(bytes \<Rightarrow> hash32) \<Rightarrow> hex_ops \<Rightarrow> string \<Rightarrow> address_parse_error + account_address" where
  "parse_to_account_address sha3 h s =
     (if starts_with ''0x'' s \<or> CHR '':'' \<in> set s
      then map_sum id to_account_address (address_from_hex_literal sha3 h s)
      else
        (let hex_str = str_trim s
         in if length hex_str = ADDRESS_LENGTH * 2
            then map_sum id to_account_address (address_from_hex h hex_str)
            else map_sum id to_account_address (address_from_hex_literal sha3 h (''0x'' @ hex_str))))"

definition address_try_from :: "bytes \<Rightarrow> address_parse_error + address" where
  "address_try_from bs =
     (if bs = [] then Inl EmptyString
      else if length bs > ADDRESS_LENGTH then Inl Overflow
      else if length bs < ADDRESS_LENGTH then Inl (InvalidLength (length bs))
      else case validate_padding bs of Inl e \<Rightarrow> Inl e | Inr _ \<Rightarrow> Inr (Hash32 bs))"

definition address_from_str ::
  "(bytes \<Rightarrow> hash32) \<Rightarrow> hex_ops \<Rightarrow> string \<Rightarrow> address_parse_error + address" where
  "address_from_str sha3 h s =
     (case address_from_hex_literal sha3 h s of Inr a \<Rightarrow> Inr a | Inl _ \<Rightarrow> address_from_hex h s)"

section \<open>Parsing under the laws of hex\<close>

text \<open>The digits of a literal in the form \<open>short_str_lossless\<close> prints: lower case, no leading zeros.\<close>

definition short_digits :: "string \<Rightarrow> string" where
  "short_digits s =
     (let t = trim_start_zeros (map to_ascii_lowercase s) in if t = [] then ''0'' else t)"

lemma lower_zero [simp]: "to_ascii_lowercase CHR ''0'' = CHR ''0''"
  by (simp add: to_ascii_lowercase_def)

lemma map_lower_pad: "map to_ascii_lowercase (pad_zeros n s) = pad_zeros n (map to_ascii_lowercase s)"
  by (simp add: pad_zeros_def)

lemma lower_idem [simp]: "to_ascii_lowercase (to_ascii_lowercase c) = to_ascii_lowercase c"
  by (simp add: to_ascii_lowercase_def)

lemma lower_comp [simp]: "to_ascii_lowercase \<circ> to_ascii_lowercase = to_ascii_lowercase"
  by (simp add: fun_eq_iff)

lemma pad_zeros_all_zero: "trim_start_zeros s = [] \<Longrightarrow> s = replicate (length s) CHR ''0''"
  unfolding trim_start_zeros_def by (rule replicate_eqI) auto

lemma pad_short_digits:
  "length s \<le> n \<Longrightarrow> 0 < n \<Longrightarrow> pad_zeros n (short_digits s) = pad_zeros n (map to_ascii_lowercase s)"
proof -
  assume l: "length s \<le> n" "0 < n"
  let ?s = "pad_zeros n (map to_ascii_lowercase s)"
  have len: "length ?s = n" using l by (simp add: length_pad_zeros)
  show ?thesis
  proof (cases "trim_start_zeros ?s = []")
    case True
    then have "?s = replicate n CHR ''0''" using pad_zeros_all_zero [of ?s] len by metis
    moreover have "short_digits s = ''0''" using True by (simp add: short_digits_def)
    moreover have "pad_zeros n ''0'' = replicate n CHR ''0''"
      using l by (cases n) (simp_all add: pad_zeros_def replicate_append_same)
    ultimately show ?thesis by simp
  next
    case False
    then show ?thesis using pad_zeros_trim_start [OF len] by (simp add: short_digits_def Let_def)
  qed
qed

lemma aa_from_hex_literal_iff:
  assumes "hex_laws h"
  shows "aa_from_hex_literal h s = Some a \<longleftrightarrow>
    starts_with ''0x'' s \<and> lower_hex (hbytes a) = map to_ascii_lowercase (pad_zeros 64 (drop 2 s))"
  using assms
  by (auto simp: aa_from_hex_literal_def aa_from_hex_def hex_laws_def Let_def pad_zeros_def ADDRESS_LENGTH_def)

lemma short_str_lossless_eq:
  "hex_laws h \<Longrightarrow> short_str_lossless h a = short_digits (lower_hex (hbytes a))"
  by (simp add: short_str_lossless_def short_digits_def hex_laws_def)

lemma map_lower_short_digits [simp]: "map to_ascii_lowercase (short_digits s) = short_digits s"
  unfolding short_digits_def Let_def trim_start_zeros_def
  by (rule map_idI) (auto dest!: set_dropWhileD split: if_splits)

lemma aa_literal_roundtrip:
  assumes "hex_laws h"
  shows "aa_from_hex_literal h (aa_to_hex_literal h a) = Some a"
proof -
  have "pad_zeros 64 (short_digits (lower_hex (hbytes a))) = lower_hex (hbytes a)"
    by (subst pad_short_digits) (simp_all add: pad_zeros_def)
  then show ?thesis
    using assms by (simp add: aa_from_hex_literal_iff aa_to_hex_literal_def short_str_lossless_eq map_lower_pad)
qed

lemma hexdigits_of_lower_hex:
  "lower_hex bs = map to_ascii_lowercase s \<Longrightarrow> list_all is_ascii_hexdigit s"
proof -
  assume "lower_hex bs = map to_ascii_lowercase s"
  then have "unhex s = Some bs" by (simp add: unhex_iff)
  then show ?thesis by (induction s arbitrary: bs rule: unhex.induct) (auto split: if_splits)
qed

lemma short_digits_pad [simp]: "short_digits (pad_zeros n s) = short_digits s"
  by (simp add: short_digits_def map_lower_pad)

lemma short_digits_lower [simp]: "short_digits (map to_ascii_lowercase s) = short_digits s"
  by (simp add: short_digits_def)

lemma aa_from_hex_literal_total:
  assumes "hex_laws h" "list_all is_ascii_hexdigit s" "length s \<le> 64"
  obtains a where "aa_from_hex_literal h (''0x'' @ s) = Some a"
proof -
  have "is_ascii_hexdigit CHR ''0''" by (simp add: is_ascii_hexdigit_def is_ascii_digit_def)
  then have "list_all is_ascii_hexdigit (pad_zeros 64 s)" using assms(2) by (auto simp: pad_zeros_def list_all_iff)
  then obtain bs where bs: "lower_hex bs = map to_ascii_lowercase (pad_zeros 64 s)"
    using unhex_total [of "pad_zeros 64 s"] assms(3) by (auto simp: length_pad_zeros unhex_iff)
  then have "2 * length bs = 64"
    using assms(3) length_lower_hex [of bs] by (simp add: length_pad_zeros del: length_lower_hex)
  then have "hbytes (Hash32 bs) = bs" by (simp add: Hash32_inverse)
  with bs have "aa_from_hex_literal h (''0x'' @ s) = Some (Hash32 bs)"
    using assms(1) by (simp add: aa_from_hex_literal_iff)
  then show ?thesis by (rule that)
qed

lemma aa_from_hex_literal_short:
  assumes "hex_laws h" "aa_from_hex_literal h s = Some a"
  shows "starts_with ''0x'' s" "length s \<le> 66" "list_all is_ascii_hexdigit (drop 2 s)"
    and "aa_to_hex_literal h a = ''0x'' @ short_digits (drop 2 s)"
proof -
  have e: "lower_hex (hbytes a) = map to_ascii_lowercase (pad_zeros 64 (drop 2 s))" and "starts_with ''0x'' s"
    using assms by (auto simp: aa_from_hex_literal_iff)
  show "starts_with ''0x'' s" by fact
  have "length (lower_hex (hbytes a)) = max 64 (length s - 2)" unfolding e by (simp add: length_pad_zeros)
  then show "length s \<le> 66" by simp
  show "list_all is_ascii_hexdigit (drop 2 s)"
    using hexdigits_of_lower_hex [OF e] by (simp add: pad_zeros_def)
  show "aa_to_hex_literal h a = ''0x'' @ short_digits (drop 2 s)"
    using assms(1) by (simp add: aa_to_hex_literal_def short_str_lossless_eq e)
qed

section \<open>The two parsers\<close>

lemma hexdigit_utf8:
  "list_all is_ascii_hexdigit s \<Longrightarrow> utf8_valid (as_bytes s)"
proof (induction s)
  case (Cons c s)
  then have "(of_char c :: nat) < 128" by (auto simp: is_ascii_hexdigit_def is_ascii_digit_def)
  moreover have "unat (of_char c :: byte) = of_char c"
    using unat_of_nat [of "of_char c", where 'a = 8] by (simp add: of_nat_of_char)
  ultimately have "(of_char c :: byte) < 0x80" by (simp add: word_less_nat_alt)
  with Cons show ?case by (simp add: as_bytes_def)
qed (simp add: as_bytes_def)

lemma validate_hex_Inr:
  "validate_hex s = Inr u \<longleftrightarrow> s \<noteq> [] \<and> length s \<le> 64 \<and> list_all is_ascii_hexdigit s"
  by (auto simp: validate_hex_def ADDRESS_LENGTH_def find_None_iff find_Some_iff list_all_iff split: option.splits)

lemma validate_non_zero_Inr: "validate_non_zero a = Inr u \<longleftrightarrow> a \<noteq> aa_ZERO"
proof -
  have "list_all (\<lambda>b. b = 0) (hbytes a) \<longleftrightarrow> hbytes a = replicate 32 0"
  proof
    assume "list_all (\<lambda>b. b = 0) (hbytes a)"
    then show "hbytes a = replicate 32 0" by (intro replicate_eqI) (auto simp: list_all_iff)
  next
    assume "hbytes a = replicate 32 0"
    then show "list_all (\<lambda>b. b = 0) (hbytes a)" by (simp only: list_all_iff set_replicate_conv_if) simp
  qed
  also have "\<dots> \<longleftrightarrow> a = aa_ZERO"
    by (auto simp: aa_ZERO_def Hash32_inverse intro: hash32_eqI)
  finally show ?thesis by (simp add: validate_non_zero_def)
qed

lemma hex_char_0: "hex_char 0 = CHR ''0''"
  by (rule of_char_eqI [where 'a = nat]) (simp add: hex_char_def)

lemma lower_hex_zero: "lower_hex (hbytes aa_ZERO) = replicate 64 CHR ''0''"
proof -
  have "lower_hex (replicate n 0) = replicate (2 * n) CHR ''0''" for n
    by (induction n) (simp_all add: hex_byte_def hex_char_0)
  from this [of 32] show ?thesis by (simp add: aa_ZERO_def Hash32_inverse)
qed

lemma address_from_hex_Inr:
  assumes "hex_laws h"
  shows "address_from_hex h s = Inr a \<longleftrightarrow> lower_hex (hbytes a) = map to_ascii_lowercase s \<and> a \<noteq> aa_ZERO"
proof -
  have d: "hex_decode_32 h s = Some a \<longleftrightarrow> lower_hex (hbytes a) = map to_ascii_lowercase s" for a
    using assms by (simp add: hex_laws_def)
  show ?thesis
  proof (cases "hex_decode_32 h s")
    case None
    then show ?thesis using d [of a] by (auto simp: address_from_hex_def split: sum.splits)
  next
    case (Some b)
    then have s: "utf8_valid (as_bytes s)" "validate_hex s = Inr ()"
      using d [of b] hexdigits_of_lower_hex [of "hbytes b" s] length_lower_hex [of "hbytes b"] 
      by (auto simp: validate_hex_Inr simp del: length_lower_hex intro: hexdigit_utf8)
    have "a = b \<longleftrightarrow> lower_hex (hbytes a) = map to_ascii_lowercase s"
      using d [of a] Some by auto
    then show ?thesis
      using Some s validate_non_zero_Inr [of b] by (auto simp: address_from_hex_def split: sum.splits)
  qed
qed

lemma address_from_hex_literal_0x:
  assumes "CHR '':'' \<notin> set t"
  shows "address_from_hex_literal sha3 h (''0x'' @ t) =
    (if 64 < length t then Inl Overflow
     else case validate_hex t of Inl e \<Rightarrow> Inl e | Inr _ \<Rightarrow> address_from_hex h (pad_zeros 64 t))"
proof -
  have "pad_zeros 64 t = t" if "length t = 64" using that by (simp add: pad_zeros_def)
  then show ?thesis
    using assms by (subst address_from_hex_literal.simps)
      (auto simp: split_once_notin Let_def ADDRESS_LENGTH_def split: sum.split)
qed

lemma address_from_hex_literal_untagged:
  assumes "hex_laws h" "CHR '':'' \<notin> set s"
  shows "address_from_hex_literal sha3 h s = Inr a \<longleftrightarrow> aa_from_hex_literal h s = Some a \<and> a \<noteq> aa_ZERO"
proof (cases "starts_with ''0x'' s")
  case True
  then obtain t where s: "s = ''0x'' @ t" by (auto simp: starts_with_iff)
  have t: "CHR '':'' \<notin> set t" using assms(2) s by simp
  show ?thesis
  proof (cases "validate_hex t")
    case (Inl e)
    have "aa_from_hex_literal h s \<noteq> Some a" if "a \<noteq> aa_ZERO"
    proof
      assume *: "aa_from_hex_literal h s = Some a"
      then have "t = []" using aa_from_hex_literal_short [OF assms(1) *] Inl validate_hex_Inr [of t "()"] s by auto
      then have "lower_hex (hbytes a) = lower_hex (hbytes aa_ZERO)"
        using * assms(1) s by (simp add: aa_from_hex_literal_iff lower_hex_zero pad_zeros_def)
      then show False using that by (simp add: lower_hex_inj hash32_eqI)
    qed
    then show ?thesis unfolding s address_from_hex_literal_0x [OF t] using Inl by auto
  next
    case (Inr u)
    then have "length t \<le> 64" using validate_hex_Inr [of t u] by simp
    then show ?thesis
      unfolding s address_from_hex_literal_0x [OF t] using Inr assms(1)
      by (simp add: address_from_hex_Inr aa_from_hex_literal_iff)
  qed
next
  case False
  then show ?thesis
    using assms by (subst address_from_hex_literal.simps) (simp add: aa_from_hex_literal_iff split_once_notin)
qed

section \<open>Properties\<close>

text \<open>
  C18: address literals have one canonical form. A literal is accepted exactly when it is \<^verbatim>\<open>0x\<close> and at
  most 64 hexadecimal digits; printing the address it denotes gives the digits in lower case without
  leading zeros, so two literals denote the same address exactly when these agree; and every printed
  address parses back to itself.
\<close>

theorem account_address_literals:
  assumes "hex_laws h"
  shows "aa_from_hex_literal h (aa_to_hex_literal h a) = Some a \<and>
    (aa_from_hex_literal h s = Some a \<longleftrightarrow>
       starts_with ''0x'' s \<and> length s \<le> 66 \<and> list_all is_ascii_hexdigit (drop 2 s)
       \<and> aa_to_hex_literal h a = ''0x'' @ short_digits (drop 2 s))"
proof (intro conjI iffI)
  show rt: "aa_from_hex_literal h (aa_to_hex_literal h a) = Some a" using assms by (rule aa_literal_roundtrip)
  assume *: "starts_with ''0x'' s \<and> length s \<le> 66 \<and> list_all is_ascii_hexdigit (drop 2 s)
    \<and> aa_to_hex_literal h a = ''0x'' @ short_digits (drop 2 s)"
  then obtain t where s: "s = ''0x'' @ t" by (auto simp: starts_with_iff)
  with * obtain b where b: "aa_from_hex_literal h s = Some b"
    using aa_from_hex_literal_total [OF assms, of t] by auto
  then have "aa_to_hex_literal h b = aa_to_hex_literal h a"
    using aa_from_hex_literal_short(4) [OF assms b] * by simp
  then have "Some b = Some a" using rt aa_literal_roundtrip [OF assms, of b] by simp
  then show "aa_from_hex_literal h s = Some a" using b by simp
qed (use aa_from_hex_literal_short [OF assms] in auto)

text \<open>
  C19: the strict parser agrees with the one of Move. A literal without a tag is accepted exactly when
  the Move parser accepts it with an address other than zero, and then both give the same address; a
  tag in front of a literal changes nothing; a printed address parses back to itself, except zero,
  which is reported as such.
\<close>

theorem address_parsers_agree:
  assumes "hex_laws h" "CHR '':'' \<notin> set s" "CHR '':'' \<notin> set tag"
  shows "(address_from_hex_literal sha3 h s = Inr a \<longleftrightarrow> aa_from_hex_literal h s = Some a \<and> a \<noteq> aa_ZERO) \<and>
    (starts_with ''0x'' s \<longrightarrow>
       address_from_hex_literal sha3 h (tag @ CHR '':'' # s) = address_from_hex_literal sha3 h s) \<and>
    address_from_hex_literal sha3 h (address_to_hex_literal h a) = (if a = aa_ZERO then Inl ZeroAddress else Inr a)"
proof (intro conjI impI)
  show "address_from_hex_literal sha3 h s = Inr a \<longleftrightarrow> aa_from_hex_literal h s = Some a \<and> a \<noteq> aa_ZERO"
    using assms by (intro address_from_hex_literal_untagged)
next
  assume "starts_with ''0x'' s"
  then show "address_from_hex_literal sha3 h (tag @ CHR '':'' # s) = address_from_hex_literal sha3 h s"
    using assms(3) by (subst address_from_hex_literal.simps) (simp add: split_once_append)
next
  let ?t = "lower_hex (hbytes a)"
  have l: "address_to_hex_literal h a = ''0x'' @ ?t"
    using assms(1) by (simp add: address_to_hex_literal_def address_to_hex_def hex_laws_def)
  have hd: "list_all is_ascii_hexdigit ?t" by (rule lower_hex_hexdigits)
  have "\<not> is_ascii_hexdigit CHR '':''" by (simp add: is_ascii_hexdigit_def is_ascii_digit_def)
  then have c: "CHR '':'' \<notin> set ?t" using hd by (auto simp: list_all_iff)
  have v: "validate_hex ?t = Inr ()" using hd length_lower_hex [of "hbytes a"] by (auto simp: validate_hex_Inr simp del: length_lower_hex)
  have "address_from_hex_literal sha3 h (''0x'' @ ?t) = address_from_hex h ?t"
    unfolding address_from_hex_literal_0x [OF c] by (simp add: v pad_zeros_def)
  also have "\<dots> = (if a = aa_ZERO then Inl ZeroAddress else Inr a)"
  proof -
    have "hex_decode_32 h ?t = Some a" using assms(1) by (simp add: hex_laws_def)
    then show ?thesis
      using v validate_non_zero_Inr [of a "()"] hexdigit_utf8 [OF hd]
      by (auto simp: address_from_hex_def validate_non_zero_def)
  qed
  finally show "address_from_hex_literal sha3 h (address_to_hex_literal h a) =
      (if a = aa_ZERO then Inl ZeroAddress else Inr a)" by (simp only: l)
qed

text \<open>An implementation of the laws.\<close>

definition hex_model :: hex_ops where
  "hex_model = \<lparr>hex_encode = lower_hex, hex_decode = unhex,
     hex_decode_32 = (\<lambda>s. case unhex s of None \<Rightarrow> None
        | Some bs \<Rightarrow> if length bs = 32 then Some (Hash32 bs) else None)\<rparr>"

lemma hex_model_laws: "hex_laws hex_model"
proof -
  have "(case unhex s of None \<Rightarrow> None | Some bs \<Rightarrow> if length bs = 32 then Some (Hash32 bs) else None) = Some a
      \<longleftrightarrow> unhex s = Some (hbytes a)" for s a
    by (auto simp: Hash32_inverse hbytes_inverse split: option.splits)
  then show ?thesis by (simp add: hex_laws_def hex_model_def unhex_iff)
qed

theorem account_address_literals_witness:
  "hex_laws hex_model \<and>
   aa_from_hex_literal hex_model (aa_to_hex_literal hex_model aa_ZERO) = Some aa_ZERO"
  using account_address_literals [OF hex_model_laws, of aa_ZERO "''0x0''"] hex_model_laws by blast

theorem address_parsers_agree_witness:
  "address_from_hex_literal (\<lambda>_. zero_hash) hex_model ''K256:0x1'' =
     address_from_hex_literal (\<lambda>_. zero_hash) hex_model ''0x1''"
  using address_parsers_agree [OF hex_model_laws, of "''0x1''" "''K256''" "\<lambda>_. zero_hash" aa_ZERO] by simp

end
