(* ===== verification/Transaction.thy ===== *)
theory Transaction
  imports Address Gas_Coin
begin

text \<open>
  Transactions, \<^verbatim>\<open>crates/kanari-types/src/transaction.rs\<close>: the transaction kinds, the keys the scheduler
  uses to find conflicts, the recognition of native transfers and burns, and signed transactions with
  their caches. BCS, \<^verbatim>\<open>hex\<close>, BLAKE3 and the signature check of \<^verbatim>\<open>kanari-crypto\<close> are parameters, collected
  in \<open>tx_env\<close>. The caches are \<^verbatim>\<open>OnceLock\<close>s: they are filled at most once, also by methods that take
  \<^verbatim>\<open>&self\<close>, so these return the updated value.
\<close>

section \<open>Data\<close>

datatype native_call =
    Transfer string string u64
  | Burn u64

primrec native_call_label :: "native_call \<Rightarrow> string" where
  "native_call_label (Transfer _ _ _) = ''transfer''"
| "native_call_label (Burn _) = ''burn''"

primrec required_native_amount :: "native_call \<Rightarrow> u64" where
  "required_native_amount (Transfer _ _ amount) = amount"
| "required_native_amount (Burn amount) = amount"

datatype object_owner_kind =
    AddressOwner string
  | SharedOwner
  | ImmutableOwner

record object_ref =
  or_object_id :: string
  or_version :: "u64 option"
  or_digest :: "string option"

definition object_ref_new :: "string \<Rightarrow> u64 option \<Rightarrow> string option \<Rightarrow> object_ref" where
  "object_ref_new object_id version dgst =
     \<lparr>or_object_id = object_id, or_version = version, or_digest = dgst\<rparr>"

definition has_full_metadata :: "object_ref \<Rightarrow> bool" where
  "has_full_metadata r \<longleftrightarrow> or_version r \<noteq> None \<and> or_digest r \<noteq> None"

record object_input =
  oi_object_ref :: object_ref
  oi_owner :: "object_owner_kind option"
  oi_mutable :: bool

record gas_payment_rec =
  gp_payment_objects :: "object_ref list"
  gp_owner :: string
  gp_budget :: u64
  gp_price :: u64

record published_module =
  pm_module_name :: string
  pm_module_bytes :: bytes

datatype object_change_kind = ChangeCreated | ChangeMutated | ChangeDeleted | ChangeTransferred

datatype object_graph_edge_kind =
    InputCreate | InputMutate | InputDelete | InputTransfer
  | SharedInputCreate | SharedInputMutate | SharedInputDelete | SharedInputTransfer
  | ImmutableInputCreate | ImmutableInputMutate | ImmutableInputDelete | ImmutableInputTransfer
  | GasCreate | GasMutate | GasDelete | GasTransfer
  | CallContextCreate | VersionSuccessor | EdgeDelete | OwnershipTransfer

record object_graph_edge =
  source_object_ref :: object_ref
  target_object_ref :: object_ref
  edge_relation :: object_graph_edge_kind

record object_change =
  oc_change_type :: object_change_kind
  oc_object_ref :: object_ref
  oc_previous_object_ref :: "object_ref option"
  oc_type :: "string option"
  oc_owner :: "object_owner_kind option"
  oc_previous_owner :: "object_owner_kind option"
  oc_previous_version :: "u64 option"

record transaction_effects =
  te_status :: string
  te_gas_used :: u64
  te_gas_payment :: "gas_payment_rec option"
  te_input_objects :: "object_ref list"
  te_shared_inputs :: "object_ref list"
  te_immutable_inputs :: "object_ref list"
  te_gas_object_refs :: "object_ref list"
  te_object_changes :: "object_change list"
  te_created :: "object_change list"
  te_mutated :: "object_change list"
  te_deleted :: "object_change list"
  te_transferred :: "object_change list"
  te_causal_edges :: "object_graph_edge list"
  te_error_message :: "string option"

text \<open>
  The fields follow the order of the source. \<^verbatim>\<open>PublishModule\<close> and \<^verbatim>\<open>UpgradeModule\<close>: sender, module
  bytes, module name, gas payment, gas limit, gas price, nonce; the package forms carry a list of
  modules; \<^verbatim>\<open>ExecuteFunction\<close>: sender, module, function, type arguments, arguments, object inputs, gas
  payment, gas limit, gas price, nonce.
\<close>

datatype transaction =
    PublishModule string bytes string "gas_payment_rec option" u64 u64 u64
  | PublishPackage string "published_module list" "gas_payment_rec option" u64 u64 u64
  | UpgradeModule string bytes string "gas_payment_rec option" u64 u64 u64
  | UpgradePackage string "published_module list" "gas_payment_rec option" u64 u64 u64
  | ExecuteFunction string string string "string list" "bytes list" "object_input list"
      "gas_payment_rec option" u64 u64 u64

record tx_env =
  env_blake3 :: blake3_fn
  env_hex :: hex_ops
  bcs_transaction :: "transaction \<Rightarrow> bytes option"
  bcs_signed_transaction :: "transaction \<Rightarrow> bytes \<Rightarrow> bytes option"
  bcs_to_u64 :: "u64 \<Rightarrow> bytes option"
  bcs_from_u64 :: "bytes \<Rightarrow> u64 option"
  bcs_from_string :: "bytes \<Rightarrow> string option"
  crypto_verify_signature :: "string \<Rightarrow> bytes \<Rightarrow> bytes \<Rightarrow> string + bool"

section \<open>Transactions\<close>

definition tx_hash :: "tx_env \<Rightarrow> transaction \<Rightarrow> bytes" where
  "tx_hash e tx =
     hash_data_blake3 (env_blake3 e) (case bcs_transaction e tx of Some b \<Rightarrow> b | None \<Rightarrow> [])"

primrec tx_sender :: "transaction \<Rightarrow> string" where
  "tx_sender (PublishModule sender _ _ _ _ _ _) = sender"
| "tx_sender (PublishPackage sender _ _ _ _ _) = sender"
| "tx_sender (UpgradeModule sender _ _ _ _ _ _) = sender"
| "tx_sender (UpgradePackage sender _ _ _ _ _) = sender"
| "tx_sender (ExecuteFunction sender _ _ _ _ _ _ _ _ _) = sender"

primrec tx_nonce :: "transaction \<Rightarrow> u64" where
  "tx_nonce (PublishModule _ _ _ _ _ _ nonce) = nonce"
| "tx_nonce (PublishPackage _ _ _ _ _ nonce) = nonce"
| "tx_nonce (UpgradeModule _ _ _ _ _ _ nonce) = nonce"
| "tx_nonce (UpgradePackage _ _ _ _ _ nonce) = nonce"
| "tx_nonce (ExecuteFunction _ _ _ _ _ _ _ _ _ nonce) = nonce"

primrec tx_gas_limit :: "transaction \<Rightarrow> u64" where
  "tx_gas_limit (PublishModule _ _ _ _ gas_limit _ _) = gas_limit"
| "tx_gas_limit (PublishPackage _ _ _ gas_limit _ _) = gas_limit"
| "tx_gas_limit (UpgradeModule _ _ _ _ gas_limit _ _) = gas_limit"
| "tx_gas_limit (UpgradePackage _ _ _ gas_limit _ _) = gas_limit"
| "tx_gas_limit (ExecuteFunction _ _ _ _ _ _ _ gas_limit _ _) = gas_limit"

primrec tx_gas_price :: "transaction \<Rightarrow> u64" where
  "tx_gas_price (PublishModule _ _ _ _ _ gas_price _) = gas_price"
| "tx_gas_price (PublishPackage _ _ _ _ gas_price _) = gas_price"
| "tx_gas_price (UpgradeModule _ _ _ _ _ gas_price _) = gas_price"
| "tx_gas_price (UpgradePackage _ _ _ _ gas_price _) = gas_price"
| "tx_gas_price (ExecuteFunction _ _ _ _ _ _ _ _ gas_price _) = gas_price"

primrec tx_object_inputs :: "transaction \<Rightarrow> object_input list" where
  "tx_object_inputs (PublishModule _ _ _ _ _ _ _) = []"
| "tx_object_inputs (PublishPackage _ _ _ _ _ _) = []"
| "tx_object_inputs (UpgradeModule _ _ _ _ _ _ _) = []"
| "tx_object_inputs (UpgradePackage _ _ _ _ _ _) = []"
| "tx_object_inputs (ExecuteFunction _ _ _ _ _ object_inputs _ _ _ _) = object_inputs"

primrec tx_gas_payment :: "transaction \<Rightarrow> gas_payment_rec option" where
  "tx_gas_payment (PublishModule _ _ _ gas_payment _ _ _) = gas_payment"
| "tx_gas_payment (PublishPackage _ _ gas_payment _ _ _) = gas_payment"
| "tx_gas_payment (UpgradeModule _ _ _ gas_payment _ _ _) = gas_payment"
| "tx_gas_payment (UpgradePackage _ _ gas_payment _ _ _) = gas_payment"
| "tx_gas_payment (ExecuteFunction _ _ _ _ _ _ gas_payment _ _ _) = gas_payment"

definition requires_strict_object_metadata :: "transaction \<Rightarrow> bool" where
  "requires_strict_object_metadata tx =
     (case tx of
        ExecuteFunction _ _ _ _ _ _ _ _ _ _ \<Rightarrow> True
      | PublishModule _ _ _ _ _ _ _ \<Rightarrow> True
      | PublishPackage _ _ _ _ _ _ \<Rightarrow> True
      | UpgradeModule _ _ _ _ _ _ _ \<Rightarrow> True
      | UpgradePackage _ _ _ _ _ _ \<Rightarrow> True)"

text \<open>\<^verbatim>\<open>GasModule::module_path\<close> and \<^verbatim>\<open>GasModule::function_names\<close>.\<close>

definition gas_module_path :: string where
  "gas_module_path = KANARI_SYSTEM_ADDRESS @ ''::'' @ ''kanari''"

record gas_functions =
  gf_init :: string
  gf_transfer :: string
  gf_burn :: string

definition gas_function_names :: gas_functions where
  "gas_function_names = \<lparr>gf_init = ''init'', gf_transfer = ''transfer'', gf_burn = ''burn''\<rparr>"

definition native_call :: "tx_env \<Rightarrow> transaction \<Rightarrow> native_call option" where
  "native_call e tx =
     (case tx of
        ExecuteFunction _ module function _ args object_inputs _ _ _ _ \<Rightarrow>
          if module \<noteq> gas_module_path then None
          else if function = gf_transfer gas_function_names \<and> length args \<ge> 3 then
            (case aa_from_bytes (args ! 0) of
               None \<Rightarrow> None
             | Some coin \<Rightarrow>
                 (let coin_object_id = aa_to_hex_literal (env_hex e) coin
                  in if \<not> list_ex (\<lambda>input. oi_mutable input \<and>
                            (case aa_from_hex_literal (env_hex e) (or_object_id (oi_object_ref input)) of
                               None \<Rightarrow> False
                             | Some a \<Rightarrow> aa_to_hex_literal (env_hex e) a = coin_object_id)) object_inputs
                     then None
                     else
                       (case bcs_from_u64 e (args ! 1) of
                          None \<Rightarrow> None
                        | Some amount \<Rightarrow>
                            (case aa_from_bytes (args ! 2) of
                               None \<Rightarrow> None
                             | Some recipient \<Rightarrow>
                                 Some (Transfer coin_object_id (aa_to_hex_literal (env_hex e) recipient) amount)))))
          else if function = gf_burn gas_function_names \<and> args \<noteq> [] then
            (case bcs_from_u64 e (last args) of
               None \<Rightarrow> None
             | Some amount \<Rightarrow> Some (Burn amount))
          else None
      | _ \<Rightarrow> None)"

definition is_native_balance_call :: "tx_env \<Rightarrow> transaction \<Rightarrow> bool" where
  "is_native_balance_call e tx \<longleftrightarrow> native_call e tx \<noteq> None"

definition tx_type_label :: "tx_env \<Rightarrow> transaction \<Rightarrow> string" where
  "tx_type_label e tx =
     (case native_call e tx of
        Some call \<Rightarrow> native_call_label call
      | None \<Rightarrow>
          (case tx of
             PublishModule _ _ _ _ _ _ _ \<Rightarrow> ''publish_module''
           | PublishPackage _ _ _ _ _ _ \<Rightarrow> ''publish_package''
           | UpgradeModule _ _ _ _ _ _ _ \<Rightarrow> ''upgrade_module''
           | UpgradePackage _ _ _ _ _ _ \<Rightarrow> ''upgrade_package''
           | ExecuteFunction _ module function _ _ _ _ _ _ _ \<Rightarrow>
               if module = gas_module_path \<and> function = gf_transfer gas_function_names then ''transfer''
               else if module = gas_module_path \<and> function = gf_burn gas_function_names then ''burn''
               else ''call''))"

section \<open>Access and conflict keys\<close>

text \<open>\<^verbatim>\<open>sort\<close> followed by \<^verbatim>\<open>dedup\<close>.\<close>

definition sort_dedup :: "string list \<Rightarrow> string list" where
  "sort_dedup keys = remdups_adj (sort keys)"

definition object_access_keys :: "transaction \<Rightarrow> string list" where
  "object_access_keys tx =
     (let keys = map (\<lambda>input. ''object:'' @ or_object_id (oi_object_ref input)) (tx_object_inputs tx);
          keys = keys @ (case tx_gas_payment tx of
            None \<Rightarrow> []
          | Some gas_payment \<Rightarrow>
              map (\<lambda>payment. ''object:'' @ or_object_id payment) (gp_payment_objects gas_payment))
      in sort_dedup keys)"

definition primary_access_key :: "transaction \<Rightarrow> string" where
  "primary_access_key tx =
     (case find oi_mutable (tx_object_inputs tx) of
        Some input \<Rightarrow> ''mut:object:'' @ or_object_id (oi_object_ref input)
      | None \<Rightarrow>
          (case tx_object_inputs tx of
             input # _ \<Rightarrow>
               (if oi_mutable input then ''mut'' else ''ro'') @ '':object:'' @ or_object_id (oi_object_ref input)
           | [] \<Rightarrow>
               (case Option.bind (tx_gas_payment tx)
                       (\<lambda>gp. case gp_payment_objects gp of [] \<Rightarrow> None | p # _ \<Rightarrow> Some p) of
                  Some payment \<Rightarrow> ''mut:gas:'' @ or_object_id payment
                | None \<Rightarrow> ''owner:'' @ tx_sender tx)))"

definition normalized_sender :: "tx_env \<Rightarrow> transaction \<Rightarrow> string" where
  "normalized_sender e tx =
     (case aa_from_hex_literal (env_hex e) (tx_sender tx) of
        Some addr \<Rightarrow> aa_to_hex_literal (env_hex e) addr
      | None \<Rightarrow> if \<not> starts_with ''0x'' (tx_sender tx) then ''0x'' @ tx_sender tx else tx_sender tx)"

text \<open>What one argument of a native call adds: the object it names as bytes or as text.\<close>

definition arg_conflict_keys :: "tx_env \<Rightarrow> bytes \<Rightarrow> string list" where
  "arg_conflict_keys e arg =
     (case (if length arg = 32 then aa_from_bytes arg else None) of
        Some addr \<Rightarrow> [''object:'' @ aa_to_hex_literal (env_hex e) addr]
      | None \<Rightarrow>
          (case (case bcs_from_string e arg of Some s \<Rightarrow> Some s | None \<Rightarrow> from_utf8 arg) of
             None \<Rightarrow> []
           | Some s \<Rightarrow>
               (let s_trim = str_trim s;
                    hex_str = (if \<not> starts_with ''0x'' s_trim then ''0x'' @ s_trim else s_trim)
                in case aa_from_hex_literal (env_hex e) hex_str of
                     None \<Rightarrow> []
                   | Some addr \<Rightarrow> [''object:'' @ aa_to_hex_literal (env_hex e) addr])))"

definition get_conflict_keys :: "tx_env \<Rightarrow> transaction \<Rightarrow> string list" where
  "get_conflict_keys e tx =
     (let keys = (if object_access_keys tx \<noteq> [] then object_access_keys tx
                  else [''owner:'' @ normalized_sender e tx]);
          keys = (case tx of
              ExecuteFunction _ _ _ _ args _ _ _ _ _ \<Rightarrow>
                if length keys = 1 \<and> native_call e tx \<noteq> None
                then keys @ concat (map (arg_conflict_keys e) args) else keys
            | PublishModule _ _ module_name _ _ _ _ \<Rightarrow> keys @ [''module:'' @ module_name]
            | UpgradeModule _ _ module_name _ _ _ _ \<Rightarrow> keys @ [''module:'' @ module_name]
            | PublishPackage _ modules _ _ _ _ \<Rightarrow> keys @ map (\<lambda>m. ''module:'' @ pm_module_name m) modules
            | UpgradePackage _ modules _ _ _ _ \<Rightarrow> keys @ map (\<lambda>m. ''module:'' @ pm_module_name m) modules)
      in sort_dedup keys)"

section \<open>Building native transactions\<close>

definition new_transfer_with_object_ref_and_gas ::
  "tx_env \<Rightarrow> string \<Rightarrow> object_ref \<Rightarrow> string \<Rightarrow> u64 \<Rightarrow> u64 \<Rightarrow> u64 \<Rightarrow> u64 \<Rightarrow> transaction" where
  "new_transfer_with_object_ref_and_gas e sndr coin_object_ref recipient amount nonce gas_limit gas_price =
     (let coin_object_addr =
            (case aa_from_hex_literal (env_hex e) (or_object_id coin_object_ref) of Some a \<Rightarrow> a | None \<Rightarrow> aa_ZERO);
          recipient_addr =
            (case aa_from_hex_literal (env_hex e) recipient of Some a \<Rightarrow> a | None \<Rightarrow> aa_ZERO)
      in ExecuteFunction sndr gas_module_path (gf_transfer gas_function_names) []
           [hbytes coin_object_addr,
            (case bcs_to_u64 e amount of Some b \<Rightarrow> b | None \<Rightarrow> []),
            hbytes recipient_addr]
           [\<lparr>oi_object_ref = coin_object_ref, oi_owner = Some (AddressOwner sndr), oi_mutable = True\<rparr>]
           (Some \<lparr>gp_payment_objects = [coin_object_ref], gp_owner = sndr, gp_budget = gas_limit, gp_price = gas_price\<rparr>)
           gas_limit gas_price nonce)"

definition new_transfer_with_object_ref ::
  "tx_env \<Rightarrow> string \<Rightarrow> object_ref \<Rightarrow> string \<Rightarrow> u64 \<Rightarrow> u64 \<Rightarrow> transaction" where
  "new_transfer_with_object_ref e sndr coin_object_ref recipient amount nonce =
     new_transfer_with_object_ref_and_gas e sndr coin_object_ref recipient amount nonce 100000 1000"

definition new_transfer_with_gas ::
  "tx_env \<Rightarrow> string \<Rightarrow> string \<Rightarrow> string \<Rightarrow> u64 \<Rightarrow> u64 \<Rightarrow> u64 \<Rightarrow> u64 \<Rightarrow> transaction" where
  "new_transfer_with_gas e sndr coin_object_id recipient amount nonce gas_limit gas_price =
     new_transfer_with_object_ref_and_gas e sndr (object_ref_new coin_object_id None None) recipient amount nonce
       gas_limit gas_price"

definition new_transfer :: "tx_env \<Rightarrow> string \<Rightarrow> string \<Rightarrow> string \<Rightarrow> u64 \<Rightarrow> u64 \<Rightarrow> transaction" where
  "new_transfer e sndr coin_object_id recipient amount nonce =
     new_transfer_with_gas e sndr coin_object_id recipient amount nonce 100000 1000"

definition new_burn_with_gas :: "tx_env \<Rightarrow> string \<Rightarrow> u64 \<Rightarrow> u64 \<Rightarrow> u64 \<Rightarrow> u64 \<Rightarrow> transaction" where
  "new_burn_with_gas e sndr amount nonce gas_limit gas_price =
     ExecuteFunction sndr gas_module_path (gf_burn gas_function_names) []
       [case bcs_to_u64 e amount of Some b \<Rightarrow> b | None \<Rightarrow> []] []
       (Some \<lparr>gp_payment_objects = [], gp_owner = sndr, gp_budget = gas_limit, gp_price = gas_price\<rparr>)
       gas_limit gas_price nonce"

definition new_burn :: "tx_env \<Rightarrow> string \<Rightarrow> u64 \<Rightarrow> u64 \<Rightarrow> transaction" where
  "new_burn e sndr amount nonce = new_burn_with_gas e sndr amount nonce 100000 1000"

section \<open>Signed transactions\<close>

datatype tx_error = NotSigned | SigningFailed string | VerificationFailed string | InvalidSignature

record signed_transaction =
  st_transaction :: transaction
  st_signature :: bytes
  cached_transaction_hash :: "bytes option"
  cached_verified_signature :: "(bytes \<times> bytes) option"

record verified_signed_transaction =
  vst_signed :: signed_transaction
  vst_tx_hash :: bytes

definition signed_new :: "transaction \<Rightarrow> signed_transaction" where
  "signed_new tx = \<lparr>st_transaction = tx, st_signature = [], cached_transaction_hash = None,
     cached_verified_signature = None\<rparr>"

text \<open>\<^verbatim>\<open>OnceLock::set\<close> keeps a value that is already there.\<close>

definition once_set :: "'a \<Rightarrow> 'a option \<Rightarrow> 'a option" where
  "once_set v l = (case l of None \<Rightarrow> Some v | Some w \<Rightarrow> Some w)"

definition transaction_hash :: "tx_env \<Rightarrow> signed_transaction \<Rightarrow> bytes \<times> signed_transaction" where
  "transaction_hash e st =
     (case cached_transaction_hash st of
        Some h \<Rightarrow> (h, st)
      | None \<Rightarrow> (let h = tx_hash e (st_transaction st) in (h, st\<lparr>cached_transaction_hash := Some h\<rparr>)))"

text \<open>The argument \<open>signer\<close> is \<^verbatim>\<open>sign_message\<close> with the private key and the curve applied.\<close>

definition st_sign ::
  "tx_env \<Rightarrow> (bytes \<Rightarrow> string + bytes) \<Rightarrow> signed_transaction \<Rightarrow> (tx_error + unit) \<times> signed_transaction" where
  "st_sign e signer st =
     (let (h, st) = transaction_hash e st
      in case signer h of
           Inl err \<Rightarrow> (Inl (SigningFailed err), st)
         | Inr sg \<Rightarrow>
             (Inr (), st\<lparr>st_signature := sg,
                         cached_verified_signature := once_set (h, sg) (cached_verified_signature st)\<rparr>))"

definition verified_in_cache :: "signed_transaction \<Rightarrow> bytes \<Rightarrow> bool" where
  "verified_in_cache st current_hash =
     (case cached_verified_signature st of
        None \<Rightarrow> False
      | Some (cached_hash, cached_signature) \<Rightarrow> cached_hash = current_hash \<and> cached_signature = st_signature st)"

definition verify_signature_for_hash ::
  "tx_env \<Rightarrow> bytes \<Rightarrow> signed_transaction \<Rightarrow> (tx_error + bool) \<times> signed_transaction" where
  "verify_signature_for_hash e h st =
     (if st_signature st = [] then (Inl NotSigned, st)
      else
        (let current_hash = tx_hash e (st_transaction st)
         in if h \<noteq> current_hash then (Inr False, st)
            else if verified_in_cache st current_hash then (Inr True, st)
            else
              (case crypto_verify_signature e (tx_sender (st_transaction st)) h (st_signature st) of
                 Inl err \<Rightarrow> (Inl (VerificationFailed err), st)
               | Inr verified \<Rightarrow>
                   if \<not> verified then (Inr False, st)
                   else (Inr True, st\<lparr>cached_verified_signature :=
                           once_set (current_hash, st_signature st) (cached_verified_signature st)\<rparr>))))"

definition verify_signature :: "tx_env \<Rightarrow> signed_transaction \<Rightarrow> (tx_error + bool) \<times> signed_transaction" where
  "verify_signature e st = (let (h, st) = transaction_hash e st in verify_signature_for_hash e h st)"

definition verified_transaction_hash ::
  "tx_env \<Rightarrow> signed_transaction \<Rightarrow> (tx_error + bytes) \<times> signed_transaction" where
  "verified_transaction_hash e st =
     (if st_signature st = [] then (Inl NotSigned, st)
      else
        (let current_hash = tx_hash e (st_transaction st)
         in if verified_in_cache st current_hash then (Inr current_hash, st)
            else
              (case crypto_verify_signature e (tx_sender (st_transaction st)) current_hash (st_signature st) of
                 Inl err \<Rightarrow> (Inl (VerificationFailed err), st)
               | Inr verified \<Rightarrow>
                   if \<not> verified then (Inl InvalidSignature, st)
                   else (Inr current_hash, st\<lparr>cached_verified_signature :=
                           once_set (current_hash, st_signature st) (cached_verified_signature st)\<rparr>))))"

definition into_verified :: "tx_env \<Rightarrow> signed_transaction \<Rightarrow> tx_error + verified_signed_transaction" where
  "into_verified e st =
     (case verified_transaction_hash e st of
        (Inl err, _) \<Rightarrow> Inl err
      | (Inr h, st) \<Rightarrow> Inr \<lparr>vst_signed = st, vst_tx_hash = h\<rparr>)"

definition signed_hash :: "tx_env \<Rightarrow> signed_transaction \<Rightarrow> bytes" where
  "signed_hash e st =
     hash_data_blake3 (env_blake3 e)
       (case bcs_signed_transaction e (st_transaction st) (st_signature st) of Some b \<Rightarrow> b | None \<Rightarrow> [])"

end
