(* ===== verification/Blockchain.thy ===== *)
theory Blockchain
  imports Transaction Sparse_Merkle
begin

text \<open>
  Checkpoints, \<^verbatim>\<open>crates/kanari-core/src/consensus.rs\<close>, and the chain of checkpoints with its replay
  protection and bounded retention, \<^verbatim>\<open>crates/kanari-core/src/blockchain.rs\<close>. BCS is a parameter, one
  encoder per tuple the checkpoint hash serialises. \<^verbatim>\<open>usize\<close> is 64 bits wide. Filling the hash cache of
  a stored transaction is not observable and left out: \<open>stx_hash\<close> is the hash the cache returns.
\<close>

section \<open>Checkpoints\<close>

record checkpoint =
  cp_sequence :: u64
  cp_vertices :: "hash32 list"
  cp_transactions :: "signed_transaction list"
  cp_transaction_effects :: "transaction_effects list"
  cp_object_changes :: "object_change list"
  cp_object_graph_edges :: "object_graph_edge list"
  cp_state_root :: bytes
  cp_timestamp :: u64
  cp_prev_checkpoint_hash :: bytes
  cp_hash_version :: u8

record cp_env =
  cp_tx_env :: tx_env
  bcs_checkpoint_v0 :: "u64 \<times> bytes list \<times> bytes \<times> bytes \<Rightarrow> bytes option"
  bcs_checkpoint_v1 :: "u8 \<times> u64 \<times> hash32 list \<times> bytes list \<times> transaction_effects list \<times>
    object_change list \<times> object_graph_edge list \<times> bytes \<times> u64 \<times> bytes \<Rightarrow> bytes option"
  bcs_checkpoint_v2 :: "u8 \<times> u64 \<times> hash32 list \<times> bytes list \<times> transaction_effects list \<times>
    bytes \<times> u64 \<times> bytes \<Rightarrow> bytes option"

definition checkpoint_new ::
  "u64 \<Rightarrow> hash32 list \<Rightarrow> signed_transaction list \<Rightarrow> bytes \<Rightarrow> u64 \<Rightarrow> bytes \<Rightarrow> checkpoint" where
  "checkpoint_new sequence vertices transactions state_root timestamp prev_checkpoint_hash =
     \<lparr>cp_sequence = sequence, cp_vertices = vertices, cp_transactions = transactions,
      cp_transaction_effects = [], cp_object_changes = [], cp_object_graph_edges = [],
      cp_state_root = state_root, cp_timestamp = timestamp,
      cp_prev_checkpoint_hash = prev_checkpoint_hash, cp_hash_version = 2\<rparr>"

definition with_transaction_effects :: "transaction_effects list \<Rightarrow> checkpoint \<Rightarrow> checkpoint" where
  "with_transaction_effects effects cp = cp\<lparr>cp_transaction_effects := effects\<rparr>"

definition with_object_changes :: "object_change list \<Rightarrow> checkpoint \<Rightarrow> checkpoint" where
  "with_object_changes object_changes cp = cp\<lparr>cp_object_changes := object_changes\<rparr>"

definition with_object_graph_edges :: "object_graph_edge list \<Rightarrow> checkpoint \<Rightarrow> checkpoint" where
  "with_object_graph_edges object_graph_edges cp = cp\<lparr>cp_object_graph_edges := object_graph_edges\<rparr>"

definition stx_hash :: "cp_env \<Rightarrow> signed_transaction \<Rightarrow> bytes" where
  "stx_hash e tx = fst (transaction_hash (cp_tx_env e) tx)"

definition checkpoint_hash :: "cp_env \<Rightarrow> checkpoint \<Rightarrow> bytes option" where
  "checkpoint_hash e cp =
     (let tx_hashes = map (stx_hash e) (cp_transactions cp);
          serialized =
            (if cp_hash_version cp = 0 then
               bcs_checkpoint_v0 e (cp_sequence cp, tx_hashes, cp_state_root cp, cp_prev_checkpoint_hash cp)
             else if cp_hash_version cp = 1 then
               bcs_checkpoint_v1 e (cp_hash_version cp, cp_sequence cp, cp_vertices cp, tx_hashes,
                 cp_transaction_effects cp, cp_object_changes cp, cp_object_graph_edges cp,
                 cp_state_root cp, cp_timestamp cp, cp_prev_checkpoint_hash cp)
             else
               bcs_checkpoint_v2 e (cp_hash_version cp, cp_sequence cp, cp_vertices cp, tx_hashes,
                 cp_transaction_effects cp, cp_state_root cp, cp_timestamp cp, cp_prev_checkpoint_hash cp))
      in map_option (hash_data_blake3 (env_blake3 (cp_tx_env e))) serialized)"

definition checkpoint_genesis :: "cp_env \<Rightarrow> checkpoint" where
  "checkpoint_genesis e =
     \<lparr>cp_sequence = 0, cp_vertices = [], cp_transactions = [], cp_transaction_effects = [],
      cp_object_changes = [], cp_object_graph_edges = [],
      cp_state_root = hbytes (DEFAULT_HASHES (env_blake3 (cp_tx_env e)) ! 0), cp_timestamp = 0,
      cp_prev_checkpoint_hash = replicate 32 0, cp_hash_version = 0\<rparr>"

section \<open>The chain\<close>

definition MAX_RETAINED_BLOCKS :: nat where
  "MAX_RETAINED_BLOCKS = 1000"

definition MAX_RETAINED_TX_HASHES :: nat where
  "MAX_RETAINED_TX_HASHES = 2000000"

record blockchain =
  dag_checkpoints :: "checkpoint list"
  executed_tx_hashes :: "bytes set"
  tx_hash_queue :: "bytes list"
  tx_location_index :: "(bytes \<times> (u64 \<times> nat)) list"
  total_transaction_count :: u64

datatype chain_error =
    EmptyChain
  | InvalidSequence u64 u64
  | CheckpointEncoding
  | InvalidPreviousHash
  | DuplicateTransaction
  | ReplayDetected

definition default_dag_checkpoints :: "cp_env \<Rightarrow> checkpoint list" where
  "default_dag_checkpoints e = [checkpoint_genesis e]"

definition blockchain_new :: "cp_env \<Rightarrow> blockchain" where
  "blockchain_new e = \<lparr>dag_checkpoints = [checkpoint_genesis e], executed_tx_hashes = {}, tx_hash_queue = [],
     tx_location_index = [], total_transaction_count = 0\<rparr>"

text \<open>\<^verbatim>\<open>None\<close> stands for the panic of \<^verbatim>\<open>invariant\<close> on an empty deque.\<close>

definition latest_checkpoint :: "blockchain \<Rightarrow> checkpoint option" where
  "latest_checkpoint bc = (if dag_checkpoints bc = [] then None else Some (last (dag_checkpoints bc)))"

definition chain_height :: "blockchain \<Rightarrow> u64 option" where
  "chain_height bc = map_option cp_sequence (latest_checkpoint bc)"

definition is_transaction_hash_executed :: "blockchain \<Rightarrow> bytes \<Rightarrow> bool" where
  "is_transaction_hash_executed bc h \<longleftrightarrow> h \<in> executed_tx_hashes bc"

text \<open>\<^verbatim>\<open>VecDeque::remove(i)\<close>: nothing happens out of range.\<close>

definition deque_remove :: "nat \<Rightarrow> 'a list \<Rightarrow> 'a list" where
  "deque_remove i xs = take i xs @ drop (Suc i) xs"

function trim_to_retained :: "checkpoint list \<Rightarrow> checkpoint list" where
  "trim_to_retained cps =
     (if length cps > MAX_RETAINED_BLOCKS then trim_to_retained (deque_remove 1 cps) else cps)"
  by pat_completeness auto
termination
  by (relation "measure length") (auto simp: deque_remove_def MAX_RETAINED_BLOCKS_def)

definition ensure_genesis_retained :: "cp_env \<Rightarrow> blockchain \<Rightarrow> bool \<times> blockchain" where
  "ensure_genesis_retained e bc =
     (if dag_checkpoints bc \<noteq> [] \<and> cp_sequence (hd (dag_checkpoints bc)) = 0 then (False, bc)
      else (True, bc\<lparr>dag_checkpoints := trim_to_retained (checkpoint_genesis e # dag_checkpoints bc)\<rparr>))"

definition retained_transaction_count :: "blockchain \<Rightarrow> nat" where
  "retained_transaction_count bc = sum_list (map (\<lambda>cp. length (cp_transactions cp)) (dag_checkpoints bc))"

text \<open>The body of the loop over the transactions of a checkpoint.\<close>

definition track_tx :: "u64 \<Rightarrow> nat \<Rightarrow> bytes \<Rightarrow> blockchain \<Rightarrow> blockchain" where
  "track_tx sequence index h bc =
     (let bc = (if h \<notin> executed_tx_hashes bc
                then bc\<lparr>executed_tx_hashes := insert h (executed_tx_hashes bc),
                        tx_hash_queue := tx_hash_queue bc @ [h],
                        total_transaction_count := saturating_add (total_transaction_count bc) 1\<rparr>
                else bc)
      in bc\<lparr>tx_location_index := AList.update h (sequence, index) (tx_location_index bc)\<rparr>)"

text \<open>The loop that forgets the oldest hashes.\<close>

function evict_tx_hashes :: "blockchain \<Rightarrow> blockchain" where
  "evict_tx_hashes bc =
     (if length (tx_hash_queue bc) > MAX_RETAINED_TX_HASHES then
        (case tx_hash_queue bc of
           [] \<Rightarrow> bc
         | old_hash # rest \<Rightarrow>
             evict_tx_hashes (bc\<lparr>tx_hash_queue := rest,
                                executed_tx_hashes := executed_tx_hashes bc - {old_hash},
                                tx_location_index := AList.delete old_hash (tx_location_index bc)\<rparr>))
      else bc)"
  by pat_completeness auto
termination
  by (relation "measure (length \<circ> tx_hash_queue)") auto

declare evict_tx_hashes.simps [simp del] and trim_to_retained.simps [simp del]

definition rebuild_tx_hash_index :: "cp_env \<Rightarrow> blockchain \<Rightarrow> blockchain" where
  "rebuild_tx_hash_index e bc =
     (let persisted_total = total_transaction_count bc;
          bc = bc\<lparr>executed_tx_hashes := {}, tx_hash_queue := [], tx_location_index := [],
                  total_transaction_count := 0\<rparr>;
          bc = fold (\<lambda>cp bc. fold (\<lambda>(index, tx) bc.
                  evict_tx_hashes (track_tx (cp_sequence cp) index (stx_hash e tx) bc))
                 (List.enumerate 0 (cp_transactions cp)) bc) (dag_checkpoints bc) bc
      in bc\<lparr>total_transaction_count := max (total_transaction_count bc) persisted_total\<rparr>)"

definition track_checkpoint_transactions :: "cp_env \<Rightarrow> checkpoint \<Rightarrow> blockchain \<Rightarrow> blockchain" where
  "track_checkpoint_transactions e cp bc =
     evict_tx_hashes (fold (\<lambda>(index, tx). track_tx (cp_sequence cp) index (stx_hash e tx))
       (List.enumerate 0 (cp_transactions cp)) bc)"

fun check_transactions :: "bytes set \<Rightarrow> bytes set \<Rightarrow> bytes list \<Rightarrow> chain_error option" where
  "check_transactions executed seen [] = None"
| "check_transactions executed seen (h # hs) =
     (if h \<in> seen then Some DuplicateTransaction
      else if h \<in> executed then Some ReplayDetected
      else check_transactions executed (insert h seen) hs)"

definition validate_checkpoint :: "cp_env \<Rightarrow> checkpoint \<Rightarrow> blockchain \<Rightarrow> chain_error option" where
  "validate_checkpoint e cp bc =
     (case latest_checkpoint bc of
        None \<Rightarrow> Some EmptyChain
      | Some latest \<Rightarrow>
          (let expected_seq = cp_sequence latest + 1
           in if cp_sequence cp \<noteq> expected_seq then Some (InvalidSequence expected_seq (cp_sequence cp))
              else case checkpoint_hash e latest of
                None \<Rightarrow> Some CheckpointEncoding
              | Some h \<Rightarrow>
                  if cp_prev_checkpoint_hash cp \<noteq> h then Some InvalidPreviousHash
                  else check_transactions (executed_tx_hashes bc) {} (map (stx_hash e) (cp_transactions cp))))"

definition evict_oldest :: "cp_env \<Rightarrow> blockchain \<Rightarrow> blockchain" where
  "evict_oldest e bc =
     (if length (dag_checkpoints bc) > MAX_RETAINED_BLOCKS \<and> 1 < length (dag_checkpoints bc) then
        (let evicted = dag_checkpoints bc ! 1
         in bc\<lparr>dag_checkpoints := deque_remove 1 (dag_checkpoints bc),
               tx_location_index := fold (\<lambda>tx. AList.delete (stx_hash e tx)) (cp_transactions evicted)
                 (tx_location_index bc)\<rparr>)
      else bc)"

definition add_checkpoint_with_validation ::
  "cp_env \<Rightarrow> checkpoint \<Rightarrow> bool \<Rightarrow> blockchain \<Rightarrow> chain_error + blockchain" where
  "add_checkpoint_with_validation e cp validate bc =
     (case (if validate then validate_checkpoint e cp bc else None) of
        Some err \<Rightarrow> Inl err
      | None \<Rightarrow>
          (let bc = track_checkpoint_transactions e cp bc;
               bc = bc\<lparr>dag_checkpoints := dag_checkpoints bc @ [cp]\<rparr>
           in Inr (evict_oldest e bc)))"

definition get_checkpoint :: "blockchain \<Rightarrow> u64 \<Rightarrow> checkpoint option" where
  "get_checkpoint bc sequence = find (\<lambda>cp. cp_sequence cp = sequence) (dag_checkpoints bc)"

definition get_transaction_count :: "blockchain \<Rightarrow> nat" where
  "get_transaction_count bc =
     max (max (unat (total_transaction_count bc)) (length (tx_location_index bc)))
       (retained_transaction_count bc)"

definition list_get :: "'a list \<Rightarrow> nat \<Rightarrow> 'a option" where
  "list_get xs i = (if i < length xs then Some (xs ! i) else None)"

text \<open>A transaction, the sequence and state root of its checkpoint, and its effects.\<close>

type_synonym tx_location = "signed_transaction \<times> u64 \<times> bytes \<times> transaction_effects option"

definition scan_checkpoint :: "cp_env \<Rightarrow> bytes \<Rightarrow> checkpoint \<Rightarrow> tx_location option" where
  "scan_checkpoint e h cp =
     map_option (\<lambda>(index, tx). (tx, cp_sequence cp, cp_state_root cp, list_get (cp_transaction_effects cp) index))
       (find (\<lambda>(_, tx). stx_hash e tx = h) (List.enumerate 0 (cp_transactions cp)))"

fun find_map :: "('a \<Rightarrow> 'b option) \<Rightarrow> 'a list \<Rightarrow> 'b option" where
  "find_map f [] = None"
| "find_map f (x # xs) = (case f x of Some y \<Rightarrow> Some y | None \<Rightarrow> find_map f xs)"

definition indexed_location :: "blockchain \<Rightarrow> bytes \<Rightarrow> tx_location option" where
  "indexed_location bc h =
     Option.bind (map_of (tx_location_index bc) h) (\<lambda>(sequence, index).
     Option.bind (get_checkpoint bc sequence) (\<lambda>cp.
     Option.bind (list_get (cp_transactions cp) index) (\<lambda>tx.
       Some (tx, cp_sequence cp, cp_state_root cp, list_get (cp_transaction_effects cp) index))))"

definition get_transaction_location_with_effect :: "cp_env \<Rightarrow> blockchain \<Rightarrow> bytes \<Rightarrow> tx_location option" where
  "get_transaction_location_with_effect e bc h =
     (case indexed_location bc h of
        Some r \<Rightarrow> Some r
      | None \<Rightarrow> find_map (scan_checkpoint e h) (rev (dag_checkpoints bc)))"

end
