(* ===== verification/Blockchain_Correct.thy ===== *)
theory Blockchain_Correct
  imports Blockchain
begin

text \<open>
  The chain of checkpoints as a state machine: it starts at genesis, accepts validated checkpoints and
  is reloaded by rebuilding its index. Its invariant gives the shape of the retained chain, what the
  replay protection remembers, and that looking a transaction up is correct.
\<close>

section \<open>The hash index\<close>

definition index_ok :: "blockchain \<Rightarrow> bool" where
  "index_ok bc \<longleftrightarrow> distinct (tx_hash_queue bc) \<and> set (tx_hash_queue bc) = executed_tx_hashes bc"

text \<open>Every location points into one of the given checkpoints, at a transaction with that hash.\<close>

definition locations_ok :: "cp_env \<Rightarrow> checkpoint set \<Rightarrow> blockchain \<Rightarrow> bool" where
  "locations_ok e cps bc \<longleftrightarrow> distinct (map fst (tx_location_index bc)) \<and>
     (\<forall>h s i. map_of (tx_location_index bc) h = Some (s, i) \<longrightarrow>
        (\<exists>cp \<in> cps. cp_sequence cp = s \<and> i < length (cp_transactions cp) \<and> stx_hash e (cp_transactions cp ! i) = h))"

lemma track_tx_frame [simp]: "dag_checkpoints (track_tx s i h bc) = dag_checkpoints bc"
  by (simp add: track_tx_def Let_def)

lemma track_tx_index: "index_ok bc \<Longrightarrow> index_ok (track_tx s i h bc)"
  by (auto simp: index_ok_def track_tx_def Let_def)

lemma track_tx_new:
  "h \<notin> executed_tx_hashes bc \<Longrightarrow>
     executed_tx_hashes (track_tx s i h bc) = insert h (executed_tx_hashes bc) \<and>
     tx_hash_queue (track_tx s i h bc) = tx_hash_queue bc @ [h] \<and>
     total_transaction_count (track_tx s i h bc) = saturating_add (total_transaction_count bc) 1"
  by (simp add: track_tx_def Let_def)

lemma track_tx_locations:
  assumes "locations_ok e cps bc" "cp \<in> cps" "i < length (cp_transactions cp)"
  shows "locations_ok e cps (track_tx (cp_sequence cp) i (stx_hash e (cp_transactions cp ! i)) bc)"
  using assms by (auto simp: locations_ok_def track_tx_def Let_def update_conv' distinct_update)

lemma evict_frame [simp]:
  "dag_checkpoints (evict_tx_hashes bc) = dag_checkpoints bc"
  "total_transaction_count (evict_tx_hashes bc) = total_transaction_count bc"
proof (induction bc rule: evict_tx_hashes.induct)
  case (1 bc)
  {
    case 1
    then show ?case by (subst evict_tx_hashes.simps) (auto simp: "1.IH" split: list.split)
  next
    case 2
    then show ?case by (subst evict_tx_hashes.simps) (auto simp: "1.IH" split: list.split)
  }
qed

lemma evict_queue:
  "tx_hash_queue (evict_tx_hashes bc) =
     drop (length (tx_hash_queue bc) - MAX_RETAINED_TX_HASHES) (tx_hash_queue bc)"
proof (induction bc rule: evict_tx_hashes.induct)
  case (1 bc)
  show ?case
  proof (cases "length (tx_hash_queue bc) > MAX_RETAINED_TX_HASHES")
    case True
    then obtain h q where q: "tx_hash_queue bc = h # q" by (cases "tx_hash_queue bc") auto
    then have "length (h # q) - MAX_RETAINED_TX_HASHES = Suc (length q - MAX_RETAINED_TX_HASHES)"
      using True by simp
    then show ?thesis using "1.IH" [OF True q] True q by (subst evict_tx_hashes.simps) simp
  qed (subst evict_tx_hashes.simps, simp)
qed

lemma evict_index: "index_ok bc \<Longrightarrow> index_ok (evict_tx_hashes bc)"
proof (induction bc rule: evict_tx_hashes.induct)
  case (1 bc)
  show ?case
  proof (cases "length (tx_hash_queue bc) > MAX_RETAINED_TX_HASHES")
    case True
    then obtain h q where q: "tx_hash_queue bc = h # q" by (cases "tx_hash_queue bc") auto
    show ?thesis
      using "1.IH" [OF True q] "1.prems" True q
      by (subst evict_tx_hashes.simps) (auto simp: index_ok_def)
  qed (subst evict_tx_hashes.simps, simp add: "1.prems")
qed

lemma locations_delete:
  assumes "locations_ok e cps bc" "tx_location_index bc' = AList.delete h (tx_location_index bc)"
  shows "locations_ok e cps bc'"
proof -
  have "map_of (tx_location_index bc') k = Some v \<Longrightarrow> map_of (tx_location_index bc) k = Some v" for k v
    using assms(2) by (auto simp: delete_conv' split: if_splits)
  then show ?thesis
    using assms distinct_delete [of "tx_location_index bc" h] by (fastforce simp: locations_ok_def)
qed

lemma evict_locations: "locations_ok e cps bc \<Longrightarrow> locations_ok e cps (evict_tx_hashes bc)"
proof (induction bc rule: evict_tx_hashes.induct)
  case (1 bc)
  show ?case
  proof (cases "length (tx_hash_queue bc) > MAX_RETAINED_TX_HASHES")
    case True
    then obtain h q where q: "tx_hash_queue bc = h # q" by (cases "tx_hash_queue bc") auto
    have "locations_ok e cps (bc\<lparr>tx_hash_queue := q, executed_tx_hashes := executed_tx_hashes bc - {h},
        tx_location_index := AList.delete h (tx_location_index bc)\<rparr>)"
      using "1.prems" by (rule locations_delete) simp
    then show ?thesis using "1.IH" [OF True q] True q by (subst evict_tx_hashes.simps) simp
  qed (subst evict_tx_hashes.simps, simp add: "1.prems")
qed

lemma evict_small: "length (tx_hash_queue bc) \<le> MAX_RETAINED_TX_HASHES \<Longrightarrow> evict_tx_hashes bc = bc"
  by (subst evict_tx_hashes.simps) simp

lemma evict_bound: "length (tx_hash_queue (evict_tx_hashes bc)) \<le> MAX_RETAINED_TX_HASHES"
  by (simp add: evict_queue)

lemma locations_mono: "locations_ok e cps bc \<Longrightarrow> cps \<subseteq> cps' \<Longrightarrow> locations_ok e cps' bc"
  by (fastforce simp: locations_ok_def)

lemma locations_dag [simp]: "locations_ok e cps (bc\<lparr>dag_checkpoints := d\<rparr>) = locations_ok e cps bc"
  and locations_total [simp]: "locations_ok e cps (bc\<lparr>total_transaction_count := t\<rparr>) = locations_ok e cps bc"
  and index_dag [simp]: "index_ok (bc\<lparr>dag_checkpoints := d\<rparr>) = index_ok bc"
  and index_loc [simp]: "index_ok (bc\<lparr>tx_location_index := l\<rparr>) = index_ok bc"
  and index_total [simp]: "index_ok (bc\<lparr>total_transaction_count := t\<rparr>) = index_ok bc"
  by (simp_all add: locations_ok_def index_ok_def)

section \<open>Tracking a checkpoint\<close>

abbreviation track_all :: "cp_env \<Rightarrow> u64 \<Rightarrow> nat \<Rightarrow> signed_transaction list \<Rightarrow> blockchain \<Rightarrow> blockchain" where
  "track_all e s k txs bc \<equiv> fold (\<lambda>(index, tx). track_tx s index (stx_hash e tx)) (List.enumerate k txs) bc"

lemma track_fold_new:
  assumes "distinct (map (stx_hash e) txs)" "set (map (stx_hash e) txs) \<inter> executed_tx_hashes bc = {}"
  shows "tx_hash_queue (track_all e s k txs bc) = tx_hash_queue bc @ map (stx_hash e) txs \<and>
    (unat (total_transaction_count bc) + length txs < 2 ^ 64 \<longrightarrow>
       unat (total_transaction_count (track_all e s k txs bc)) = unat (total_transaction_count bc) + length txs)"
  using assms
proof (induction txs arbitrary: k bc)
  case (Cons tx txs)
  let ?bc = "track_tx s k (stx_hash e tx) bc"
  have new: "stx_hash e tx \<notin> executed_tx_hashes bc" using Cons.prems by auto
  then have "set (map (stx_hash e) txs) \<inter> executed_tx_hashes ?bc = {}"
    using Cons.prems by (auto simp: track_tx_new)
  then have IH: "tx_hash_queue (track_all e s (Suc k) txs ?bc) = tx_hash_queue ?bc @ map (stx_hash e) txs \<and>
      (unat (total_transaction_count ?bc) + length txs < 2 ^ 64 \<longrightarrow>
       unat (total_transaction_count (track_all e s (Suc k) txs ?bc)) = unat (total_transaction_count ?bc) + length txs)"
    using Cons.prems by (intro Cons.IH) auto
  have t: "unat (total_transaction_count ?bc) = unat (total_transaction_count bc) + 1"
    if "unat (total_transaction_count bc) + length (tx # txs) < 2 ^ 64"
    using that track_tx_new [OF new, of s k] by (simp only: unat_saturating_add) simp
  have step: "track_all e s k (tx # txs) bc = track_all e s (Suc k) txs ?bc" by simp
  have q: "tx_hash_queue ?bc = tx_hash_queue bc @ [stx_hash e tx]" using track_tx_new [OF new, of s k] by blast
  show ?case
  proof (intro conjI impI)
    show "tx_hash_queue (track_all e s k (tx # txs) bc) = tx_hash_queue bc @ map (stx_hash e) (tx # txs)"
      unfolding step using IH q by simp
    assume b: "unat (total_transaction_count bc) + length (tx # txs) < 2 ^ 64"
    show "unat (total_transaction_count (track_all e s k (tx # txs) bc)) =
        unat (total_transaction_count bc) + length (tx # txs)"
      unfolding step using IH t [OF b] b by (simp only: list.size)
  qed
qed simp

lemma track_all_dag [simp]: "dag_checkpoints (track_all e s k txs bc) = dag_checkpoints bc"
  by (induction txs arbitrary: k bc) auto

lemma track_fold_invariants:
  assumes "index_ok bc" "locations_ok e cps bc" "cp \<in> cps"
  shows "index_ok (track_all e (cp_sequence cp) 0 (cp_transactions cp) bc) \<and>
    locations_ok e cps (track_all e (cp_sequence cp) 0 (cp_transactions cp) bc)"
proof (rule fold_invariant [where Q = "\<lambda>(i, tx). i < length (cp_transactions cp) \<and> tx = cp_transactions cp ! i"])
  fix x bc assume "case x of (i, tx) \<Rightarrow> i < length (cp_transactions cp) \<and> tx = cp_transactions cp ! i"
    and "index_ok bc \<and> locations_ok e cps bc"
  then show "index_ok ((case x of (index, tx) \<Rightarrow> track_tx (cp_sequence cp) index (stx_hash e tx)) bc) \<and>
      locations_ok e cps ((case x of (index, tx) \<Rightarrow> track_tx (cp_sequence cp) index (stx_hash e tx)) bc)"
    using track_tx_index track_tx_locations assms(3) by (cases x) auto
qed (use assms in \<open>auto simp: in_set_enumerate_eq\<close>)

lemma check_transactions_clean:
  "distinct pre \<Longrightarrow> set pre \<inter> (executed \<union> seen) = {} \<Longrightarrow>
   check_transactions executed seen (pre @ hs) = check_transactions executed (seen \<union> set pre) hs"
  by (induction pre arbitrary: seen) auto

lemma check_transactions_None:
  "check_transactions executed seen hs = None \<longleftrightarrow> distinct hs \<and> set hs \<inter> (executed \<union> seen) = {}"
  by (induction hs arbitrary: seen) auto

section \<open>Rebuilding the index\<close>

definition retained_hashes :: "cp_env \<Rightarrow> blockchain \<Rightarrow> bytes list" where
  "retained_hashes e bc = concat (map (\<lambda>cp. map (stx_hash e) (cp_transactions cp)) (dag_checkpoints bc))"

definition tx_entries :: "cp_env \<Rightarrow> checkpoint \<Rightarrow> (u64 \<times> nat \<times> bytes) list" where
  "tx_entries e cp = map (\<lambda>(i, tx). (cp_sequence cp, i, stx_hash e tx)) (List.enumerate 0 (cp_transactions cp))"

definition reindex :: "(u64 \<times> nat \<times> bytes) list \<Rightarrow> blockchain \<Rightarrow> blockchain" where
  "reindex es bc = fold (\<lambda>(s, i, h) bc. evict_tx_hashes (track_tx s i h bc)) es bc"

definition cleared :: "blockchain \<Rightarrow> blockchain" where
  "cleared bc = bc\<lparr>executed_tx_hashes := {}, tx_hash_queue := [], tx_location_index := [], total_transaction_count := 0\<rparr>"

lemma reindex_checkpoint:
  "fold (\<lambda>(index, tx) bc. evict_tx_hashes (track_tx (cp_sequence cp) index (stx_hash e tx) bc))
     (List.enumerate 0 (cp_transactions cp)) bc = reindex (tx_entries e cp) bc"
  unfolding reindex_def tx_entries_def fold_map by (rule fold_cong) auto

lemma reindex_append: "reindex (xs @ ys) bc = reindex ys (reindex xs bc)"
  by (simp add: reindex_def)

lemma reindex_all:
  "fold (\<lambda>cp bc. fold (\<lambda>(index, tx) bc. evict_tx_hashes (track_tx (cp_sequence cp) index (stx_hash e tx) bc))
     (List.enumerate 0 (cp_transactions cp)) bc) cps bc = reindex (concat (map (tx_entries e) cps)) bc"
proof (induction cps arbitrary: bc)
  case Nil
  then show ?case by (simp add: reindex_def)
next
  case (Cons cp cps)
  then show ?case by (simp add: reindex_checkpoint reindex_append)
qed

lemma rebuild_eq:
  "rebuild_tx_hash_index e bc =
     (let bc' = reindex (concat (map (tx_entries e) (dag_checkpoints bc))) (cleared bc)
      in bc'\<lparr>total_transaction_count := max (total_transaction_count bc') (total_transaction_count bc)\<rparr>)"
  by (simp add: rebuild_tx_hash_index_def reindex_all cleared_def)

lemma reindex_dag [simp]: "dag_checkpoints (reindex es bc) = dag_checkpoints bc"
  by (induction es arbitrary: bc) (auto simp: reindex_def)

lemma reindex_invariants:
  assumes "index_ok bc" "locations_ok e cps bc" "length (tx_hash_queue bc) \<le> MAX_RETAINED_TX_HASHES"
    and "set es \<subseteq> (\<Union>cp \<in> cps. set (tx_entries e cp))"
  shows "index_ok (reindex es bc) \<and> locations_ok e cps (reindex es bc) \<and>
    length (tx_hash_queue (reindex es bc)) \<le> MAX_RETAINED_TX_HASHES"
  unfolding reindex_def
proof (rule fold_invariant [where Q = "\<lambda>x. x \<in> (\<Union>cp \<in> cps. set (tx_entries e cp))"])
  fix x bc
  assume "x \<in> (\<Union>cp \<in> cps. set (tx_entries e cp))"
    and bc: "index_ok bc \<and> locations_ok e cps bc \<and> length (tx_hash_queue bc) \<le> MAX_RETAINED_TX_HASHES"
  then obtain cp i where x: "cp \<in> cps" "i < length (cp_transactions cp)"
      "x = (cp_sequence cp, i, stx_hash e (cp_transactions cp ! i))"
    by (auto simp: tx_entries_def in_set_enumerate_eq)
  then show "index_ok ((case x of (s, i, h) \<Rightarrow> \<lambda>bc. evict_tx_hashes (track_tx s i h bc)) bc) \<and>
      locations_ok e cps ((case x of (s, i, h) \<Rightarrow> \<lambda>bc. evict_tx_hashes (track_tx s i h bc)) bc) \<and>
      length (tx_hash_queue ((case x of (s, i, h) \<Rightarrow> \<lambda>bc. evict_tx_hashes (track_tx s i h bc)) bc))
        \<le> MAX_RETAINED_TX_HASHES"
    using bc evict_index track_tx_index evict_locations track_tx_locations evict_bound by simp
qed (use assms in auto)

lemma reindex_subset: "executed_tx_hashes (reindex es bc) \<subseteq> executed_tx_hashes bc \<union> (snd \<circ> snd) ` set es"
proof -
  have ev: "executed_tx_hashes (evict_tx_hashes bc) \<subseteq> executed_tx_hashes bc" for bc
  proof (induction bc rule: evict_tx_hashes.induct)
    case (1 bc)
    then show ?case by (subst evict_tx_hashes.simps) (auto split: list.split)
  qed
  show ?thesis
  proof (induction es arbitrary: bc)
    case (Cons x es)
    obtain s i h where x: "x = (s, i, h)" by (cases x)
    have "executed_tx_hashes (track_tx s i h bc) \<subseteq> insert h (executed_tx_hashes bc)"
      by (auto simp: track_tx_def Let_def)
    then show ?case
      using Cons [of "evict_tx_hashes (track_tx s i h bc)"] ev [of "track_tx s i h bc"] x
      by (auto simp: reindex_def)
  qed (simp add: reindex_def)
qed

lemma reindex_exact:
  assumes "length (tx_hash_queue bc) + length es \<le> MAX_RETAINED_TX_HASHES"
  shows "executed_tx_hashes (reindex es bc) = executed_tx_hashes bc \<union> (snd \<circ> snd) ` set es"
  using assms
proof (induction es arbitrary: bc)
  case (Cons x es)
  obtain s i h where x: "x = (s, i, h)" by (cases x)
  let ?bc = "track_tx s i h bc"
  have q: "length (tx_hash_queue ?bc) \<le> Suc (length (tx_hash_queue bc))" by (simp add: track_tx_def Let_def)
  have "evict_tx_hashes ?bc = ?bc" using q Cons.prems by (intro evict_small) simp
  moreover have "executed_tx_hashes ?bc = insert h (executed_tx_hashes bc)"
    by (auto simp: track_tx_def Let_def)
  ultimately show ?case
    using Cons.IH [of ?bc] Cons.prems q x by (auto simp: reindex_def)
qed (simp add: reindex_def)

lemma tx_entries_hashes: "map (snd \<circ> snd) (tx_entries e cp) = map (stx_hash e) (cp_transactions cp)"
proof -
  have "map (\<lambda>(i, tx). f tx) (List.enumerate k xs) = map f xs" for f :: "signed_transaction \<Rightarrow> bytes" and k xs
    by (induction xs arbitrary: k) auto
  then show ?thesis by (simp add: tx_entries_def comp_def case_prod_beta')
qed

lemma entries_hashes: "map (snd \<circ> snd) (concat (map (tx_entries e) cps)) =
    concat (map (\<lambda>cp. map (stx_hash e) (cp_transactions cp)) cps)"
  by (simp add: map_concat comp_def tx_entries_hashes [unfolded comp_def])

section \<open>The state machine\<close>

text \<open>
  \<open>chain_reach e bc n hist\<close>: \<open>bc\<close> is reached with \<open>n\<close> checkpoints after genesis, and \<open>hist\<close> lists the
  transaction hashes accepted since the last restart after those the restart recovered. The sequence
  number and the lifetime counter stay below \<open>2 ^ 64\<close>. A restart rebuilds the index and repairs genesis.
\<close>

inductive chain_reach :: "cp_env \<Rightarrow> blockchain \<Rightarrow> nat \<Rightarrow> bytes list \<Rightarrow> bool" for e where
  genesis: "chain_reach e (blockchain_new e) 0 []"
| add: "chain_reach e bc n hist \<Longrightarrow> add_checkpoint_with_validation e cp True bc = Inr bc' \<Longrightarrow> Suc n < 2 ^ 64 \<Longrightarrow>
    unat (total_transaction_count bc) + length (cp_transactions cp) < 2 ^ 64 \<Longrightarrow>
    chain_reach e bc' (Suc n) (hist @ map (stx_hash e) (cp_transactions cp))"
| restart: "chain_reach e bc n hist \<Longrightarrow>
    bc' = snd (ensure_genesis_retained e (rebuild_tx_hash_index e bc)) \<Longrightarrow>
    chain_reach e bc' n (tx_hash_queue bc')"

definition hash_link :: "cp_env \<Rightarrow> checkpoint \<Rightarrow> checkpoint \<Rightarrow> bool" where
  "hash_link e c d \<longleftrightarrow> checkpoint_hash e c = Some (cp_prev_checkpoint_hash d)"

text \<open>Genesis and the most recent checkpoints, numbered consecutively and linked by hash.\<close>

definition chain_shape :: "cp_env \<Rightarrow> nat \<Rightarrow> checkpoint list \<Rightarrow> bool" where
  "chain_shape e n cps \<longleftrightarrow> (\<exists>ds. cps = checkpoint_genesis e # ds \<and> length ds = min n 999 \<and>
     map (\<lambda>cp. unat (cp_sequence cp)) ds = [Suc n - length ds ..< Suc n] \<and>
     successively (hash_link e) (if n \<le> 999 then cps else ds))"

definition chain_inv :: "cp_env \<Rightarrow> blockchain \<Rightarrow> nat \<Rightarrow> bytes list \<Rightarrow> bool" where
  "chain_inv e bc n hist \<longleftrightarrow>
     n < 2 ^ 64 \<and> chain_shape e n (dag_checkpoints bc) \<and> index_ok bc \<and>
     tx_hash_queue bc = drop (length hist - MAX_RETAINED_TX_HASHES) hist \<and>
     locations_ok e (set (dag_checkpoints bc)) bc \<and>
     retained_transaction_count bc \<le> unat (total_transaction_count bc)"

lemma genesis_sequence [simp]: "cp_sequence (checkpoint_genesis e) = 0" "cp_transactions (checkpoint_genesis e) = []"
  by (simp_all add: checkpoint_genesis_def)

lemma chain_shape_last:
  assumes "chain_shape e n cps" "n < 2 ^ 64"
  shows "cps \<noteq> []" "unat (cp_sequence (last cps)) = n"
proof -
  obtain ds where ds: "cps = checkpoint_genesis e # ds" "length ds = min n 999"
      "map (\<lambda>cp. unat (cp_sequence cp)) ds = [Suc n - length ds ..< Suc n]"
    using assms(1) unfolding chain_shape_def by blast
  then show "cps \<noteq> []" by simp
  show "unat (cp_sequence (last cps)) = n"
  proof (cases "ds = []")
    case True
    then show ?thesis using ds by simp
  next
    case False
    then have "unat (cp_sequence (last ds)) = last (map (\<lambda>cp. unat (cp_sequence cp)) ds)" by (simp add: last_map)
    also have "\<dots> = last [Suc n - length ds ..< Suc n]" by (simp only: ds(3))
    also have "\<dots> = n"
    proof -
      have "0 < length ds" using False by simp
      then show ?thesis by (subst last_upt) auto
    qed
    finally show ?thesis using ds(1) False by simp
  qed
qed

lemma chain_shape_add:
  assumes "chain_shape e n cps" "n < 2 ^ 64" "unat (cp_sequence cp) = Suc n" "hash_link e (last cps) cp"
  shows "chain_shape e (Suc n)
    (if length (cps @ [cp]) > MAX_RETAINED_BLOCKS then deque_remove 1 (cps @ [cp]) else cps @ [cp])"
proof -
  obtain ds where ds: "cps = checkpoint_genesis e # ds" "length ds = min n 999"
      "map (\<lambda>cp. unat (cp_sequence cp)) ds = [Suc n - length ds ..< Suc n]"
      "successively (hash_link e) (if n \<le> 999 then cps else ds)"
    using assms(1) unfolding chain_shape_def by blast
  have m: "map (\<lambda>cp. unat (cp_sequence cp)) (ds @ [cp]) = [Suc n - length ds ..< Suc (Suc n)]"
    using ds(3) assms(3) by simp
  have l: "successively (hash_link e) (ds @ [cp])" if "ds \<noteq> []"
    using that ds(1,4) assms(4) by (cases ds; auto simp: successively_append_iff successively_Cons split: if_splits)
  show ?thesis
  proof (cases "n < 999")
    case True
    have "successively (hash_link e) (cps @ [cp])"
      unfolding successively_append_iff using True ds(1,4) assms(4) by simp
    then show ?thesis
      using True ds m by (auto simp: chain_shape_def MAX_RETAINED_BLOCKS_def simp del: upt_Suc)
  next
    case False
    then have len: "length ds = 999" using ds(2) by simp
    then obtain d ds' where d: "ds = d # ds'" by (cases ds) auto
    have "map (\<lambda>cp. unat (cp_sequence cp)) (ds' @ [cp]) = tl [Suc n - length ds ..< Suc (Suc n)]"
      unfolding m [symmetric] by (simp add: d)
    also have "\<dots> = [Suc (Suc n) - length (ds' @ [cp]) ..< Suc (Suc n)]"
    proof -
      have "Suc (Suc n - length ds) = Suc (Suc n) - length (ds' @ [cp])" using len d False by simp
      then show ?thesis by (simp only: tl_upt)
    qed
    finally have m': "map (\<lambda>cp. unat (cp_sequence cp)) (ds' @ [cp]) =
        [Suc (Suc n) - length (ds' @ [cp]) ..< Suc (Suc n)]" .
    have "successively (hash_link e) (ds' @ [cp])" using l d by (auto simp: successively_Cons)
    moreover have "deque_remove 1 (cps @ [cp]) = checkpoint_genesis e # ds' @ [cp]"
      by (simp add: deque_remove_def ds(1) d)
    ultimately show ?thesis
      using False len d m' ds(1) by (simp add: chain_shape_def MAX_RETAINED_BLOCKS_def del: upt_Suc)
  qed
qed

lemma evict_oldest_dag:
  "dag_checkpoints (evict_oldest e bc) =
     (if length (dag_checkpoints bc) > MAX_RETAINED_BLOCKS then deque_remove 1 (dag_checkpoints bc)
      else dag_checkpoints bc)"
  by (simp add: evict_oldest_def Let_def MAX_RETAINED_BLOCKS_def)

lemma evict_oldest_frame [simp]:
  "tx_hash_queue (evict_oldest e bc) = tx_hash_queue bc"
  "total_transaction_count (evict_oldest e bc) = total_transaction_count bc"
  "index_ok (evict_oldest e bc) = index_ok bc"
  by (simp_all add: evict_oldest_def Let_def index_ok_def)

lemma set_deque_remove: "1 < length xs \<Longrightarrow> set xs = insert (xs ! 1) (set (deque_remove 1 xs))"
proof -
  assume "1 < length xs"
  then obtain a b ys where "xs = a # b # ys" by (cases xs; cases "tl xs") auto
  then show ?thesis by (auto simp: deque_remove_def)
qed

lemma locations_fold_delete:
  assumes "locations_ok e cps bc"
  shows "locations_ok e cps (bc\<lparr>tx_location_index := fold (\<lambda>tx. AList.delete (stx_hash e tx)) txs (tx_location_index bc)\<rparr>)"
  using assms
proof (induction txs arbitrary: bc)
  case (Cons tx txs)
  let ?bc = "bc\<lparr>tx_location_index := AList.delete (stx_hash e tx) (tx_location_index bc)\<rparr>"
  have "locations_ok e cps ?bc" using Cons.prems by (rule locations_delete) simp
  from Cons.IH [OF this] show ?case by simp
qed simp

lemma map_of_fold_delete:
  "map_of (fold (\<lambda>tx. AList.delete (stx_hash e tx)) txs l) h =
     (if h \<in> stx_hash e ` set txs then None else map_of l h)"
  by (induction txs arbitrary: l) (auto simp: delete_conv')

lemma evict_oldest_locations:
  assumes "locations_ok e (set (dag_checkpoints bc)) bc"
  shows "locations_ok e (set (dag_checkpoints (evict_oldest e bc))) (evict_oldest e bc)"
proof (cases "length (dag_checkpoints bc) > MAX_RETAINED_BLOCKS")
  case True
  let ?cps = "dag_checkpoints bc" and ?ev = "dag_checkpoints bc ! 1"
  let ?l = "fold (\<lambda>tx. AList.delete (stx_hash e tx)) (cp_transactions ?ev) (tx_location_index bc)"
  have len: "1 < length ?cps" using True by (simp add: MAX_RETAINED_BLOCKS_def)
  have eq: "evict_oldest e bc = bc\<lparr>dag_checkpoints := deque_remove 1 ?cps, tx_location_index := ?l\<rparr>"
    unfolding evict_oldest_def Let_def using True len by (simp only: if_True conj_absorb simp_thms)
  have "locations_ok e (set ?cps) (bc\<lparr>tx_location_index := ?l\<rparr>)" using assms(1) by (rule locations_fold_delete)
  then have d: "distinct (map fst ?l)" by (simp add: locations_ok_def)
  have "\<exists>cp \<in> set (deque_remove 1 ?cps). cp_sequence cp = s \<and> i < length (cp_transactions cp) \<and>
      stx_hash e (cp_transactions cp ! i) = h" if m: "map_of ?l h = Some (s, i)" for h s i
  proof -
    have "map_of (tx_location_index bc) h = Some (s, i)" "h \<notin> stx_hash e ` set (cp_transactions ?ev)"
      using m by (auto simp: map_of_fold_delete split: if_splits)
    then obtain cp where cp: "cp \<in> set ?cps" "cp_sequence cp = s" "i < length (cp_transactions cp)"
        "stx_hash e (cp_transactions cp ! i) = h"
      using assms(1) unfolding locations_ok_def by metis
    with \<open>h \<notin> _\<close> have "cp \<noteq> ?ev" by auto
    with cp(1) have "cp \<in> set (deque_remove 1 ?cps)" using set_deque_remove [OF len] by auto
    with cp show ?thesis by blast
  qed
  with d show ?thesis unfolding eq locations_ok_def by simp
qed (use assms in \<open>simp add: evict_oldest_def\<close>)

lemma retained_remove:
  "1 < length cps \<Longrightarrow> sum_list (map f (deque_remove 1 cps)) \<le> sum_list (map f cps)" for f :: "checkpoint \<Rightarrow> nat"
proof -
  assume "1 < length cps"
  then obtain a b ys where "cps = a # b # ys" by (cases cps; cases "tl cps") auto
  then show ?thesis by (simp add: deque_remove_def)
qed

lemma validate_None:
  assumes "validate_checkpoint e cp bc = None"
  shows "dag_checkpoints bc \<noteq> []" "cp_sequence cp = cp_sequence (last (dag_checkpoints bc)) + 1"
    and "hash_link e (last (dag_checkpoints bc)) cp" "distinct (map (stx_hash e) (cp_transactions cp))"
    and "set (map (stx_hash e) (cp_transactions cp)) \<inter> executed_tx_hashes bc = {}"
  using assms
  by (auto simp: validate_checkpoint_def latest_checkpoint_def Let_def hash_link_def check_transactions_None
      split: if_splits option.splits)

lemma chain_inv_genesis: "chain_inv e (blockchain_new e) 0 []"
  by (simp add: chain_inv_def chain_shape_def blockchain_new_def index_ok_def locations_ok_def
      retained_transaction_count_def)

lemma drop_append_window:
  fixes M :: nat
  assumes "q = drop (length hist - M) hist"
  shows "drop (length (q @ hs) - M) (q @ hs) = drop (length (hist @ hs) - M) (hist @ hs)"
proof (cases "length hist \<le> M")
  case True
  then show ?thesis using assms by simp
next
  case False
  then have "length (hist @ hs) - M = length hs + (length hist - M)" "length (q @ hs) - M = length hs"
    using assms by simp_all
  moreover have "drop (length hs + (length hist - M)) (hist @ hs) = drop (length hs) (drop (length hist - M) (hist @ hs))"
    by (simp only: drop_drop)
  moreover have "drop (length hist - M) (hist @ hs) = q @ hs" using assms by simp
  ultimately show ?thesis by (simp only:)
qed

lemma chain_inv_add:
  assumes inv: "chain_inv e bc n hist" and add: "add_checkpoint_with_validation e cp True bc = Inr bc'"
    and n: "Suc n < 2 ^ 64" and t: "unat (total_transaction_count bc) + length (cp_transactions cp) < 2 ^ 64"
  shows "chain_inv e bc' (Suc n) (hist @ map (stx_hash e) (cp_transactions cp))"
proof -
  let ?hs = "map (stx_hash e) (cp_transactions cp)"
  let ?b1 = "track_all e (cp_sequence cp) 0 (cp_transactions cp) bc"
  let ?b2 = "(evict_tx_hashes ?b1)\<lparr>dag_checkpoints := dag_checkpoints bc @ [cp]\<rparr>"
  have v: "validate_checkpoint e cp bc = None" and bc': "bc' = evict_oldest e ?b2"
    using add by (auto simp: add_checkpoint_with_validation_def track_checkpoint_transactions_def Let_def
        split: option.splits)
  note v = validate_None [OF v]
  have shape: "chain_shape e n (dag_checkpoints bc)" and idx: "index_ok bc"
    and q: "tx_hash_queue bc = drop (length hist - MAX_RETAINED_TX_HASHES) hist"
    and loc: "locations_ok e (set (dag_checkpoints bc)) bc"
    and ret: "retained_transaction_count bc \<le> unat (total_transaction_count bc)"
    using inv by (auto simp: chain_inv_def)
  have seq: "unat (cp_sequence cp) = Suc n"
    using chain_shape_last(2) [OF shape] v(2) n by (simp add: unat_add_no_wrap)
  have "locations_ok e (insert cp (set (dag_checkpoints bc))) bc" by (rule locations_mono [OF loc]) auto
  then have b1: "index_ok ?b1 \<and> locations_ok e (insert cp (set (dag_checkpoints bc))) ?b1"
    using idx by (intro track_fold_invariants) auto
  have trk: "tx_hash_queue ?b1 = tx_hash_queue bc @ ?hs"
      "unat (total_transaction_count ?b1) = unat (total_transaction_count bc) + length (cp_transactions cp)"
    using track_fold_new [OF v(4,5)] t by auto
  have b2: "index_ok ?b2" "locations_ok e (set (dag_checkpoints ?b2)) ?b2"
    using b1 evict_index evict_locations by auto
  have "chain_shape e (Suc n) (dag_checkpoints bc')"
    unfolding bc' evict_oldest_dag using chain_shape_add [OF shape _ seq v(3)] n by (simp del: One_nat_def split: if_splits)
  moreover have "tx_hash_queue bc' = drop (length (hist @ ?hs) - MAX_RETAINED_TX_HASHES) (hist @ ?hs)"
    unfolding bc' using drop_append_window [OF q, of ?hs] by (simp add: evict_queue trk(1) del: drop_append)
  moreover have "retained_transaction_count bc' \<le> unat (total_transaction_count bc')"
  proof -
    have "retained_transaction_count bc' \<le> retained_transaction_count ?b2"
      unfolding bc' retained_transaction_count_def evict_oldest_dag
      using retained_remove [of "dag_checkpoints ?b2" "\<lambda>cp. length (cp_transactions cp)"] v(1)
      by (simp add: MAX_RETAINED_BLOCKS_def)
    also have "\<dots> \<le> unat (total_transaction_count bc')"
      unfolding bc' using ret trk(2) by (simp add: retained_transaction_count_def)
    finally show ?thesis .
  qed
  ultimately show ?thesis
    using n b2 evict_oldest_locations [OF b2(2)] by (simp add: chain_inv_def bc')
qed

lemma rebuild_invariants:
  "index_ok (rebuild_tx_hash_index e bc)"
  "locations_ok e (set (dag_checkpoints bc)) (rebuild_tx_hash_index e bc)"
  "length (tx_hash_queue (rebuild_tx_hash_index e bc)) \<le> MAX_RETAINED_TX_HASHES"
  "dag_checkpoints (rebuild_tx_hash_index e bc) = dag_checkpoints bc"
  "total_transaction_count bc \<le> total_transaction_count (rebuild_tx_hash_index e bc)"
proof -
  let ?es = "concat (map (tx_entries e) (dag_checkpoints bc))"
  have "index_ok (reindex ?es (cleared bc)) \<and> locations_ok e (set (dag_checkpoints bc)) (reindex ?es (cleared bc)) \<and>
      length (tx_hash_queue (reindex ?es (cleared bc))) \<le> MAX_RETAINED_TX_HASHES"
    by (rule reindex_invariants) (auto simp: index_ok_def locations_ok_def cleared_def)
  moreover have "dag_checkpoints (cleared bc) = dag_checkpoints bc" by (simp add: cleared_def)
  ultimately show "index_ok (rebuild_tx_hash_index e bc)"
    "locations_ok e (set (dag_checkpoints bc)) (rebuild_tx_hash_index e bc)"
    "length (tx_hash_queue (rebuild_tx_hash_index e bc)) \<le> MAX_RETAINED_TX_HASHES"
    "dag_checkpoints (rebuild_tx_hash_index e bc) = dag_checkpoints bc"
    "total_transaction_count bc \<le> total_transaction_count (rebuild_tx_hash_index e bc)"
    by (simp_all add: rebuild_eq Let_def)
qed

lemma ensure_genesis_shape:
  "chain_shape e n (dag_checkpoints bc) \<Longrightarrow> ensure_genesis_retained e bc = (False, bc)"
  by (auto simp: chain_shape_def ensure_genesis_retained_def)

lemma chain_inv_restart:
  assumes "chain_inv e bc n hist"
  defines "bc' \<equiv> snd (ensure_genesis_retained e (rebuild_tx_hash_index e bc))"
  shows "chain_inv e bc' n (tx_hash_queue bc') \<and> bc' = rebuild_tx_hash_index e bc"
proof -
  have "chain_shape e n (dag_checkpoints (rebuild_tx_hash_index e bc))"
    using assms(1) by (simp add: chain_inv_def rebuild_invariants)
  then have bc': "bc' = rebuild_tx_hash_index e bc" by (simp add: bc'_def ensure_genesis_shape)
  have "unat (total_transaction_count bc) \<le> unat (total_transaction_count bc')"
    unfolding bc' using rebuild_invariants(5) by (simp add: word_le_nat_alt)
  moreover have "retained_transaction_count bc' = retained_transaction_count bc"
    by (simp add: bc' retained_transaction_count_def rebuild_invariants)
  ultimately show ?thesis
    using assms(1) by (simp add: chain_inv_def bc' rebuild_invariants(1-4))
qed

lemma chain_reach_inv: "chain_reach e bc n hist \<Longrightarrow> chain_inv e bc n hist"
proof (induction rule: chain_reach.induct)
  case (restart bc n hist bc')
  then show ?case using chain_inv_restart by blast
qed (simp_all add: chain_inv_genesis chain_inv_add)

section \<open>Lookups\<close>

lemma chain_shape_unique:
  assumes "chain_shape e n cps" "n < 2 ^ 64"
  shows "distinct (map cp_sequence cps)"
proof -
  obtain ds where ds: "cps = checkpoint_genesis e # ds" "length ds = min n 999"
      "map (\<lambda>cp. unat (cp_sequence cp)) ds = [Suc n - length ds ..< Suc n]"
    using assms(1) unfolding chain_shape_def by blast
  have "0 \<notin> set [Suc n - length ds ..< Suc n]" using ds(2) by auto
  then have "distinct (0 # map (\<lambda>cp. unat (cp_sequence cp)) ds)" unfolding ds(3) by simp
  then have "distinct (map (\<lambda>cp. unat (cp_sequence cp)) cps)" by (simp add: ds(1))
  then show ?thesis by (simp add: distinct_map inj_on_def)
qed

lemma find_unique:
  "distinct (map cp_sequence cps) \<Longrightarrow> cp \<in> set cps \<Longrightarrow> find (\<lambda>c. cp_sequence c = cp_sequence cp) cps = Some cp"
  by (induction cps) (auto simp: image_iff)

lemma find_map_None: "find_map f xs = None \<longleftrightarrow> (\<forall>x \<in> set xs. f x = None)"
  by (induction xs) (auto split: option.splits)

lemma find_map_Some: "find_map f xs = Some y \<Longrightarrow> \<exists>x \<in> set xs. f x = Some y"
  by (induction xs) (auto split: option.splits)

text \<open>A transaction at an index of a checkpoint, as a lookup reports it.\<close>

definition location_at :: "checkpoint \<Rightarrow> nat \<Rightarrow> tx_location" where
  "location_at cp i = (cp_transactions cp ! i, cp_sequence cp, cp_state_root cp, list_get (cp_transaction_effects cp) i)"

lemma scan_checkpoint_None: "scan_checkpoint e h cp = None \<longleftrightarrow> h \<notin> stx_hash e ` set (cp_transactions cp)"
proof -
  have "scan_checkpoint e h cp = None \<longleftrightarrow> (\<forall>i < length (cp_transactions cp). stx_hash e (cp_transactions cp ! i) \<noteq> h)"
    by (auto simp: scan_checkpoint_def find_None_iff in_set_enumerate_eq)
  moreover have "h \<in> stx_hash e ` set (cp_transactions cp) \<longleftrightarrow>
      (\<exists>i < length (cp_transactions cp). stx_hash e (cp_transactions cp ! i) = h)"
    by (auto simp: set_conv_nth)
  ultimately show ?thesis by simp
qed

lemma scan_checkpoint_Some:
  "scan_checkpoint e h cp = Some r \<Longrightarrow>
     \<exists>i < length (cp_transactions cp). stx_hash e (cp_transactions cp ! i) = h \<and> r = location_at cp i"
  by (auto simp: scan_checkpoint_def find_Some_iff nth_enumerate_eq location_at_def)

lemma indexed_location_eq:
  assumes "locations_ok e (set (dag_checkpoints bc)) bc" "distinct (map cp_sequence (dag_checkpoints bc))"
    and "indexed_location bc h = Some r"
  shows "\<exists>cp \<in> set (dag_checkpoints bc). \<exists>i < length (cp_transactions cp).
    stx_hash e (cp_transactions cp ! i) = h \<and> r = location_at cp i"
proof -
  obtain s i where si: "map_of (tx_location_index bc) h = Some (s, i)"
    using assms(3) by (auto simp: indexed_location_def bind_eq_Some_conv)
  then obtain cp where cp: "cp \<in> set (dag_checkpoints bc)" "cp_sequence cp = s" "i < length (cp_transactions cp)"
      "stx_hash e (cp_transactions cp ! i) = h"
    using assms(1) unfolding locations_ok_def by metis
  then have "get_checkpoint bc s = Some cp" using find_unique [OF assms(2) cp(1)] by (simp add: get_checkpoint_def)
  then have "r = location_at cp i"
    using assms(3) si cp(3) by (simp add: indexed_location_def list_get_def location_at_def)
  with cp show ?thesis by blast
qed

lemma lookup_correct_inv:
  assumes "chain_inv e bc n hist"
  shows "case get_transaction_location_with_effect e bc h of
      None \<Rightarrow> \<forall>cp \<in> set (dag_checkpoints bc). h \<notin> stx_hash e ` set (cp_transactions cp)
    | Some r \<Rightarrow> \<exists>cp \<in> set (dag_checkpoints bc). \<exists>i < length (cp_transactions cp).
        stx_hash e (cp_transactions cp ! i) = h \<and> r = location_at cp i"
proof (cases "indexed_location bc h")
  case (Some r)
  have "distinct (map cp_sequence (dag_checkpoints bc))" using assms chain_shape_unique by (auto simp: chain_inv_def)
  then show ?thesis
    using assms indexed_location_eq [OF _ _ Some] Some
    by (simp add: chain_inv_def get_transaction_location_with_effect_def)
next
  case None
  show ?thesis
  proof (cases "find_map (scan_checkpoint e h) (rev (dag_checkpoints bc))")
    case n: None
    then have "\<forall>cp \<in> set (dag_checkpoints bc). h \<notin> stx_hash e ` set (cp_transactions cp)"
      by (simp add: find_map_None scan_checkpoint_None)
    then show ?thesis unfolding get_transaction_location_with_effect_def None n by simp
  next
    case (Some r)
    then obtain cp where "cp \<in> set (dag_checkpoints bc)" "scan_checkpoint e h cp = Some r"
      using find_map_Some by fastforce
    then have "\<exists>cp \<in> set (dag_checkpoints bc). \<exists>i < length (cp_transactions cp).
        stx_hash e (cp_transactions cp ! i) = h \<and> r = location_at cp i"
      using scan_checkpoint_Some by blast
    then show ?thesis using None Some by (simp add: get_transaction_location_with_effect_def)
  qed
qed

lemma transaction_count_eq:
  assumes "chain_inv e bc n hist"
  shows "get_transaction_count bc = unat (total_transaction_count bc)"
proof -
  let ?l = "tx_location_index bc"
  have loc: "locations_ok e (set (dag_checkpoints bc)) bc"
    and ret: "retained_transaction_count bc \<le> unat (total_transaction_count bc)"
    using assms by (auto simp: chain_inv_def)
  have "fst ` set ?l \<subseteq> set (retained_hashes e bc)"
  proof
    fix h assume "h \<in> fst ` set ?l"
    then obtain s i where "map_of ?l h = Some (s, i)"
      using map_of_eq_None_iff [of ?l h] by (cases "map_of ?l h") auto
    then obtain cp where "cp \<in> set (dag_checkpoints bc)" "i < length (cp_transactions cp)"
        "stx_hash e (cp_transactions cp ! i) = h"
      using loc unfolding locations_ok_def by metis
    then show "h \<in> set (retained_hashes e bc)" by (force simp: retained_hashes_def)
  qed
  then have "card (fst ` set ?l) \<le> length (retained_hashes e bc)"
    by (metis card_length card_mono finite_set le_trans)
  moreover have "card (fst ` set ?l) = length ?l"
    using loc distinct_card [of "map fst ?l"] by (simp add: locations_ok_def)
  moreover have "length (retained_hashes e bc) = retained_transaction_count bc"
    by (simp add: retained_hashes_def retained_transaction_count_def length_concat comp_def)
  ultimately show ?thesis using ret by (simp add: get_transaction_count_def)
qed

lemma rebuild_executed:
  assumes "length (retained_hashes e bc) \<le> MAX_RETAINED_TX_HASHES"
  shows "executed_tx_hashes (rebuild_tx_hash_index e bc) = set (retained_hashes e bc)"
proof -
  let ?es = "concat (map (tx_entries e) (dag_checkpoints bc))"
  have h: "map (snd \<circ> snd) ?es = retained_hashes e bc" by (simp only: entries_hashes retained_hashes_def)
  have es: "(snd \<circ> snd) ` set ?es = set (retained_hashes e bc)" "length ?es = length (retained_hashes e bc)"
    unfolding h [symmetric] by (simp_all only: set_map length_map)
  have c: "tx_hash_queue (cleared bc) = []" "executed_tx_hashes (cleared bc) = {}" by (simp_all add: cleared_def)
  have "length (tx_hash_queue (cleared bc)) + length ?es \<le> MAX_RETAINED_TX_HASHES"
    using assms by (simp only: c es list.size add_0)
  then have "executed_tx_hashes (reindex ?es (cleared bc)) = set (retained_hashes e bc)"
    by (simp only: reindex_exact c es Un_empty_left)
  then show ?thesis by (simp add: rebuild_eq Let_def)
qed

section \<open>Properties\<close>

text \<open>
  C23: the retained chain. In every reachable chain, genesis comes first and is followed by the most
  recent checkpoints, at most 999 of them, with consecutive sequence numbers up to the height, each
  carrying the hash of its predecessor (of genesis too, until the first eviction); every retained
  checkpoint is found under its sequence number.
\<close>

theorem chain_retention:
  assumes "chain_reach e bc n hist"
  shows "(\<exists>ds. dag_checkpoints bc = checkpoint_genesis e # ds \<and> length ds = min n 999 \<and>
      map (\<lambda>cp. unat (cp_sequence cp)) ds = [Suc n - length ds ..< Suc n] \<and>
      successively (hash_link e) (if n \<le> 999 then checkpoint_genesis e # ds else ds)) \<and>
    chain_height bc = Some (of_nat n) \<and>
    list_all (\<lambda>cp. get_checkpoint bc (cp_sequence cp) = Some cp) (dag_checkpoints bc)"
proof (intro conjI)
  have inv: "n < 2 ^ 64" "chain_shape e n (dag_checkpoints bc)"
    using chain_reach_inv [OF assms] by (auto simp: chain_inv_def)
  show "\<exists>ds. dag_checkpoints bc = checkpoint_genesis e # ds \<and> length ds = min n 999 \<and>
      map (\<lambda>cp. unat (cp_sequence cp)) ds = [Suc n - length ds ..< Suc n] \<and>
      successively (hash_link e) (if n \<le> 999 then checkpoint_genesis e # ds else ds)"
    using inv(2) unfolding chain_shape_def by metis
  have "cp_sequence (last (dag_checkpoints bc)) = of_nat n"
    using chain_shape_last(2) [OF inv(2,1)] by (metis of_nat_unat ucast_id)
  then show "chain_height bc = Some (of_nat n)"
    using chain_shape_last(1) [OF inv(2,1)] by (simp add: chain_height_def latest_checkpoint_def)
  show "list_all (\<lambda>cp. get_checkpoint bc (cp_sequence cp) = Some cp) (dag_checkpoints bc)"
    using find_unique [OF chain_shape_unique [OF inv(2,1)]] by (simp add: list_all_iff get_checkpoint_def)
qed

text \<open>
  C24: what a validated checkpoint must satisfy. On a reachable chain it is accepted exactly when its
  sequence number is the next one, it carries the hash of the latest checkpoint, its transactions are
  pairwise distinct and none is remembered as executed. Otherwise the first violation is reported: a wrong
  sequence number with the expected and the given one, a latest checkpoint that cannot be encoded, a
  wrong link, and then, for the first offending transaction, a duplicate when an earlier transaction
  of the checkpoint has its hash and a replay when it is remembered as executed.
\<close>

theorem add_checkpoint_exact:
  assumes "chain_reach e bc n hist"
  defines "latest \<equiv> last (dag_checkpoints bc)"
  shows "((\<exists>bc'. add_checkpoint_with_validation e cp True bc = Inr bc') \<longleftrightarrow>
      cp_sequence cp = cp_sequence latest + 1 \<and> hash_link e latest cp \<and>
      distinct (map (stx_hash e) (cp_transactions cp)) \<and>
      list_all (\<lambda>tx. \<not> is_transaction_hash_executed bc (stx_hash e tx)) (cp_transactions cp)) \<and>
    (cp_sequence cp \<noteq> cp_sequence latest + 1 \<longrightarrow>
      add_checkpoint_with_validation e cp True bc = Inl (InvalidSequence (cp_sequence latest + 1) (cp_sequence cp))) \<and>
    (cp_sequence cp = cp_sequence latest + 1 \<longrightarrow> checkpoint_hash e latest \<noteq> None \<longrightarrow> \<not> hash_link e latest cp \<longrightarrow>
      add_checkpoint_with_validation e cp True bc = Inl InvalidPreviousHash) \<and>
    (cp_sequence cp = cp_sequence latest + 1 \<longrightarrow> checkpoint_hash e latest = None \<longrightarrow>
      add_checkpoint_with_validation e cp True bc = Inl CheckpointEncoding) \<and>
    (\<forall>pre tx post. cp_sequence cp = cp_sequence latest + 1 \<longrightarrow> hash_link e latest cp \<longrightarrow>
      cp_transactions cp = pre @ tx # post \<longrightarrow> distinct (map (stx_hash e) pre) \<longrightarrow>
      list_all (\<lambda>t. \<not> is_transaction_hash_executed bc (stx_hash e t)) pre \<longrightarrow>
      (stx_hash e tx \<in> stx_hash e ` set pre \<longrightarrow>
         add_checkpoint_with_validation e cp True bc = Inl DuplicateTransaction) \<and>
      (stx_hash e tx \<notin> stx_hash e ` set pre \<longrightarrow> is_transaction_hash_executed bc (stx_hash e tx) \<longrightarrow>
         add_checkpoint_with_validation e cp True bc = Inl ReplayDetected))"
    (is "?accepted \<and> ?sequence \<and> ?link \<and> ?encoding \<and> ?transactions")
proof -
  have ne: "latest_checkpoint bc = Some latest"
    using chain_reach_inv [OF assms(1)] chain_shape_last(1) unfolding chain_inv_def latest_checkpoint_def latest_def
    by metis
  have none: "check_transactions (executed_tx_hashes bc) {} (map (stx_hash e) (cp_transactions cp)) = None \<longleftrightarrow>
      distinct (map (stx_hash e) (cp_transactions cp)) \<and>
      list_all (\<lambda>tx. \<not> is_transaction_hash_executed bc (stx_hash e tx)) (cp_transactions cp)"
    unfolding check_transactions_None by (auto simp: list_all_iff is_transaction_hash_executed_def)
  note defs = add_checkpoint_with_validation_def validate_checkpoint_def ne Let_def hash_link_def
  have ?accepted ?sequence ?link ?encoding
    using none by (auto simp: defs split: option.splits)
  moreover have ?transactions
  proof (intro allI impI)
    fix pre tx post
    assume ok: "cp_sequence cp = cp_sequence latest + 1" "hash_link e latest cp"
      and txs: "cp_transactions cp = pre @ tx # post" and d: "distinct (map (stx_hash e) pre)"
      and new: "list_all (\<lambda>t. \<not> is_transaction_hash_executed bc (stx_hash e t)) pre"
    have "check_transactions (executed_tx_hashes bc) {} (map (stx_hash e) (cp_transactions cp)) =
        check_transactions (executed_tx_hashes bc) (stx_hash e ` set pre) (stx_hash e tx # map (stx_hash e) post)"
    proof -
      have "set (map (stx_hash e) pre) \<inter> (executed_tx_hashes bc \<union> {}) = {}"
        using new by (auto simp: list_all_iff is_transaction_hash_executed_def)
      from check_transactions_clean [OF d this] show ?thesis by (simp add: txs)
    qed
    then show "(stx_hash e tx \<in> stx_hash e ` set pre \<longrightarrow>
         add_checkpoint_with_validation e cp True bc = Inl DuplicateTransaction) \<and>
      (stx_hash e tx \<notin> stx_hash e ` set pre \<longrightarrow> is_transaction_hash_executed bc (stx_hash e tx) \<longrightarrow>
         add_checkpoint_with_validation e cp True bc = Inl ReplayDetected)"
      using ok by (auto simp: defs is_transaction_hash_executed_def simp del: map_append)
  qed
  ultimately show ?thesis by blast
qed

text \<open>
  C25: replay protection. The chain remembers exactly the last two million transaction hashes it
  accepted, without repetition; so as long as it has accepted no more than that, no transaction was
  accepted twice. A restart recovers exactly the hashes of the retained checkpoints (when these hold no
  more than two million transactions): hashes of checkpoints evicted before it are forgotten.
\<close>

theorem replay_window:
  assumes "chain_reach e bc n hist"
  shows "executed_tx_hashes bc = set (drop (length hist - MAX_RETAINED_TX_HASHES) hist) \<and>
    distinct (drop (length hist - MAX_RETAINED_TX_HASHES) hist) \<and>
    (length hist \<le> MAX_RETAINED_TX_HASHES \<longrightarrow> distinct hist \<and> executed_tx_hashes bc = set hist) \<and>
    (length (retained_hashes e bc) \<le> MAX_RETAINED_TX_HASHES \<longrightarrow>
       executed_tx_hashes (rebuild_tx_hash_index e bc) = set (retained_hashes e bc))"
proof -
  let ?w = "drop (length hist - MAX_RETAINED_TX_HASHES) hist"
  have "index_ok bc" "tx_hash_queue bc = ?w" using chain_reach_inv [OF assms] by (auto simp: chain_inv_def)
  then have w: "executed_tx_hashes bc = set ?w" "distinct ?w" by (simp_all add: index_ok_def)
  have "distinct hist \<and> executed_tx_hashes bc = set hist" if "length hist \<le> MAX_RETAINED_TX_HASHES"
    using w that by simp
  with w rebuild_executed show ?thesis by blast
qed

text \<open>
  C26: looking up a transaction is correct whatever the index has dropped. A lookup that answers gives
  a transaction with the requested hash from a retained checkpoint, with that checkpoint's sequence,
  state root and the effects at the same position; it answers nothing only if no retained checkpoint
  holds the hash.
\<close>

theorem transaction_lookup_correct:
  assumes "chain_reach e bc n hist"
  shows "case get_transaction_location_with_effect e bc h of
      None \<Rightarrow> \<forall>cp \<in> set (dag_checkpoints bc). h \<notin> stx_hash e ` set (cp_transactions cp)
    | Some r \<Rightarrow> \<exists>cp \<in> set (dag_checkpoints bc). \<exists>i < length (cp_transactions cp).
        stx_hash e (cp_transactions cp ! i) = h \<and>
        r = (cp_transactions cp ! i, cp_sequence cp, cp_state_root cp, list_get (cp_transaction_effects cp) i)"
  using lookup_correct_inv [OF chain_reach_inv [OF assms], of h] unfolding location_at_def by blast

text \<open>
  The lifetime transaction count never falls. Accepting a checkpoint adds exactly the number of
  its transactions, evictions included, and a restart does not lower the count.
\<close>

theorem transaction_count_lifetime:
  assumes "chain_reach e bc n hist" "Suc n < 2 ^ 64"
    and "unat (total_transaction_count bc) + length (cp_transactions cp) < 2 ^ 64"
    and "add_checkpoint_with_validation e cp True bc = Inr bc'"
  shows "get_transaction_count bc' = get_transaction_count bc + length (cp_transactions cp) \<and>
    get_transaction_count bc \<le> get_transaction_count (rebuild_tx_hash_index e bc)"
proof
  have inv: "chain_inv e bc n hist" using assms(1) by (rule chain_reach_inv)
  have v: "validate_checkpoint e cp bc = None"
    and bc': "unat (total_transaction_count bc') =
      unat (total_transaction_count (track_all e (cp_sequence cp) 0 (cp_transactions cp) bc))"
    using assms(4) by (auto simp: add_checkpoint_with_validation_def track_checkpoint_transactions_def Let_def
        split: option.splits)
  have "unat (total_transaction_count bc') = unat (total_transaction_count bc) + length (cp_transactions cp)"
    unfolding bc' using track_fold_new [OF validate_None(4,5) [OF v]] assms(3) by blast
  then show "get_transaction_count bc' = get_transaction_count bc + length (cp_transactions cp)"
    using transaction_count_eq [OF inv] transaction_count_eq [OF chain_inv_add [OF inv assms(4,2,3)]] by simp
  have "chain_inv e (rebuild_tx_hash_index e bc) n (tx_hash_queue (rebuild_tx_hash_index e bc))"
    using chain_inv_restart [OF inv] by metis
  then show "get_transaction_count bc \<le> get_transaction_count (rebuild_tx_hash_index e bc)"
    using transaction_count_eq [OF inv] transaction_count_eq rebuild_invariants(5) [of bc e]
    by (simp add: word_le_nat_alt)
qed

section \<open>Examples\<close>

text \<open>A codec that writes the sequence number and the number of transactions, and a chain of one checkpoint.\<close>

definition cp_env_model :: cp_env where
  "cp_env_model = \<lparr>cp_tx_env = \<lparr>env_blake3 = (\<lambda>m. zero_hash), env_hex = hex_model,
     bcs_transaction = (\<lambda>tx. Some []), bcs_signed_transaction = (\<lambda>tx sg. Some sg),
     bcs_to_u64 = (\<lambda>n. None), bcs_from_u64 = (\<lambda>b. None), bcs_from_string = (\<lambda>b. None),
     crypto_verify_signature = (\<lambda>a h s. Inr True)\<rparr>,
     bcs_checkpoint_v0 = (\<lambda>(s, hs, r, p). Some (hbytes zero_hash)),
     bcs_checkpoint_v1 = (\<lambda>_. None), bcs_checkpoint_v2 = (\<lambda>_. Some [])\<rparr>"

definition example_checkpoint :: checkpoint where
  "example_checkpoint = checkpoint_new 1 [] [signed_new (PublishPackage ''0x1'' [] None 0 0 0)] [] 0 (replicate 32 0)"

definition example_chain :: blockchain where
  "example_chain = (case add_checkpoint_with_validation cp_env_model example_checkpoint True (blockchain_new cp_env_model) of
     Inl _ \<Rightarrow> blockchain_new cp_env_model | Inr bc \<Rightarrow> bc)"

lemma example_validates: "validate_checkpoint cp_env_model example_checkpoint (blockchain_new cp_env_model) = None"
  by (simp add: validate_checkpoint_def latest_checkpoint_def blockchain_new_def example_checkpoint_def
      checkpoint_new_def checkpoint_hash_def checkpoint_genesis_def cp_env_model_def hash_data_blake3_def
      hash_data_blake3_array_def hash_data_blake3_chunks_array_def)

lemma example_add:
  "add_checkpoint_with_validation cp_env_model example_checkpoint True (blockchain_new cp_env_model) = Inr example_chain"
  by (simp add: example_chain_def add_checkpoint_with_validation_def example_validates Let_def)

lemma example_reach:
  "chain_reach cp_env_model example_chain 1 [stx_hash cp_env_model (signed_new (PublishPackage ''0x1'' [] None 0 0 0))]"
proof -
  have "chain_reach cp_env_model example_chain (Suc 0)
      ([] @ map (stx_hash cp_env_model) (cp_transactions example_checkpoint))"
    by (rule chain_reach.add [OF chain_reach.genesis example_add])
      (simp_all add: blockchain_new_def example_checkpoint_def checkpoint_new_def)
  then show ?thesis by (simp add: example_checkpoint_def checkpoint_new_def)
qed

theorem chain_retention_witness: "chain_height example_chain = Some 1"
  using chain_retention [OF example_reach] by simp

theorem add_checkpoint_exact_witness:
  "add_checkpoint_with_validation cp_env_model example_checkpoint True example_chain =
     Inl (InvalidSequence (cp_sequence (last (dag_checkpoints example_chain)) + 1) 1)"
proof -
  have "map_option cp_sequence (latest_checkpoint example_chain) = Some 1"
    using chain_reach_inv [OF example_reach] chain_shape_last [of cp_env_model 1 "dag_checkpoints example_chain"]
    by (simp add: chain_inv_def latest_checkpoint_def) (metis One_nat_def unat_1 word_unat_eq_iff)
  then have "cp_sequence (last (dag_checkpoints example_chain)) = 1"
    by (auto simp: latest_checkpoint_def split: if_splits)
  then show ?thesis
    using add_checkpoint_exact [OF example_reach, of example_checkpoint]
    by (simp add: example_checkpoint_def checkpoint_new_def)
qed

theorem replay_window_witness:
  "is_transaction_hash_executed example_chain
     (stx_hash cp_env_model (signed_new (PublishPackage ''0x1'' [] None 0 0 0)))"
  using replay_window [OF example_reach]
  by (simp add: is_transaction_hash_executed_def MAX_RETAINED_TX_HASHES_def)

theorem transaction_lookup_correct_witness:
  "case get_transaction_location_with_effect cp_env_model example_chain [] of
      None \<Rightarrow> \<forall>cp \<in> set (dag_checkpoints example_chain). [] \<notin> stx_hash cp_env_model ` set (cp_transactions cp)
    | Some r \<Rightarrow> \<exists>cp \<in> set (dag_checkpoints example_chain). \<exists>i < length (cp_transactions cp).
        stx_hash cp_env_model (cp_transactions cp ! i) = [] \<and>
        r = (cp_transactions cp ! i, cp_sequence cp, cp_state_root cp, list_get (cp_transaction_effects cp) i)"
  using transaction_lookup_correct [OF example_reach, of "[]"] by simp

theorem transaction_count_lifetime_witness:
  "get_transaction_count example_chain = get_transaction_count (blockchain_new cp_env_model) + 1"
  using transaction_count_lifetime [OF chain_reach.genesis _ _ example_add]
  by (simp add: blockchain_new_def example_checkpoint_def checkpoint_new_def)

end
