(* ===== verification/Type_Tag.thy ===== *)
theory Type_Tag
  imports Address
begin

text \<open>
  Move type tags: the data type and its printer (\<^verbatim>\<open>move-core-types\<close>, \<^verbatim>\<open>language_storage.rs\<close>), the check of
  identifiers (\<^verbatim>\<open>identifier.rs\<close>) and the parser for type arguments of \<^verbatim>\<open>crates/kanari-core/src/engine.rs\<close>.
  The parser recurses on proper parts of its input, so it terminates.
\<close>

section \<open>Identifiers\<close>

definition is_ascii_letter :: "char \<Rightarrow> bool" where
  "is_ascii_letter c \<longleftrightarrow> 97 \<le> (of_char c :: nat) \<and> (of_char c :: nat) \<le> 122 \<or>
     65 \<le> (of_char c :: nat) \<and> (of_char c :: nat) \<le> 90"

definition is_valid_identifier_char :: "char \<Rightarrow> bool" where
  "is_valid_identifier_char c \<longleftrightarrow> c = CHR ''_'' \<or> is_ascii_letter c \<or> is_ascii_digit c"

definition identifier_is_valid :: "string \<Rightarrow> bool" where
  "identifier_is_valid s \<longleftrightarrow>
     (if s = ''<SELF>'' then True
      else case s of
        [] \<Rightarrow> False
      | c # cs \<Rightarrow>
          if is_ascii_letter c then list_all is_valid_identifier_char cs
          else if c = CHR ''_'' \<and> cs \<noteq> [] then list_all is_valid_identifier_char cs
          else False)"

definition identifier_new :: "string \<Rightarrow> string option" where
  "identifier_new s = (if identifier_is_valid s then Some s else None)"

section \<open>Type tags\<close>

datatype type_tag =
    TBool | TU8 | TU64 | TU128 | TAddress | TSigner
  | TVector type_tag
  | TStruct account_address string string "type_tag list"
  | TU16 | TU32 | TU256

fun join_with :: "string \<Rightarrow> string list \<Rightarrow> string" where
  "join_with sep [] = []"
| "join_with sep [s] = s"
| "join_with sep (s # t # ts) = s @ sep @ join_with sep (t # ts)"

fun display_type_tag :: "hex_ops \<Rightarrow> type_tag \<Rightarrow> string" where
  "display_type_tag h TBool = ''bool''"
| "display_type_tag h TU8 = ''u8''"
| "display_type_tag h TU16 = ''u16''"
| "display_type_tag h TU32 = ''u32''"
| "display_type_tag h TU64 = ''u64''"
| "display_type_tag h TU128 = ''u128''"
| "display_type_tag h TU256 = ''u256''"
| "display_type_tag h TAddress = ''address''"
| "display_type_tag h TSigner = ''signer''"
| "display_type_tag h (TVector t) = ''vector<'' @ display_type_tag h t @ ''>''"
| "display_type_tag h (TStruct a m n ts) =
     ''0x'' @ short_str_lossless h a @ ''::'' @ m @ ''::'' @ n @
     (if ts = [] then [] else ''<'' @ join_with '', '' (map (display_type_tag h) ts) @ ''>'')"

section \<open>The parser\<close>

text \<open>\<^verbatim>\<open>split("::")\<close>.\<close>

fun split_colons :: "string \<Rightarrow> string list" where
  "split_colons [] = [[]]"
| "split_colons [c] = [[c]]"
| "split_colons (c # d # s) =
     (if c = CHR '':'' \<and> d = CHR '':'' then [] # split_colons s
      else case split_colons (d # s) of p # ps \<Rightarrow> (c # p) # ps | [] \<Rightarrow> [[c]])"

text \<open>The pieces between the commas outside angle brackets; \<open>cur\<close> is the piece being read.\<close>

fun split_commas :: "nat \<Rightarrow> string \<Rightarrow> string \<Rightarrow> string list" where
  "split_commas depth cur [] = [cur]"
| "split_commas depth cur (c # s) =
     (if c = CHR ''<'' then split_commas (Suc depth) (cur @ [c]) s
      else if c = CHR ''>'' then split_commas (depth - 1) (cur @ [c]) s
      else if c = CHR '','' \<and> depth = 0 then cur # split_commas 0 [] s
      else split_commas depth (cur @ [c]) s)"

definition split_top_level_commas :: "string \<Rightarrow> string list" where
  "split_top_level_commas s = map str_trim (split_commas 0 [] s)"

text \<open>
  One level of the parser: a base type, the inside of a vector, or a struct with the texts of its type
  parameters.
\<close>

datatype tag_form =
    FBase type_tag
  | FVector string
  | FStruct account_address string string "string list"
  | FNone

definition split_generics :: "string \<Rightarrow> (string \<times> string option) option" where
  "split_generics name_and_generics =
     (let name = takeWhile (\<lambda>c. c \<noteq> CHR ''<'') name_and_generics;
          idx = length name
      in if idx < length name_and_generics then
           if last name_and_generics \<noteq> CHR ''>'' \<or> idx + 1 \<ge> length name_and_generics then None
           else Some (str_trim name, Some (butlast (drop (idx + 1) name_and_generics)))
         else Some (name_and_generics, None))"

definition classify_tag :: "(bytes \<Rightarrow> hash32) \<Rightarrow> hex_ops \<Rightarrow> string \<Rightarrow> tag_form" where
  "classify_tag sha3 h s0 =
     (let s = str_trim s0
      in if s = ''bool'' then FBase TBool
         else if s = ''u8'' then FBase TU8
         else if s = ''u64'' then FBase TU64
         else if s = ''u128'' then FBase TU128
         else if s = ''address'' then FBase TAddress
         else if starts_with ''vector<'' s \<and> drop 7 s \<noteq> [] \<and> last s = CHR ''>'' then FVector (butlast (drop 7 s))
         else if str_contains ''::'' s \<and> length (split_colons s) \<ge> 3 then
           (let parts = split_colons s;
                addr_str = str_trim (parts ! 0);
                module_str = str_trim (parts ! 1);
                name_and_generics = str_trim (join_with ''::'' (drop 2 parts))
            in case split_generics name_and_generics of
                 None \<Rightarrow> FNone
               | Some (name_str, generics_opt) \<Rightarrow>
                   (case (parse_to_account_address sha3 h addr_str, identifier_new module_str, identifier_new name_str) of
                      (Inr addr, Some module_id, Some name_id) \<Rightarrow>
                        FStruct addr module_id name_id
                          (case generics_opt of
                             None \<Rightarrow> []
                           | Some gen \<Rightarrow> filter (\<lambda>g. g \<noteq> []) (split_top_level_commas gen))
                    | _ \<Rightarrow> FNone))
         else FNone)"

fun collect_options :: "'a option list \<Rightarrow> 'a list option" where
  "collect_options [] = Some []"
| "collect_options (None # xs) = None"
| "collect_options (Some x # xs) = map_option (Cons x) (collect_options xs)"

section \<open>Every part is shorter\<close>

lemma length_strip_start: "length (strip_start ws s) \<le> length s"
proof (induction ws s rule: strip_start.induct)
  case (1 ws s)
  show ?case
  proof (cases "find (\<lambda>w. w \<noteq> [] \<and> starts_with w s) ws")
    case (Some w)
    then have "length (strip_start ws (drop (length w) s)) \<le> length (drop (length w) s)" by (rule 1)
    then show ?thesis using Some by (subst strip_start.simps) simp
  qed (subst strip_start.simps, simp)
qed

lemma length_str_trim: "length (str_trim s) \<le> length s"
proof -
  have "length (str_trim s) \<le> length (strip_start white_space s)"
    using length_strip_start [of "map rev white_space" "rev (strip_start white_space s)"] by (simp add: str_trim_def)
  then show ?thesis using length_strip_start [of white_space s] by simp
qed

lemma split_commas_length: "g \<in> set (split_commas d cur s) \<Longrightarrow> length g \<le> length cur + length s"
  by (induction d cur s rule: split_commas.induct) (auto split: if_splits)

lemma split_top_level_commas_length: "g \<in> set (split_top_level_commas s) \<Longrightarrow> length g \<le> length s"
  using split_commas_length length_str_trim by (fastforce simp: split_top_level_commas_def intro: order_trans)

lemma split_colons_not_Nil [simp]: "split_colons s \<noteq> []"
  by (induction s rule: split_colons.induct) (auto split: list.splits)

lemma join_split_colons: "join_with ''::'' (split_colons s) = s"
proof (induction s rule: split_colons.induct)
  case (3 c d s)
  show ?case
  proof (cases "c = CHR '':'' \<and> d = CHR '':''")
    case True
    obtain p ps where "split_colons s = p # ps" by (cases "split_colons s") auto
    then show ?thesis using 3 True by simp
  next
    case False
    obtain p ps where p: "split_colons (d # s) = p # ps" by (cases "split_colons (d # s)") auto
    then show ?thesis using 3(2) False by (cases ps) auto
  qed
qed simp_all

lemma length_join_tl: "length (join_with sep (tl xs)) \<le> length (join_with sep xs)"
  by (cases xs; cases "tl xs") auto

lemma length_join_drop: "length (join_with sep (drop n xs)) \<le> length (join_with sep xs)"
proof (induction n)
  case (Suc n)
  have "drop (Suc n) xs = tl (drop n xs)" by (simp add: drop_Suc tl_drop)
  then show ?case using Suc length_join_tl [of sep "drop n xs"] by simp
qed simp

lemma classify_vector_length: "classify_tag sha3 h s = FVector t \<Longrightarrow> length t < length s"
  using length_str_trim [of s]
  by (auto simp: classify_tag_def Let_def split: if_splits option.splits prod.splits sum.splits)

lemma classify_struct_length:
  assumes "classify_tag sha3 h s0 = FStruct a m n gs" "g \<in> set gs"
  shows "length g < length s0"
proof -
  let ?j = "join_with ''::'' (drop 2 (split_colons (str_trim s0)))"
  obtain nm gen where sg: "split_generics (str_trim ?j) = Some (nm, Some gen)" and g: "g \<in> set (split_top_level_commas gen)"
    using assms by (auto simp: classify_tag_def Let_def split: if_splits option.splits prod.splits sum.splits)
  have "length gen < length (str_trim ?j)"
    using sg by (auto simp: split_generics_def Let_def split: if_splits)
  also have "\<dots> \<le> length ?j" by (rule length_str_trim)
  also have "\<dots> \<le> length (str_trim s0)" using length_join_drop [of "''::''" 2 "split_colons (str_trim s0)"]
    by (simp add: join_split_colons)
  also have "\<dots> \<le> length s0" by (rule length_str_trim)
  finally show ?thesis using split_top_level_commas_length [OF g] by simp
qed

function parse_type_tag :: "(bytes \<Rightarrow> hash32) \<Rightarrow> hex_ops \<Rightarrow> string \<Rightarrow> type_tag option" where
  "parse_type_tag sha3 h s =
     (case classify_tag sha3 h s of
        FBase t \<Rightarrow> Some t
      | FVector inner \<Rightarrow> map_option TVector (parse_type_tag sha3 h inner)
      | FStruct addr module_id name_id generics \<Rightarrow>
          map_option (TStruct addr module_id name_id) (collect_options (map (parse_type_tag sha3 h) generics))
      | FNone \<Rightarrow> None)"
  by pat_completeness auto
termination
  by (relation "measure (\<lambda>(_, _, s). length s)") (auto dest: classify_vector_length classify_struct_length)

declare parse_type_tag.simps [simp del]

end
