(* ===== verification/Type_Tag_Correct.thy ===== *)
theory Type_Tag_Correct
  imports Type_Tag
begin

text \<open>Printed type tags parse back.\<close>

section \<open>Commas inside brackets\<close>

text \<open>A text the splitter reads into the current piece at every depth, and one it does below a bracket.\<close>

definition transparent :: "string \<Rightarrow> bool" where
  "transparent s \<longleftrightarrow> (\<forall>d cur r. split_commas d cur (s @ r) = split_commas d (cur @ s) r)"

definition inner_transparent :: "string \<Rightarrow> bool" where
  "inner_transparent s \<longleftrightarrow> (\<forall>d cur r. split_commas (Suc d) cur (s @ r) = split_commas (Suc d) (cur @ s) r)"

lemma transparent_inner: "transparent s \<Longrightarrow> inner_transparent s"
  by (simp add: transparent_def inner_transparent_def)

lemma transparent_append: "transparent s \<Longrightarrow> transparent t \<Longrightarrow> transparent (s @ t)"
  by (simp add: transparent_def)

lemma inner_transparent_append: "inner_transparent s \<Longrightarrow> inner_transparent t \<Longrightarrow> inner_transparent (s @ t)"
  by (simp add: inner_transparent_def)

lemma transparent_plain: "set s \<inter> {CHR ''<'', CHR ''>'', CHR '',''} = {} \<Longrightarrow> transparent s"
proof (induction s)
  case (Cons c s)
  then have "transparent s" "c \<noteq> CHR ''<''" "c \<noteq> CHR ''>''" "c \<noteq> CHR '',''" by auto
  then show ?case by (simp add: transparent_def)
qed (simp add: transparent_def)

lemma inner_transparent_comma: "inner_transparent '', ''"
  by (simp add: inner_transparent_def)

lemma transparent_brackets: "inner_transparent s \<Longrightarrow> transparent (''<'' @ s @ ''>'')"
  by (simp add: transparent_def inner_transparent_def)

lemma inner_transparent_join:
  "list_all transparent ss \<Longrightarrow> inner_transparent (join_with '', '' ss)"
proof (induction "'', ''" ss rule: join_with.induct)
  case 1
  then show ?case by (simp add: inner_transparent_def)
next
  case (3 s t ts)
  then have "inner_transparent s" "inner_transparent (join_with '', '' (t # ts))" by (auto intro: transparent_inner)
  then show ?case
    using inner_transparent_append [OF _ inner_transparent_append [OF inner_transparent_comma]] by simp
qed (simp add: transparent_inner)

lemma split_commas_join:
  "list_all transparent ss \<Longrightarrow> ss \<noteq> [] \<Longrightarrow>
     split_commas 0 cur (join_with '', '' ss) = (cur @ hd ss) # map ((@) '' '') (tl ss)"
proof (induction "'', ''" ss arbitrary: cur rule: join_with.induct)
  case (2 s)
  then have "split_commas 0 cur (s @ []) = split_commas 0 (cur @ s) []"
    unfolding transparent_def list.pred_inject by blast
  then show ?case by simp
next
  case (3 s t ts)
  have "split_commas 0 cur (s @ '', '' @ join_with '', '' (t # ts)) =
      split_commas 0 (cur @ s) ('', '' @ join_with '', '' (t # ts))"
    using 3(2) by (simp add: transparent_def)
  also have "\<dots> = (cur @ s) # split_commas 0 '' '' (join_with '', '' (t # ts))" by simp
  finally show ?case using 3 by simp
qed simp

section \<open>Trimming pieces\<close>

definition bounded_graphic :: "string \<Rightarrow> bool" where
  "bounded_graphic s \<longleftrightarrow> s \<noteq> [] \<and> ascii_graphic (hd s) \<and> ascii_graphic (last s)"

lemma trim_bounded: "bounded_graphic s \<Longrightarrow> str_trim s = s"
  by (intro str_trim_id) (simp add: bounded_graphic_def)

lemma strip_bounded: "bounded_graphic s \<Longrightarrow> strip_start white_space s = s"
  using white_space_not_graphic(1) unfolding bounded_graphic_def by (intro strip_start_id) metis

lemma strip_space:
  assumes "bounded_graphic s"
  shows "strip_start white_space ('' '' @ s) = s"
proof -
  have "find (\<lambda>w. w \<noteq> [] \<and> starts_with w ('' '' @ s)) white_space = Some '' ''"
    by (simp add: white_space_def char_of_eq_iff)
  then have "strip_start white_space ('' '' @ s) = strip_start white_space s" by (subst strip_start.simps) simp
  also have "\<dots> = s" by (rule strip_bounded [OF assms])
  finally show ?thesis .
qed

lemma trim_space:
  assumes "bounded_graphic s"
  shows "str_trim ('' '' @ s) = s"
proof -
  have "str_trim ('' '' @ s) = str_trim s" 
    unfolding str_trim_def strip_space [OF assms] strip_bounded [OF assms] ..
  then show ?thesis using trim_bounded [OF assms] by simp
qed

lemma split_top_level_join:
  assumes "list_all transparent ss" "list_all bounded_graphic ss" "ss \<noteq> []"
  shows "filter (\<lambda>g. g \<noteq> []) (split_top_level_commas (join_with '', '' ss)) = ss"
proof -
  obtain s ts where ss: "ss = s # ts" using assms(3) by (cases ss) auto
  have "map str_trim (map ((@) '' '') ts) = ts"
    unfolding map_map using assms(2) ss trim_space by (intro map_idI) (auto simp: list_all_iff)
  then have "split_top_level_commas (join_with '', '' ss) = ss"
    using split_commas_join [OF assms(1,3), of "[]"] assms(2) ss
    by (simp add: split_top_level_commas_def trim_bounded)
  moreover have "filter (\<lambda>g. g \<noteq> []) ss = ss"
    using assms(2) by (intro filter_True) (auto simp: list_all_iff bounded_graphic_def)
  ultimately show ?thesis by simp
qed

section \<open>Printed tags\<close>

text \<open>What the parser supports: no 16, 32 or 256 bit integers, no signer, ordinary names, non-zero addresses.\<close>

definition plain_identifier :: "string \<Rightarrow> bool" where
  "plain_identifier s \<longleftrightarrow> identifier_is_valid s \<and> s \<noteq> ''<SELF>''"

fun supported :: "type_tag \<Rightarrow> bool" where
  "supported (TVector t) = supported t"
| "supported (TStruct a m n ts) =
     (a \<noteq> aa_ZERO \<and> plain_identifier m \<and> plain_identifier n \<and> list_all supported ts)"
| "supported t = (t \<in> {TBool, TU8, TU64, TU128, TAddress})"

lemma plain_identifier_chars: "plain_identifier s \<Longrightarrow> s \<noteq> [] \<and> list_all is_valid_identifier_char s"
  by (cases s) (auto simp: plain_identifier_def identifier_is_valid_def is_valid_identifier_char_def split: if_splits)

lemma identifier_char_graphic: "is_valid_identifier_char c \<Longrightarrow> ascii_graphic c"
  by (auto simp: is_valid_identifier_char_def is_ascii_letter_def is_ascii_digit_def ascii_graphic_def)

lemma identifier_no_special:
  assumes "list_all is_valid_identifier_char s"
  shows "set s \<inter> {CHR ''<'', CHR ''>'', CHR '','', CHR '':''} = {}"
proof -
  have "\<not> is_valid_identifier_char c" if "c \<in> {CHR ''<'', CHR ''>'', CHR '','', CHR '':''}" for c
    using that by (auto simp: is_valid_identifier_char_def is_ascii_letter_def is_ascii_digit_def)
  then show ?thesis using assms unfolding list_all_iff by blast
qed

lemma hexdigit_identifier_char: "is_ascii_hexdigit c \<Longrightarrow> is_valid_identifier_char c"
  by (auto simp: is_ascii_hexdigit_def is_valid_identifier_char_def is_ascii_letter_def)

lemma identifier_bounded:
  "s \<noteq> [] \<Longrightarrow> list_all is_valid_identifier_char s \<Longrightarrow> bounded_graphic s"
  using identifier_char_graphic by (auto simp: bounded_graphic_def list_all_iff)

lemma identifier_transparent: "list_all is_valid_identifier_char s \<Longrightarrow> transparent s"
  using identifier_no_special [of s] by (intro transparent_plain) auto

lemma short_str_chars:
  assumes "hex_laws h"
  shows "short_str_lossless h a \<noteq> []" "list_all is_valid_identifier_char (short_str_lossless h a)"
proof -
  show "short_str_lossless h a \<noteq> []" by (simp add: short_str_lossless_def Let_def)
  have "list_all is_ascii_hexdigit (drop 2 (aa_to_hex_literal h a))"
    using aa_from_hex_literal_short(3) [OF assms aa_literal_roundtrip [OF assms]] .
  then show "list_all is_valid_identifier_char (short_str_lossless h a)"
    using hexdigit_identifier_char by (auto simp: aa_to_hex_literal_def list_all_iff)
qed

lemma identifier_literal_0x: "is_valid_identifier_char CHR ''0''" "is_valid_identifier_char CHR ''x''"
  by (simp_all add: is_valid_identifier_char_def is_ascii_letter_def is_ascii_digit_def)

lemma display_properties:
  assumes "hex_laws h" "supported t"
  shows "transparent (display_type_tag h t) \<and> bounded_graphic (display_type_tag h t)"
  using assms(2)
proof (induction t)
  case (TVector t)
  then have IH: "transparent (display_type_tag h t)" "bounded_graphic (display_type_tag h t)" by auto
  have "transparent ''vector''" by (intro transparent_plain) auto
  then have "transparent (''vector'' @ ''<'' @ display_type_tag h t @ ''>'')"
    using IH(1) by (intro transparent_append transparent_brackets transparent_inner)
  then show ?case by (simp add: bounded_graphic_def ascii_graphic_def)
next
  case (TStruct a m n ts)
  let ?g = "if ts = [] then [] else ''<'' @ join_with '', '' (map (display_type_tag h) ts) @ ''>''"
  let ?a = "''0x'' @ short_str_lossless h a"
  have ids: "list_all is_valid_identifier_char ?a" "list_all is_valid_identifier_char m"
      "list_all is_valid_identifier_char n" "n \<noteq> []"
    using TStruct.prems plain_identifier_chars short_str_chars [OF assms(1)] identifier_literal_0x by auto
  have "list_all transparent (map (display_type_tag h) ts)"
    using TStruct by (auto simp: list_all_iff)
  then have "transparent ?g"
    using transparent_brackets [OF inner_transparent_join] by (auto simp: transparent_def)
  moreover have "transparent ''::''" by (intro transparent_plain) auto
  ultimately have "transparent (?a @ ''::'' @ m @ ''::'' @ n @ ?g)"
    using ids identifier_transparent by (intro transparent_append) auto
  moreover have "bounded_graphic (?a @ ''::'' @ m @ ''::'' @ n @ ?g)"
    using ids(3,4) identifier_char_graphic by (auto simp: bounded_graphic_def ascii_graphic_def list_all_iff)
  ultimately show ?case by simp
qed (auto simp: bounded_graphic_def ascii_graphic_def intro!: transparent_plain)

section \<open>Parsing them\<close>

lemma split_colons_cons:
  "CHR '':'' \<notin> set a \<Longrightarrow> split_colons (a @ CHR '':'' # CHR '':'' # s) = a # split_colons s"
proof (induction a)
  case (Cons c a)
  then show ?case by (cases a) (auto split: list.split)
qed simp

lemma str_contains_append: "str_contains p (a @ p @ b)"
proof (induction a)
  case Nil
  have "starts_with p ([] @ p @ b)" by simp
  then show ?case by (cases "p @ b") auto
qed simp

lemma split_generics_none: "CHR ''<'' \<notin> set n \<Longrightarrow> split_generics n = Some (n, None)"
proof -
  assume "CHR ''<'' \<notin> set n"
  then have "length (takeWhile (\<lambda>c. c \<noteq> CHR ''<'') n) = length n" by (induction n) auto
  then show ?thesis unfolding split_generics_def Let_def by (simp only: less_irrefl if_False)
qed

lemma split_generics_some:
  assumes "CHR ''<'' \<notin> set n"
  shows "split_generics (n @ ''<'' @ g @ ''>'') = Some (str_trim n, Some g)"
proof -
  have "takeWhile (\<lambda>c. c \<noteq> CHR ''<'') (n @ CHR ''<'' # g @ ''>'') = n"
    using assms by (subst takeWhile_append2) auto
  then show ?thesis by (simp add: split_generics_def Let_def butlast_append)
qed

lemma parse_printed_address:
  assumes "hex_laws h" "a \<noteq> aa_ZERO"
  shows "parse_to_account_address sha3 h (''0x'' @ short_str_lossless h a) = Inr a"
proof -
  let ?l = "''0x'' @ short_str_lossless h a"
  have "CHR '':'' \<notin> set ?l"
    using identifier_no_special [OF short_str_chars(2) [OF assms(1), of a]] by auto
  then have "address_from_hex_literal sha3 h ?l = Inr a"
    using address_from_hex_literal_untagged [OF assms(1), of ?l sha3 a] aa_literal_roundtrip [OF assms(1), of a] assms(2)
    by (simp add: aa_to_hex_literal_def)
  then show ?thesis by (simp add: parse_to_account_address_def to_account_address_def)
qed

lemma classify_struct:
  assumes "hex_laws h" "supported (TStruct a m n ts)"
  shows "classify_tag sha3 h (display_type_tag h (TStruct a m n ts)) =
    FStruct a m n (map (display_type_tag h) ts)"
proof -
  let ?g = "if ts = [] then [] else ''<'' @ join_with '', '' (map (display_type_tag h) ts) @ ''>''"
  let ?a = "''0x'' @ short_str_lossless h a" and ?ds = "map (display_type_tag h) ts"
  define s where "s = display_type_tag h (TStruct a m n ts)"
  have s: "s = ?a @ ''::'' @ m @ ''::'' @ n @ ?g" by (simp add: s_def)
  have ids: "list_all is_valid_identifier_char ?a" "list_all is_valid_identifier_char m" "m \<noteq> []"
      "list_all is_valid_identifier_char n" "n \<noteq> []"
    using assms(2) plain_identifier_chars short_str_chars [OF assms(1)] identifier_literal_0x by auto
  have tr: "str_trim s = s" "str_trim ?a = ?a" "str_trim m = m" "str_trim n = n"
    using display_properties [OF assms] trim_bounded ids identifier_bounded unfolding s_def by auto
  have nc: "CHR '':'' \<notin> set ?a" "CHR '':'' \<notin> set m" "CHR ''<'' \<notin> set n"
    using identifier_no_special [OF ids(1)] identifier_no_special [OF ids(2)] identifier_no_special [OF ids(4)]
    by auto
  have parts: "split_colons s = ?a # m # split_colons (n @ ?g)"
    using split_colons_cons [OF nc(1), of "m @ ''::'' @ n @ ?g"] split_colons_cons [OF nc(2), of "n @ ?g"]
    unfolding s by simp
  have bng: "bounded_graphic (n @ ?g)"
    using ids(4,5) identifier_char_graphic by (auto simp: bounded_graphic_def ascii_graphic_def list_all_iff)
  have name: "str_trim (join_with ''::'' (drop 2 (split_colons s))) = n @ ?g"
    unfolding parts using trim_bounded [OF bng] by (simp add: join_split_colons)
  have gen: "split_generics (n @ ?g) = Some (n, if ts = [] then None else Some (join_with '', '' ?ds))"
    using split_generics_none [OF nc(3)] split_generics_some [OF nc(3)] tr(4) by auto
  have pieces: "ts \<noteq> [] \<Longrightarrow> filter (\<lambda>g. g \<noteq> []) (split_top_level_commas (join_with '', '' ?ds)) = ?ds"
    using assms display_properties by (intro split_top_level_join) (auto simp: list_all_iff)
  have len: "length (split_colons s) \<ge> 3" unfolding parts by (cases "split_colons (n @ ?g)") auto
  have cc: "str_contains ''::'' s" unfolding s using str_contains_append [of "''::''" ?a] by simp
  have hd: "s \<noteq> ''bool'' \<and> s \<noteq> ''u8'' \<and> s \<noteq> ''u64'' \<and> s \<noteq> ''u128'' \<and> s \<noteq> ''address'' \<and> \<not> starts_with ''vector<'' s"
    by (simp add: s)
  have id: "identifier_new m = Some m" "identifier_new n = Some n"
    using assms(2) by (auto simp: identifier_new_def plain_identifier_def)
  have nth: "split_colons s ! 0 = ?a" "split_colons s ! 1 = m" by (simp_all add: parts)
  have addr: "parse_to_account_address sha3 h ?a = Inr a" using parse_printed_address [OF assms(1)] assms(2) by simp
  have "classify_tag sha3 h s = FStruct a m n ?ds"
    unfolding classify_tag_def Let_def tr(1) nth name gen tr(2,3) addr
    using hd cc len pieces id by auto
  then show ?thesis by (simp only: s_def)
qed

lemma collect_options_map: "(\<And>x. x \<in> set xs \<Longrightarrow> f (g x) = Some x) \<Longrightarrow> collect_options (map f (map g xs)) = Some xs"
  by (induction xs) auto

text \<open>
  C27: type arguments survive printing. Every type tag built from the base types the parser knows,
  vectors and structs with ordinary names at non-zero addresses, nested to any depth, parses back from
  its printed form to itself.
\<close>

theorem type_tag_roundtrip:
  assumes "hex_laws h" "supported t"
  shows "parse_type_tag sha3 h (display_type_tag h t) = Some t"
  using assms(2)
proof (induction t)
  case (TVector t)
  have b: "bounded_graphic (display_type_tag h (TVector t))"
    using display_properties [OF assms(1) TVector.prems] by simp
  have "classify_tag sha3 h (display_type_tag h (TVector t)) = FVector (display_type_tag h t)"
    unfolding classify_tag_def Let_def trim_bounded [OF b] by (simp add: butlast_append)
  then show ?case using TVector by (subst parse_type_tag.simps) simp
next
  case (TStruct a m n ts)
  then have "collect_options (map (parse_type_tag sha3 h) (map (display_type_tag h) ts)) = Some ts"
    by (intro collect_options_map) (auto simp: list_all_iff)
  then show ?case
    using classify_struct [OF assms(1) TStruct.prems] by (subst parse_type_tag.simps) simp
qed (auto simp: parse_type_tag.simps classify_tag_def trim_bounded bounded_graphic_def ascii_graphic_def)

theorem type_tag_roundtrip_witness:
  "parse_type_tag (\<lambda>_. zero_hash) hex_model
     (display_type_tag hex_model (TStruct aa_ONE ''coin'' ''Coin'' [TVector TU8, TU64])) =
   Some (TStruct aa_ONE ''coin'' ''Coin'' [TVector TU8, TU64])"
proof (rule type_tag_roundtrip [OF hex_model_laws])
  have "aa_ONE \<noteq> aa_ZERO" by (simp add: aa_ONE_def aa_ZERO_def Hash32_eq_iff numeral_eq_Suc)
  then show "supported (TStruct aa_ONE ''coin'' ''Coin'' [TVector TU8, TU64])"
    by (simp add: plain_identifier_def identifier_is_valid_def is_ascii_letter_def is_valid_identifier_char_def)
qed

end
