(* ===== verification/Mempool.thy ===== *)
theory Mempool
  imports Blockchain Type_Tag Gas_Coin Gas "HOL-Library.Product_Lexorder"
begin

text \<open>
  The transaction pool of the engine, \<^verbatim>\<open>crates/kanari-core/src/engine/mempool.rs\<close>, with the parts of
  \<^verbatim>\<open>engine.rs\<close> it uses (limits, records, admission checks, congestion keys, queries, conflict-free
  selection) and the step of \<^verbatim>\<open>engine/apply_checkpoint.rs\<close> that removes committed transactions. BCS
  sizes are parameters, as is the persistent store; the pool is taken under its lock, so an operation is
  one step on the pool. A batch is verified in parallel there; the model reports the error of the first
  failing transaction.
\<close>

section \<open>Limits and data\<close>

definition MAX_TRANSACTION_BYTES :: u64 where
  "MAX_TRANSACTION_BYTES = 256 * 1024"

definition MAX_TRANSACTION_GAS_LIMIT :: u64 where
  "MAX_TRANSACTION_GAS_LIMIT = 10000000"

definition MAX_MEMPOOL_SIZE :: nat where
  "MAX_MEMPOOL_SIZE = 100000"

definition MAX_MEMPOOL_BYTES :: u64 where
  "MAX_MEMPOOL_BYTES = 256 * 1024 * 1024"

definition MAX_PENDING_PER_PRIMARY_ACCESS_LANE :: u64 where
  "MAX_PENDING_PER_PRIMARY_ACCESS_LANE = 64"

definition MAX_PENDING_PER_SENDER :: u64 where
  "MAX_PENDING_PER_SENDER = 256"

record pending_metadata =
  pm_previewed :: bool
  pm_preview_gas_used :: "u64 option"
  pm_preview_effects :: "transaction_effects option"

record pending_record =
  pr_signed_tx :: signed_transaction
  pr_metadata :: pending_metadata
  pr_tx_hash :: bytes
  pr_normalized_sender :: string
  pr_primary_access_key :: string
  pr_congestion_access_key :: string
  pr_access_keys :: "string list"
  pr_size_bytes :: u64

type_synonym counts = "string \<rightharpoonup> u64"

record mempool_state =
  pending_txs :: "pending_record list"
  pending_bytes :: u64
  pending_tx_hashes :: "bytes set"
  pending_sender_counts :: counts
  pending_access_counts :: counts
  pending_primary_access_counts :: counts
  pending_congestion_access_counts :: counts

definition mempool_default :: mempool_state where
  "mempool_default = \<lparr>pending_txs = [], pending_bytes = 0, pending_tx_hashes = {},
     pending_sender_counts = Map.empty, pending_access_counts = Map.empty,
     pending_primary_access_counts = Map.empty, pending_congestion_access_counts = Map.empty\<rparr>"

datatype shape_error =
    ShapeEncoding
  | TransactionTooLarge
  | GasLimitTooHigh
  | NonceTooLarge
  | ZeroAmount
  | InvalidSender
  | InvalidModule
  | InvalidTypeArgument
  | ZeroGasLimit
  | InvalidGasPrice

datatype mempool_error =
    MempoolFull
  | ByteBudgetExhausted
  | SizeOverflow
  | SizeEncoding
  | Unverified tx_error
  | Shape shape_error
  | IndexLoad
  | WatermarkLoad
  | AlreadyPending bytes
  | AlreadyExecuted bytes
  | StaleNonce u64 u64
  | SenderSaturated string
  | LaneSaturated string
  | CongestionSaturated string

text \<open>
  The parameters: the size functions of BCS, SHA3-256, and what the persistent store answers. A store
  answers for a hash whether the permanent index has it, and gives the per-sender watermark of nonces;
  \<^verbatim>\<open>Inl\<close> is a failed read.
\<close>

record store_view =
  sv_transaction_index :: "bytes \<Rightarrow> unit + bool"
  sv_nonce_watermark :: "unit + (string \<times> u64) list option"

record mp_env =
  mp_cp :: cp_env
  mp_sha3 :: "bytes \<Rightarrow> hash32"
  bcs_transaction_size :: "transaction \<Rightarrow> u64 option"
  bcs_signed_size :: "transaction \<Rightarrow> bytes \<Rightarrow> u64 option"
  bcs_effects_size :: "transaction_effects \<Rightarrow> u64 option"

abbreviation mp_tx :: "mp_env \<Rightarrow> tx_env" where
  "mp_tx e \<equiv> cp_tx_env (mp_cp e)"

section \<open>Admission checks\<close>

text \<open>
  \<^verbatim>\<open>trim_start_matches("0x")\<close> strips every leading occurrence. The lowercasing of a string that is no
  address is modelled on its ASCII letters.
\<close>

definition normalize_addr :: "mp_env \<Rightarrow> string \<Rightarrow> string" where
  "normalize_addr e addr =
     (case address_from_str (mp_sha3 e) (env_hex (mp_tx e)) addr of
        Inr a \<Rightarrow> address_to_hex (env_hex (mp_tx e)) a
      | Inl _ \<Rightarrow> map to_ascii_lowercase (strip_start [''0x''] addr))"

definition congestion_access_key :: "transaction \<Rightarrow> string" where
  "congestion_access_key tx =
     (case find oi_mutable (tx_object_inputs tx) of
        Some input \<Rightarrow> ''object:'' @ or_object_id (oi_object_ref input)
      | None \<Rightarrow>
          (case tx_object_inputs tx of
             input # _ \<Rightarrow> ''object:'' @ or_object_id (oi_object_ref input)
           | [] \<Rightarrow>
               (case Option.bind (tx_gas_payment tx)
                       (\<lambda>gp. case gp_payment_objects gp of [] \<Rightarrow> None | p # _ \<Rightarrow> Some p) of
                  Some payment \<Rightarrow> ''object:'' @ or_object_id payment
                | None \<Rightarrow> ''owner:'' @ tx_sender tx)))"

definition MAX_NONCE :: u64 where
  "MAX_NONCE = 2 ^ 53 - 1"

text \<open>The module of a call is an address and a name; its type arguments parse.\<close>

definition validate_call_target :: "mp_env \<Rightarrow> string \<Rightarrow> string list \<Rightarrow> shape_error option" where
  "validate_call_target e module type_args =
     (case split_colons module of
        [address, module_name] \<Rightarrow>
          if address = [] \<or> module_name = [] then Some InvalidModule
          else (case parse_to_account_address (mp_sha3 e) (env_hex (mp_tx e)) address of
                  Inl _ \<Rightarrow> Some InvalidModule
                | Inr _ \<Rightarrow>
                    if identifier_new module_name = None then Some InvalidModule
                    else if list_ex (\<lambda>t. parse_type_tag (mp_sha3 e) (env_hex (mp_tx e)) t = None) type_args
                    then Some InvalidTypeArgument
                    else None)
      | _ \<Rightarrow> Some InvalidModule)"

definition validate_transaction_admission_shape :: "mp_env \<Rightarrow> transaction \<Rightarrow> shape_error option" where
  "validate_transaction_admission_shape e tx =
     (case bcs_transaction_size e tx of
        None \<Rightarrow> Some ShapeEncoding
      | Some sz \<Rightarrow>
          if sz > MAX_TRANSACTION_BYTES then Some TransactionTooLarge
          else if tx_gas_limit tx > MAX_TRANSACTION_GAS_LIMIT then Some GasLimitTooHigh
          else if tx_nonce tx > MAX_NONCE then Some NonceTooLarge
          else if (case native_call (mp_tx e) tx of None \<Rightarrow> False | Some call \<Rightarrow> required_native_amount call = 0)
          then Some ZeroAmount
          else (case parse_to_account_address (mp_sha3 e) (env_hex (mp_tx e)) (tx_sender tx) of
                  Inl _ \<Rightarrow> Some InvalidSender
                | Inr _ \<Rightarrow>
                    (case (case tx of
                             transaction.ExecuteFunction _ module _ type_args _ _ _ _ _ _ \<Rightarrow> validate_call_target e module type_args
                           | _ \<Rightarrow> None) of
                       Some err \<Rightarrow> Some err
                     | None \<Rightarrow>
                         if tx_gas_limit tx = 0 then Some ZeroGasLimit
                         else if \<not> gas_price_is_valid (tx_gas_price tx) then Some InvalidGasPrice
                         else None)))"

definition pending_record_size ::
  "mp_env \<Rightarrow> signed_transaction \<Rightarrow> pending_metadata \<Rightarrow> mempool_error + u64" where
  "pending_record_size e st metadata =
     (case bcs_signed_size e (st_transaction st) (st_signature st) of
        None \<Rightarrow> Inl SizeEncoding
      | Some transaction_bytes \<Rightarrow>
          (case (case pm_preview_effects metadata of None \<Rightarrow> Some 0 | Some eff \<Rightarrow> bcs_effects_size e eff) of
             None \<Rightarrow> Inl SizeEncoding
           | Some effects_bytes \<Rightarrow>
               (case Option.bind (checked_add transaction_bytes effects_bytes) (\<lambda>sz. checked_add sz 128) of
                  None \<Rightarrow> Inl SizeOverflow
                | Some sz \<Rightarrow> Inr sz)))"

definition try_is_transaction_committed ::
  "blockchain \<Rightarrow> store_view option \<Rightarrow> bytes \<Rightarrow> unit + bool" where
  "try_is_transaction_committed bc store h =
     (if is_transaction_hash_executed bc h then Inr True
      else case store of None \<Rightarrow> Inr False | Some sv \<Rightarrow> sv_transaction_index sv h)"

section \<open>Submitting a batch\<close>

text \<open>Verification of one transaction: its record, with the nonce it was verified with.\<close>

definition verify_for_pool ::
  "mp_env \<Rightarrow> pending_metadata \<Rightarrow> signed_transaction \<Rightarrow> mempool_error + pending_record" where
  "verify_for_pool e metadata st =
     (case into_verified (mp_tx e) st of
        Inl err \<Rightarrow> Inl (Unverified err)
      | Inr verified \<Rightarrow>
          (let tx = st_transaction (vst_signed verified)
           in case validate_transaction_admission_shape e tx of
                Some err \<Rightarrow> Inl (Shape err)
              | None \<Rightarrow>
                  (case pending_record_size e (vst_signed verified) metadata of
                     Inl err \<Rightarrow> Inl err
                   | Inr sz \<Rightarrow>
                       Inr \<lparr>pr_signed_tx = vst_signed verified, pr_metadata = metadata,
                            pr_tx_hash = vst_tx_hash verified,
                            pr_normalized_sender = normalize_addr e (tx_sender tx),
                            pr_primary_access_key = primary_access_key tx,
                            pr_congestion_access_key = congestion_access_key tx,
                            pr_access_keys = object_access_keys tx, pr_size_bytes = sz\<rparr>)))"

definition pr_nonce :: "pending_record \<Rightarrow> u64" where
  "pr_nonce r = tx_nonce (st_transaction (pr_signed_tx r))"

fun sum_sizes :: "u64 \<Rightarrow> u64 list \<Rightarrow> mempool_error + u64" where
  "sum_sizes acc_bytes [] = Inr acc_bytes"
| "sum_sizes acc_bytes (s # ss) =
     (case checked_add acc_bytes s of None \<Rightarrow> Inl SizeOverflow | Some t \<Rightarrow> sum_sizes t ss)"

definition batch_order :: "pending_record \<Rightarrow> string \<times> string \<times> u64 \<times> bytes" where
  "batch_order r = (pr_primary_access_key r, pr_normalized_sender r, pr_nonce r, pr_tx_hash r)"

text \<open>The counters a batch accumulates while it is checked.\<close>

record batch_acc =
  ba_hashes :: "bytes list"
  ba_sender :: "(string \<times> u64) list"
  ba_primary :: "(string \<times> u64) list"
  ba_congestion :: "(string \<times> u64) list"
  ba_access :: "(string \<times> u64) list"

definition batch_acc_empty :: batch_acc where
  "batch_acc_empty = \<lparr>ba_hashes = [], ba_sender = [], ba_primary = [], ba_congestion = [], ba_access = []\<rparr>"

definition bump :: "string \<Rightarrow> (string \<times> u64) list \<Rightarrow> (string \<times> u64) list" where
  "bump k = AList.map_default k 1 (\<lambda>c. c + 1)"

definition count_of :: "(string \<rightharpoonup> u64) \<Rightarrow> string \<Rightarrow> u64" where
  "count_of m k = (case m k of None \<Rightarrow> 0 | Some c \<Rightarrow> c)"

definition MAX_WATERMARK :: u64 where
  "MAX_WATERMARK = 2 ^ 53"

definition cap_watermark :: "u64 \<Rightarrow> u64" where
  "cap_watermark v = (if v \<ge> MAX_WATERMARK then 0 else v)"

definition sender_watermark :: "store_view option \<Rightarrow> mempool_error + (string \<times> u64) list" where
  "sender_watermark store =
     (case store of
        None \<Rightarrow> Inr []
      | Some sv \<Rightarrow>
          (case sv_nonce_watermark sv of
             Inl _ \<Rightarrow> Inl WatermarkLoad
           | Inr loaded \<Rightarrow>
               Inr (map (\<lambda>(k, v). (k, cap_watermark v))
                 (case loaded of None \<Rightarrow> [] | Some w \<Rightarrow> w))))"

definition admit_one ::
  "mempool_state \<Rightarrow> bytes set \<Rightarrow> (string \<rightharpoonup> u64) \<Rightarrow> pending_record \<Rightarrow> batch_acc \<Rightarrow> mempool_error + batch_acc" where
  "admit_one mp executed watermark r acc =
     (let h = pr_tx_hash r; sender = pr_normalized_sender r; primary = pr_primary_access_key r;
          congestion = pr_congestion_access_key r
      in if h \<in> pending_tx_hashes mp \<or> h \<in> set (ba_hashes acc) then Inl (AlreadyPending h)
         else if h \<in> executed then Inl (AlreadyExecuted h)
         else if (case watermark sender of None \<Rightarrow> False | Some w \<Rightarrow> w \<ge> pr_nonce r)
         then Inl (StaleNonce (pr_nonce r) (count_of watermark sender))
         else if saturating_add (count_of (pending_sender_counts mp) sender) (count_of (map_of (ba_sender acc)) sender)
                 \<ge> MAX_PENDING_PER_SENDER then Inl (SenderSaturated sender)
         else if saturating_add (count_of (pending_primary_access_counts mp) primary)
                   (count_of (map_of (ba_primary acc)) primary)
                 \<ge> MAX_PENDING_PER_PRIMARY_ACCESS_LANE then Inl (LaneSaturated primary)
         else if saturating_add (count_of (pending_congestion_access_counts mp) congestion)
                   (count_of (map_of (ba_congestion acc)) congestion)
                 \<ge> MAX_PENDING_PER_PRIMARY_ACCESS_LANE then Inl (CongestionSaturated congestion)
         else Inr \<lparr>ba_hashes = ba_hashes acc @ [h],
                   ba_sender = bump sender (ba_sender acc),
                   ba_primary = bump primary (ba_primary acc),
                   ba_congestion = bump congestion (ba_congestion acc),
                   ba_access = fold bump (pr_access_keys r) (bump primary (ba_access acc))\<rparr>)"

fun admit_all ::
  "mempool_state \<Rightarrow> bytes set \<Rightarrow> (string \<rightharpoonup> u64) \<Rightarrow> pending_record list \<Rightarrow> batch_acc \<Rightarrow> mempool_error + batch_acc" where
  "admit_all mp executed watermark [] acc = Inr acc"
| "admit_all mp executed watermark (r # rs) acc =
     (case admit_one mp executed watermark r acc of
        Inl err \<Rightarrow> Inl err
      | Inr acc' \<Rightarrow> admit_all mp executed watermark rs acc')"

definition add_counts :: "(string \<times> u64) list \<Rightarrow> counts \<Rightarrow> counts" where
  "add_counts l m = fold (\<lambda>(k, c) m. m(k \<mapsto> (case m k of None \<Rightarrow> c | Some n \<Rightarrow> n + c))) l m"

definition commit_batch :: "pending_record list \<Rightarrow> u64 \<Rightarrow> batch_acc \<Rightarrow> mempool_state \<Rightarrow> mempool_state" where
  "commit_batch records batch_bytes acc mp =
     \<lparr>pending_txs = pending_txs mp @ records,
      pending_bytes = saturating_add (pending_bytes mp) batch_bytes,
      pending_tx_hashes = pending_tx_hashes mp \<union> set (ba_hashes acc),
      pending_sender_counts = add_counts (ba_sender acc) (pending_sender_counts mp),
      pending_access_counts = add_counts (ba_access acc) (pending_access_counts mp),
      pending_primary_access_counts = add_counts (ba_primary acc) (pending_primary_access_counts mp),
      pending_congestion_access_counts = add_counts (ba_congestion acc) (pending_congestion_access_counts mp)\<rparr>"

definition executed_in_batch ::
  "blockchain \<Rightarrow> store_view option \<Rightarrow> pending_record list \<Rightarrow> mempool_error + bytes set" where
  "executed_in_batch bc store records =
     (case try_collect (map (\<lambda>r. map_sum (\<lambda>_. IndexLoad) (\<lambda>b. (pr_tx_hash r, b))
              (try_is_transaction_committed bc store (pr_tx_hash r))) records) of
        Inl err \<Rightarrow> Inl err
      | Inr answers \<Rightarrow> Inr (fst ` {a \<in> set answers. snd a}))"

definition submit_transactions_batch_internal ::
  "mp_env \<Rightarrow> blockchain \<Rightarrow> store_view option \<Rightarrow> signed_transaction list \<Rightarrow> pending_metadata \<Rightarrow> mempool_state
     \<Rightarrow> mempool_error + bytes list \<times> mempool_state" where
  "submit_transactions_batch_internal e bc store txs metadata mp =
     (if txs = [] then Inr ([], mp)
      else if length (pending_txs mp) + length txs > MAX_MEMPOOL_SIZE then Inl MempoolFull
      else case try_collect (map (verify_for_pool e metadata) txs) of
        Inl err \<Rightarrow> Inl err
      | Inr verified \<Rightarrow>
          (case sum_sizes 0 (map pr_size_bytes verified) of
             Inl err \<Rightarrow> Inl err
           | Inr batch_bytes \<Rightarrow>
               (let records = sort_key batch_order verified
                in case executed_in_batch bc store records of
                     Inl err \<Rightarrow> Inl err
                   | Inr executed \<Rightarrow>
                       if length (pending_txs mp) + length txs > MAX_MEMPOOL_SIZE then Inl MempoolFull
                       else if saturating_add (pending_bytes mp) batch_bytes > MAX_MEMPOOL_BYTES
                       then Inl ByteBudgetExhausted
                       else case sender_watermark store of
                         Inl err \<Rightarrow> Inl err
                       | Inr watermark \<Rightarrow>
                           (case admit_all mp executed (map_of watermark) records batch_acc_empty of
                              Inl err \<Rightarrow> Inl err
                            | Inr acc \<Rightarrow> Inr (ba_hashes acc, commit_batch records batch_bytes acc mp)))))"

definition submit_transactions_batch ::
  "mp_env \<Rightarrow> blockchain \<Rightarrow> store_view option \<Rightarrow> signed_transaction list \<Rightarrow> mempool_state
     \<Rightarrow> mempool_error + bytes list \<times> mempool_state" where
  "submit_transactions_batch e bc store txs mp =
     submit_transactions_batch_internal e bc store txs
       \<lparr>pm_previewed = False, pm_preview_gas_used = None, pm_preview_effects = None\<rparr> mp"

section \<open>Removing transactions\<close>

definition decrement_pending_count :: "string \<Rightarrow> counts \<Rightarrow> counts" where
  "decrement_pending_count key m =
     (case m key of
        None \<Rightarrow> m
      | Some count \<Rightarrow>
          (let count = saturating_sub count 1 in if count = 0 then m(key := None) else m(key \<mapsto> count)))"

definition remove_pending_sender_counts :: "pending_record list \<Rightarrow> counts \<Rightarrow> counts" where
  "remove_pending_sender_counts txs m = fold (\<lambda>tx. decrement_pending_count (pr_normalized_sender tx)) txs m"

definition remove_pending_access_counts :: "pending_record list \<Rightarrow> counts \<Rightarrow> counts" where
  "remove_pending_access_counts txs m =
     fold (\<lambda>tx m. fold decrement_pending_count (pr_access_keys tx)
       (decrement_pending_count (pr_primary_access_key tx) m)) txs m"

definition remove_pending_primary_access_counts :: "pending_record list \<Rightarrow> counts \<Rightarrow> counts" where
  "remove_pending_primary_access_counts txs m =
     fold (\<lambda>tx. decrement_pending_count (pr_primary_access_key tx)) txs m"

definition remove_pending_congestion_access_counts :: "pending_record list \<Rightarrow> counts \<Rightarrow> counts" where
  "remove_pending_congestion_access_counts txs m =
     fold (\<lambda>tx. decrement_pending_count (pr_congestion_access_key tx)) txs m"

text \<open>The removed records, the pool, and the counter of dropped transactions.\<close>

definition remove_pending_transactions_by_hashes ::
  "bytes list \<Rightarrow> mempool_state \<Rightarrow> u64 \<Rightarrow> pending_record list \<times> mempool_state \<times> u64" where
  "remove_pending_transactions_by_hashes hashes mp dropped =
     (let removed = filter (\<lambda>tx. pr_tx_hash tx \<in> set hashes) (pending_txs mp)
      in if hashes = [] \<or> removed = [] then ([], mp, dropped)
         else
           (let removed_bytes = fold (\<lambda>r acc_bytes. saturating_add acc_bytes (pr_size_bytes r)) removed 0
            in (removed,
                \<lparr>pending_txs = filter (\<lambda>tx. pr_tx_hash tx \<notin> set hashes) (pending_txs mp),
                 pending_bytes = saturating_sub (pending_bytes mp) removed_bytes,
                 pending_tx_hashes = {h \<in> pending_tx_hashes mp. h \<notin> set hashes},
                 pending_sender_counts = remove_pending_sender_counts removed (pending_sender_counts mp),
                 pending_access_counts = remove_pending_access_counts removed (pending_access_counts mp),
                 pending_primary_access_counts =
                   remove_pending_primary_access_counts removed (pending_primary_access_counts mp),
                 pending_congestion_access_counts =
                   remove_pending_congestion_access_counts removed (pending_congestion_access_counts mp)\<rparr>,
                dropped + of_nat (length removed))))"

text \<open>One committed record leaves the counters.\<close>

definition drain_counts :: "pending_record \<Rightarrow> mempool_state \<Rightarrow> mempool_state" where
  "drain_counts r mp =
     mp\<lparr>pending_sender_counts := decrement_pending_count (pr_normalized_sender r) (pending_sender_counts mp),
        pending_primary_access_counts :=
          decrement_pending_count (pr_primary_access_key r) (pending_primary_access_counts mp),
        pending_congestion_access_counts :=
          decrement_pending_count (pr_congestion_access_key r) (pending_congestion_access_counts mp),
        pending_access_counts :=
          fold decrement_pending_count (pr_access_keys r)
            (decrement_pending_count (pr_primary_access_key r) (pending_access_counts mp))\<rparr>"

definition can_clear_all_pending :: "bytes list \<Rightarrow> mempool_state \<Rightarrow> bool" where
  "can_clear_all_pending committed mp \<longleftrightarrow>
     length (pending_txs mp) = length committed \<and>
     list_all (\<lambda>(pending, h). pr_tx_hash pending = h) (zip (pending_txs mp) committed)"

definition drain_selected :: "bytes list \<Rightarrow> mempool_state \<Rightarrow> mempool_state" where
  "drain_selected committed mp =
     (let removed = filter (\<lambda>tx. pr_tx_hash tx \<in> set committed) (pending_txs mp);
          removed_bytes = fold (\<lambda>r acc_bytes. saturating_add acc_bytes (pr_size_bytes r)) removed 0;
          mp = mp\<lparr>pending_txs := filter (\<lambda>tx. pr_tx_hash tx \<notin> set committed) (pending_txs mp),
                  pending_bytes := saturating_sub (pending_bytes mp) removed_bytes,
                  pending_tx_hashes := {h \<in> pending_tx_hashes mp. h \<notin> set committed}\<rparr>
      in fold drain_counts removed mp)"

definition drain_committed :: "cp_env \<Rightarrow> checkpoint \<Rightarrow> mempool_state \<Rightarrow> mempool_state" where
  "drain_committed e cp mp =
     (let committed = map (stx_hash e) (cp_transactions cp)
      in if can_clear_all_pending committed mp then
           \<lparr>pending_txs = [], pending_bytes = 0, pending_tx_hashes = {}, pending_sender_counts = Map.empty,
            pending_access_counts = Map.empty, pending_primary_access_counts = Map.empty,
            pending_congestion_access_counts = Map.empty\<rparr>
         else drain_selected committed mp)"

section \<open>Queries\<close>

definition pending_tx_count_for_sender :: "mp_env \<Rightarrow> mempool_state \<Rightarrow> string \<Rightarrow> u64" where
  "pending_tx_count_for_sender e mp sender = count_of (pending_sender_counts mp) (normalize_addr e sender)"

definition pending_access_keys_snapshot :: "mempool_state \<Rightarrow> string set" where
  "pending_access_keys_snapshot mp = dom (pending_access_counts mp)"

definition find_pending_transaction :: "cp_env \<Rightarrow> mempool_state \<Rightarrow> bytes \<Rightarrow> pending_record option" where
  "find_pending_transaction e mp h = find (\<lambda>r. stx_hash e (pr_signed_tx r) = h) (pending_txs mp)"

definition filter_pending_transaction_records ::
  "nat \<Rightarrow> (pending_record \<Rightarrow> bool) \<Rightarrow> mempool_state \<Rightarrow> pending_record list" where
  "filter_pending_transaction_records limit predicate mp = take limit (filter predicate (rev (pending_txs mp)))"

definition pending_signed_transactions :: "mempool_state \<Rightarrow> signed_transaction list" where
  "pending_signed_transactions mp = map pr_signed_tx (pending_txs mp)"

section \<open>Selecting transactions\<close>

definition transaction_lane_rank :: "signed_transaction \<Rightarrow> u8" where
  "transaction_lane_rank st =
     (let object_inputs = tx_object_inputs (st_transaction st)
      in if list_ex (\<lambda>input. oi_owner input = Some SharedOwner) object_inputs then 2
         else if object_inputs = [] then 0 else 1)"

definition pending_sort_key :: "cp_env \<Rightarrow> signed_transaction \<Rightarrow> u8 \<times> string \<times> string \<times> u64 \<times> bytes" where
  "pending_sort_key e st =
     (transaction_lane_rank st, primary_access_key (st_transaction st), tx_sender (st_transaction st),
      tx_nonce (st_transaction st), stx_hash e st)"

fun select_conflict_free :: "tx_env \<Rightarrow> string set \<Rightarrow> signed_transaction list \<Rightarrow> signed_transaction list" where
  "select_conflict_free e reserved [] = []"
| "select_conflict_free e reserved (st # sts) =
     (let conflict_keys = sort_dedup (get_conflict_keys e (st_transaction st))
      in if list_ex (\<lambda>k. k \<in> reserved) conflict_keys then select_conflict_free e reserved sts
         else st # select_conflict_free e (reserved \<union> set conflict_keys) sts)"

definition select_conflict_free_transactions :: "tx_env \<Rightarrow> signed_transaction list \<Rightarrow> signed_transaction list" where
  "select_conflict_free_transactions e transactions = select_conflict_free e {} transactions"

text \<open>
  Settings come from environment variables, given as a map. \<^verbatim>\<open>str::parse::<usize>\<close> takes an optional
  plus sign and at least one decimal digit.
\<close>

definition parse_usize :: "string \<Rightarrow> nat option" where
  "parse_usize s =
     (let ds = (case s of [] \<Rightarrow> [] | c # cs \<Rightarrow> if c = CHR ''+'' then cs else s)
      in if ds \<noteq> [] \<and> list_all is_ascii_digit ds \<and> digits_value ds < 2 ^ 64 then Some (digits_value ds) else None)"

definition positive_setting :: "string option \<Rightarrow> nat \<Rightarrow> nat" where
  "positive_setting setting fallback =
     (case Option.bind setting parse_usize of None \<Rightarrow> fallback | Some n \<Rightarrow> if n > 0 then n else fallback)"

definition dag_hot_object_tx_cap :: "(string \<rightharpoonup> string) \<Rightarrow> nat" where
  "dag_hot_object_tx_cap vars = positive_setting (vars ''KANARI_DAG_HOT_OBJECT_TX_CAP'') 64"

definition owned_fast_checkpoint_tx_cap :: "(string \<rightharpoonup> string) \<Rightarrow> nat" where
  "owned_fast_checkpoint_tx_cap vars = positive_setting (vars ''KANARI_OWNED_FAST_CHECKPOINT_MAX_TXS'') 65536"

definition dag_lane_aware_selection_enabled :: "(string \<rightharpoonup> string) \<Rightarrow> bool" where
  "dag_lane_aware_selection_enabled vars \<longleftrightarrow>
     vars ''KANARI_DAG_LANE_AWARE'' \<notin> {Some ''0'', Some ''false'', Some ''FALSE'', Some ''no'', Some ''NO''}"

definition is_owned_fast_path_eligible :: "signed_transaction \<Rightarrow> bool" where
  "is_owned_fast_path_eligible st \<longleftrightarrow>
     list_all (\<lambda>input. oi_owner input \<noteq> Some SharedOwner) (tx_object_inputs (st_transaction st))"

definition lane_order :: "cp_env \<Rightarrow> signed_transaction \<Rightarrow> string \<times> string \<times> u64 \<times> bytes" where
  "lane_order e st =
     (primary_access_key (st_transaction st), tx_sender (st_transaction st), tx_nonce (st_transaction st), stx_hash e st)"

definition pending_owned_fast_path_transactions_snapshot ::
  "mp_env \<Rightarrow> (string \<rightharpoonup> string) \<Rightarrow> mempool_state \<Rightarrow> signed_transaction list" where
  "pending_owned_fast_path_transactions_snapshot e vars mp =
     (let transactions = filter is_owned_fast_path_eligible (pending_signed_transactions mp)
      in if transactions = [] then []
         else take (owned_fast_checkpoint_tx_cap vars)
           (select_conflict_free_transactions (mp_tx e) (sort_key (lane_order (mp_cp e)) transactions)))"

definition MAX_DAG_VERTEX_TRANSACTIONS :: nat where
  "MAX_DAG_VERTEX_TRANSACTIONS = 512"

definition MAX_DAG_VERTEX_TRANSACTION_BYTES :: u64 where
  "MAX_DAG_VERTEX_TRANSACTION_BYTES = 350 * 1024"

text \<open>The loop that fills a vertex: the count and byte caps end it, the cap per hot object skips.\<close>

fun fill_vertex ::
  "mp_env \<Rightarrow> nat \<Rightarrow> (string \<Rightarrow> nat) \<Rightarrow> u64 \<Rightarrow> nat \<Rightarrow> signed_transaction list \<Rightarrow> signed_transaction list" where
  "fill_vertex e cap hot acc_bytes taken [] = []"
| "fill_vertex e cap hot acc_bytes taken (st # sts) =
     (if taken \<ge> MAX_DAG_VERTEX_TRANSACTIONS then []
      else let key = primary_access_key (st_transaction st)
        in if hot key \<ge> cap then fill_vertex e cap hot acc_bytes taken sts
           else case Option.bind (bcs_signed_size e (st_transaction st) (st_signature st)) (checked_add acc_bytes) of
             None \<Rightarrow> []
           | Some next_total \<Rightarrow>
               if next_total > MAX_DAG_VERTEX_TRANSACTION_BYTES then []
               else st # fill_vertex e cap (hot(key := hot key + 1)) next_total (taken + 1) sts)"

definition pending_conflict_free_transactions_snapshot ::
  "mp_env \<Rightarrow> (string \<rightharpoonup> string) \<Rightarrow> mempool_state \<Rightarrow> signed_transaction list" where
  "pending_conflict_free_transactions_snapshot e vars mp =
     (let transactions = pending_signed_transactions mp
      in if transactions = [] then []
         else let ordered = (if dag_lane_aware_selection_enabled vars
                             then sort_key (pending_sort_key (mp_cp e)) transactions
                             else sort_key (lane_order (mp_cp e)) transactions);
                  selected = select_conflict_free_transactions (mp_tx e) ordered
           in fill_vertex e (dag_hot_object_tx_cap vars) (\<lambda>_. 0) 0 0 selected)"

section \<open>Nonces\<close>

text \<open>
  The watermark that is persisted with a checkpoint: the stored map, capped, raised by the nonces of the
  checkpoint's transactions.
\<close>

definition raise_watermark :: "mp_env \<Rightarrow> signed_transaction \<Rightarrow> (string \<times> u64) list \<Rightarrow> (string \<times> u64) list" where
  "raise_watermark e st w =
     (let sender = normalize_addr e (tx_sender (st_transaction st)); nonce = tx_nonce (st_transaction st)
      in if nonce > count_of (map_of w) sender then btree_insert sender nonce w else w)"

definition updated_sender_watermark ::
  "mp_env \<Rightarrow> (string \<times> u64) list option \<Rightarrow> checkpoint \<Rightarrow> (string \<times> u64) list" where
  "updated_sender_watermark e loaded cp =
     fold (raise_watermark e) (cp_transactions cp)
       (map (\<lambda>(k, v). (k, cap_watermark v)) (case loaded of None \<Rightarrow> [] | Some w \<Rightarrow> w))"

definition get_expected_nonce :: "mp_env \<Rightarrow> store_view option \<Rightarrow> mempool_state \<Rightarrow> string \<Rightarrow> u64" where
  "get_expected_nonce e store mp address_hex =
     (let committed =
            (case store of
               None \<Rightarrow> 0
             | Some sv \<Rightarrow>
                 (case sv_nonce_watermark sv of
                    Inl _ \<Rightarrow> 0
                  | Inr loaded \<Rightarrow>
                      (let v = count_of (map_of (case loaded of None \<Rightarrow> [] | Some w \<Rightarrow> w)) (normalize_addr e address_hex)
                       in if v < MAX_WATERMARK then v else 0)))
      in saturating_add (saturating_add (pending_tx_count_for_sender e mp address_hex) committed) 1)"

end
