(* ===== verification/Mempool_Correct.thy ===== *)
theory Mempool_Correct
  imports Mempool Transaction_Correct Blockchain_Correct Type_Tag_Correct "HOL-Library.Multiset"
begin

text \<open>
  The transaction pool keeps its indexes equal to what its records say, within the limits, under
  submission, removal and the draining of committed transactions; what admission guarantees; what the
  selections guarantee; and how the nonce watermark protects against replays.
\<close>

section \<open>Counters as tallies of keys\<close>

definition tally :: "string list \<Rightarrow> counts" where
  "tally ks k = (if count_list ks k = 0 then None else Some (of_nat (count_list ks k)))"

lemma tally_cong: "(\<And>k. count_list ks k = count_list ks' k) \<Longrightarrow> tally ks = tally ks'"
  by (simp add: tally_def fun_eq_iff)

lemma tally_Nil [simp]: "tally [] = Map.empty"
  by (simp add: tally_def fun_eq_iff)

lemma count_of_tally [simp]: "count_of (tally ks) k = of_nat (count_list ks k)"
  by (simp add: count_of_def tally_def)

lemma dom_tally [simp]: "dom (tally ks) = set ks"
  by (auto simp: tally_def dom_def count_list_0_iff)

lemma bump_tally:
  assumes "map_of l = tally ks" "distinct (map fst l)"
  shows "map_of (bump k l) = tally (k # ks)" "distinct (map fst (bump k l))"
  using assms by (auto simp: bump_def map_of_map_default tally_def fun_eq_iff distinct_map_default)

lemma fold_bump_tally:
  assumes "map_of l = tally ks" "distinct (map fst l)"
  shows "map_of (fold bump ks' l) = tally (rev ks' @ ks) \<and> distinct (map fst (fold bump ks' l))"
  using assms
proof (induction ks' arbitrary: l ks)
  case (Cons k ks')
  then show ?case using bump_tally [OF Cons.prems, of k] Cons.IH [of "bump k l" "k # ks"] by simp
qed simp

lemma add_counts_lookup:
  assumes "distinct (map fst l)"
  shows "add_counts l m k =
    (case map_of l k of None \<Rightarrow> m k | Some c \<Rightarrow> Some (case m k of None \<Rightarrow> c | Some n \<Rightarrow> n + c))"
  using assms
proof (induction l arbitrary: m)
  case (Cons p l)
  obtain a c where p: "p = (a, c)" by (cases p)
  have "map_of l a = None" using Cons.prems p by (simp add: map_of_eq_None_iff)
  then show ?case using Cons p by (auto simp: add_counts_def split: option.splits)
qed (simp add: add_counts_def)

lemma add_counts_tally:
  assumes "distinct (map fst l)" "map_of l = tally ks'"
  shows "add_counts l (tally ks) = tally (ks @ ks')"
  using assms by (auto simp: fun_eq_iff add_counts_lookup tally_def split: option.splits if_splits)

lemma u64_of_nat_unat: "n < 2 ^ 64 \<Longrightarrow> unat (of_nat n :: u64) = n"
  by (simp add: unsigned_of_nat take_bit_nat_eq_self)

lemma decrement_tally:
  assumes "Suc (count_list ks k) < 2 ^ 64"
  shows "decrement_pending_count k (tally (k # ks)) = tally ks"
proof -
  let ?n = "count_list ks k"
  have u: "unat (of_nat ?n :: u64) = ?n" by (rule u64_of_nat_unat) (use assms in simp)
  have "unat (of_nat (Suc ?n) :: u64) = Suc ?n" using assms by (rule u64_of_nat_unat)
  then have "unat (saturating_sub (of_nat (Suc ?n) :: u64) 1) = unat (of_nat ?n :: u64)"
    using u unat_saturating_sub [of "of_nat (Suc ?n) :: u64" 1] by (simp del: of_nat_Suc)
  then have s: "saturating_sub (of_nat (Suc ?n) :: u64) 1 = of_nat ?n" by (simp only: word_unat_eq_iff)
  have z: "(of_nat ?n :: u64) = 0 \<longleftrightarrow> ?n = 0"
    using u by (cases "?n = 0") auto
  have "decrement_pending_count k (tally (k # ks)) =
      (if ?n = 0 then (tally (k # ks))(k := None) else (tally (k # ks))(k \<mapsto> of_nat ?n))"
  proof -
    have "tally (k # ks) k = Some (of_nat (Suc ?n))" by (simp add: tally_def)
    then show ?thesis unfolding decrement_pending_count_def by (simp only: option.case Let_def s z)
  qed
  also have "\<dots> = tally ks" by (auto simp: tally_def fun_eq_iff)
  finally show ?thesis .
qed

lemma fold_decrement_tally:
  assumes "\<And>k. count_list ds k + count_list ks k < 2 ^ 64"
  shows "fold decrement_pending_count ds (tally (ds @ ks)) = tally ks"
  using assms
proof (induction ds)
  case (Cons d ds)
  have "Suc (count_list (ds @ ks) d) < 2 ^ 64" using Cons.prems [of d] by simp
  then have "decrement_pending_count d (tally (d # ds @ ks)) = tally (ds @ ks)" by (rule decrement_tally)
  moreover have "count_list ds k + count_list ks k < 2 ^ 64" for k
    using Cons.prems [of k] by (simp split: if_splits)
  ultimately show ?case using Cons.IH by simp
qed simp

lemma count_list_concat_filter:
  "count_list (concat (map f rs)) k =
   count_list (concat (map f (filter P rs))) k + count_list (concat (map f (filter (\<lambda>r. \<not> P r) rs))) k"
  by (induction rs) auto

lemma fold_fold_concat: "fold (\<lambda>r. fold g (f r)) rs m = fold g (concat (map f rs)) m"
  by (induction rs arbitrary: m) simp_all

lemma depth_reached:
  assumes "a + b < 2 ^ 64"
  shows "saturating_add (of_nat a) (of_nat b) \<ge> (m :: u64) \<longleftrightarrow> unat m \<le> a + b"
proof -
  have "unat (of_nat a :: u64) = a" "unat (of_nat b :: u64) = b" using assms by (auto intro: u64_of_nat_unat)
  then have "unat (saturating_add (of_nat a :: u64) (of_nat b)) = a + b"
    using assms by (simp add: unat_saturating_add)
  then show ?thesis by (simp add: word_le_nat_alt)
qed

text \<open>
  An index of the pool counts, for every key, how often the records name it. The laws: a well-formed
  record names a key at most a fixed number of times, so no counter of a pool within its size wraps.
\<close>

locale pending_index =
  fixes keys :: "'r \<Rightarrow> string list" and wf :: "'r \<Rightarrow> bool" and width :: nat
  assumes keys_bound: "wf r \<Longrightarrow> count_list (keys r) k \<le> width"
    and width_bound: "width * MAX_MEMPOOL_SIZE < 2 ^ 64"
begin

lemma index_bound: "list_all wf rs \<Longrightarrow> count_list (concat (map keys rs)) k \<le> width * length rs"
proof (induction rs)
  case (Cons r rs)
  then show ?case using keys_bound [of r k] by (simp add: algebra_simps add_mono)
qed simp

lemma index_no_wrap:
  assumes "list_all wf rs" "length rs \<le> MAX_MEMPOOL_SIZE"
  shows "count_list (concat (map keys rs)) k < 2 ^ 64"
  using index_bound [OF assms(1), of k] mult_le_mono2 [OF assms(2), of width] width_bound by linarith

lemma index_depth:
  fixes m :: u64
  assumes "list_all wf (ps @ rs)" "length (ps @ rs) \<le> MAX_MEMPOOL_SIZE"
  shows "m \<le> saturating_add (of_nat (count_list (concat (map keys ps)) k)) (of_nat (count_list (concat (map keys rs)) k))
    \<longleftrightarrow> unat m \<le> count_list (concat (map keys (ps @ rs))) k"
  using index_no_wrap [OF assms, of k] by (simp add: depth_reached)

lemma index_remove:
  assumes "list_all wf rs" "length rs \<le> MAX_MEMPOOL_SIZE"
  shows "fold (\<lambda>r. fold decrement_pending_count (keys r)) (filter P rs) (tally (concat (map keys rs))) =
    tally (concat (map keys (filter (\<lambda>r. \<not> P r) rs)))"
proof -
  let ?ds = "concat (map keys (filter P rs))" and ?ks = "concat (map keys (filter (\<lambda>r. \<not> P r) rs))"
  have c: "count_list (concat (map keys rs)) k = count_list (?ds @ ?ks) k" for k
    using count_list_concat_filter [of keys rs k P] by simp
  have "fold (\<lambda>r. fold decrement_pending_count (keys r)) (filter P rs) m = fold decrement_pending_count ?ds m" for m
    by (rule fold_fold_concat)
  moreover have "count_list ?ds k + count_list ?ks k < 2 ^ 64" for k
    using index_no_wrap [OF assms, of k] c [of k] by simp
  ultimately show ?thesis using fold_decrement_tally [of ?ds ?ks] tally_cong [OF c] by simp
qed

end

text \<open>A record is well formed when its cached fields are those of its transaction, which has an admissible shape.\<close>

definition record_wf :: "mp_env \<Rightarrow> pending_record \<Rightarrow> bool" where
  "record_wf e r \<longleftrightarrow>
     (let tx = st_transaction (pr_signed_tx r)
      in pr_tx_hash r = tx_hash (mp_tx e) tx \<and> pr_normalized_sender r = normalize_addr e (tx_sender tx) \<and>
         pr_primary_access_key r = primary_access_key tx \<and> pr_congestion_access_key r = congestion_access_key tx \<and>
         pr_access_keys r = object_access_keys tx \<and> st_signature (pr_signed_tx r) \<noteq> [] \<and>
         validate_transaction_admission_shape e tx = None)"

lemma distinct_object_access_keys: "distinct (object_access_keys tx)"
  unfolding object_access_keys_def Let_def using sort_dedup_sorted strict_sorted_iff by blast

lemma record_wf_distinct: "record_wf e r \<Longrightarrow> distinct (pr_access_keys r)"
  by (simp add: record_wf_def Let_def distinct_object_access_keys)

definition sender_keys :: "pending_record \<Rightarrow> string list" where
  "sender_keys r = [pr_normalized_sender r]"

definition primary_keys :: "pending_record \<Rightarrow> string list" where
  "primary_keys r = [pr_primary_access_key r]"

definition congestion_keys :: "pending_record \<Rightarrow> string list" where
  "congestion_keys r = [pr_congestion_access_key r]"

definition lane_keys :: "pending_record \<Rightarrow> string list" where
  "lane_keys r = pr_primary_access_key r # pr_access_keys r"

lemmas index_keys = sender_keys_def primary_keys_def congestion_keys_def

interpretation by_sender: pending_index sender_keys "\<lambda>_. True" 1
  by unfold_locales (simp_all add: sender_keys_def MAX_MEMPOOL_SIZE_def)

interpretation by_primary: pending_index primary_keys "\<lambda>_. True" 1
  by unfold_locales (simp_all add: primary_keys_def MAX_MEMPOOL_SIZE_def)

interpretation by_congestion: pending_index congestion_keys "\<lambda>_. True" 1
  by unfold_locales (simp_all add: congestion_keys_def MAX_MEMPOOL_SIZE_def)

lemma count_list_distinct: "distinct xs \<Longrightarrow> count_list xs k \<le> 1"
  by (induction xs) (auto simp: count_list_0_iff)

interpretation by_access: pending_index lane_keys "record_wf e" 2 for e
proof unfold_locales
  show "record_wf e r \<Longrightarrow> count_list (lane_keys r) k \<le> 2" for r k
    using count_list_distinct [OF record_wf_distinct, of e r k] by (auto simp: lane_keys_def)
qed (simp add: MAX_MEMPOOL_SIZE_def)

section \<open>The pool as a function of its records\<close>

abbreviation index_of :: "(pending_record \<Rightarrow> string list) \<Rightarrow> pending_record list \<Rightarrow> string list" where
  "index_of keys rs \<equiv> concat (map keys rs)"

definition total_size :: "pending_record list \<Rightarrow> nat" where
  "total_size rs = sum_list (map (\<lambda>r. unat (pr_size_bytes r)) rs)"

text \<open>The abstract pool is the list of its records; every index is determined by it.\<close>

definition pool_of :: "pending_record list \<Rightarrow> mempool_state" where
  "pool_of rs = \<lparr>pending_txs = rs, pending_bytes = of_nat (total_size rs),
     pending_tx_hashes = set (map pr_tx_hash rs),
     pending_sender_counts = tally (index_of sender_keys rs),
     pending_access_counts = tally (index_of lane_keys rs),
     pending_primary_access_counts = tally (index_of primary_keys rs),
     pending_congestion_access_counts = tally (index_of congestion_keys rs)\<rparr>"

definition lanes_ok :: "pending_record list \<Rightarrow> bool" where
  "lanes_ok rs \<longleftrightarrow>
     (\<forall>k. count_list (index_of sender_keys rs) k \<le> unat MAX_PENDING_PER_SENDER \<and>
          count_list (index_of primary_keys rs) k \<le> unat MAX_PENDING_PER_PRIMARY_ACCESS_LANE \<and>
          count_list (index_of congestion_keys rs) k \<le> unat MAX_PENDING_PER_PRIMARY_ACCESS_LANE)"

definition within_limits :: "pending_record list \<Rightarrow> bool" where
  "within_limits rs \<longleftrightarrow>
     length rs \<le> MAX_MEMPOOL_SIZE \<and> total_size rs \<le> unat MAX_MEMPOOL_BYTES \<and> lanes_ok rs"

definition mempool_ok :: "mp_env \<Rightarrow> mempool_state \<Rightarrow> bool" where
  "mempool_ok e mp \<longleftrightarrow>
     mp = pool_of (pending_txs mp) \<and> within_limits (pending_txs mp) \<and>
     distinct (map pr_tx_hash (pending_txs mp)) \<and> list_all (record_wf e) (pending_txs mp)"

lemma pool_of_Nil: "pool_of [] = mempool_default"
  by (simp add: pool_of_def mempool_default_def total_size_def)

lemma mempool_ok_default: "mempool_ok e mempool_default"
  by (simp add: mempool_ok_def mempool_default_def pool_of_def within_limits_def lanes_ok_def total_size_def)

lemma total_size_filter: "total_size (filter P rs) + total_size (filter (\<lambda>r. \<not> P r) rs) = total_size rs"
  by (induction rs) (auto simp: total_size_def)

lemma within_limits_filter: "within_limits rs \<Longrightarrow> within_limits (filter P rs)"
proof -
  assume w: "within_limits rs"
  have c: "count_list (index_of f rs) k \<le> n \<Longrightarrow> count_list (index_of f (filter P rs)) k \<le> n" for f n and k :: string
    using count_list_concat_filter [of f rs k P] by linarith
  have "length (filter P rs) \<le> MAX_MEMPOOL_SIZE" "total_size (filter P rs) \<le> unat MAX_MEMPOOL_BYTES"
    using w total_size_filter [of P rs] length_filter_le [of P rs] unfolding within_limits_def by linarith+
  then show ?thesis using w unfolding within_limits_def lanes_ok_def by (intro conjI allI c) blast+
qed

lemma unat_fold_sizes:
  "unat (fold (\<lambda>r acc_bytes. saturating_add acc_bytes (pr_size_bytes r)) rs a) = min (unat a + total_size rs) (2 ^ 64 - 1)"
proof (induction rs arbitrary: a)
  case Nil
  have "unat a < 2 ^ 64" using unsigned_less [of a] by simp
  then show ?case by (simp add: total_size_def)
qed (simp add: total_size_def rust_arith)

lemma drain_counts_fold:
  "fold drain_counts rs mp =
   mp\<lparr>pending_sender_counts := remove_pending_sender_counts rs (pending_sender_counts mp),
      pending_access_counts := remove_pending_access_counts rs (pending_access_counts mp),
      pending_primary_access_counts := remove_pending_primary_access_counts rs (pending_primary_access_counts mp),
      pending_congestion_access_counts :=
        remove_pending_congestion_access_counts rs (pending_congestion_access_counts mp)\<rparr>"
  by (induction rs arbitrary: mp)
    (simp_all add: drain_counts_def remove_pending_sender_counts_def remove_pending_access_counts_def
      remove_pending_primary_access_counts_def remove_pending_congestion_access_counts_def)

lemma removed_counts:
  assumes "list_all (record_wf e) rs" "length rs \<le> MAX_MEMPOOL_SIZE"
  shows "remove_pending_sender_counts (filter P rs) (tally (index_of sender_keys rs)) =
      tally (index_of sender_keys (filter (\<lambda>r. \<not> P r) rs))"
    and "remove_pending_access_counts (filter P rs) (tally (index_of lane_keys rs)) =
      tally (index_of lane_keys (filter (\<lambda>r. \<not> P r) rs))"
    and "remove_pending_primary_access_counts (filter P rs) (tally (index_of primary_keys rs)) =
      tally (index_of primary_keys (filter (\<lambda>r. \<not> P r) rs))"
    and "remove_pending_congestion_access_counts (filter P rs) (tally (index_of congestion_keys rs)) =
      tally (index_of congestion_keys (filter (\<lambda>r. \<not> P r) rs))"
proof -
  have T: "list_all (\<lambda>_. True) rs" by (simp add: list_all_iff)
  show "remove_pending_sender_counts (filter P rs) (tally (index_of sender_keys rs)) =
      tally (index_of sender_keys (filter (\<lambda>r. \<not> P r) rs))"
    using by_sender.index_remove [OF T assms(2), of P] by (simp add: remove_pending_sender_counts_def sender_keys_def)
  show "remove_pending_primary_access_counts (filter P rs) (tally (index_of primary_keys rs)) =
      tally (index_of primary_keys (filter (\<lambda>r. \<not> P r) rs))"
    using by_primary.index_remove [OF T assms(2), of P]
    by (simp add: remove_pending_primary_access_counts_def primary_keys_def)
  show "remove_pending_congestion_access_counts (filter P rs) (tally (index_of congestion_keys rs)) =
      tally (index_of congestion_keys (filter (\<lambda>r. \<not> P r) rs))"
    using by_congestion.index_remove [OF T assms(2), of P]
    by (simp add: remove_pending_congestion_access_counts_def congestion_keys_def)
  show "remove_pending_access_counts (filter P rs) (tally (index_of lane_keys rs)) =
      tally (index_of lane_keys (filter (\<lambda>r. \<not> P r) rs))"
    using by_access.index_remove [OF assms, of P] by (simp add: remove_pending_access_counts_def lane_keys_def comp_def)
qed

lemma drain_selected_pool:
  assumes "within_limits rs" "list_all (record_wf e) rs"
  shows "drain_selected hs (pool_of rs) = pool_of (filter (\<lambda>r. pr_tx_hash r \<notin> set hs) rs)"
proof -
  let ?P = "\<lambda>r. pr_tx_hash r \<in> set hs"
  let ?b = "fold (\<lambda>r acc_bytes. saturating_add acc_bytes (pr_size_bytes r)) (filter ?P rs) 0"
  have len: "length rs \<le> MAX_MEMPOOL_SIZE" and tot: "total_size rs < 2 ^ 64"
    using assms(1) by (auto simp: within_limits_def MAX_MEMPOOL_BYTES_def)
  have fl: "total_size (filter ?P rs) + total_size (filter (\<lambda>r. \<not> ?P r) rs) = total_size rs" by (rule total_size_filter)
  have "unat ?b = total_size (filter ?P rs)" using unat_fold_sizes [of "filter ?P rs" 0] fl tot by simp
  then have "unat (saturating_sub (of_nat (total_size rs)) ?b) = total_size (filter (\<lambda>r. \<not> ?P r) rs)"
    using fl u64_of_nat_unat [OF tot] by (simp add: unat_saturating_sub)
  then have "saturating_sub (of_nat (total_size rs)) ?b = of_nat (total_size (filter (\<lambda>r. \<not> ?P r) rs))"
    by (metis of_nat_unat ucast_id)
  moreover have "{h \<in> set (map pr_tx_hash rs). h \<notin> set hs} = set (map pr_tx_hash (filter (\<lambda>r. \<not> ?P r) rs))" by auto
  ultimately show ?thesis
    using removed_counts [OF assms(2) len, of ?P]
    by (simp only: drain_selected_def Let_def drain_counts_fold pool_of_def mempool_state.simps
        mempool_state.update_convs)
qed

lemma drain_selected_ok:
  assumes "mempool_ok e mp"
  shows "drain_selected hs mp = pool_of (filter (\<lambda>r. pr_tx_hash r \<notin> set hs) (pending_txs mp))"
  using assms drain_selected_pool [of "pending_txs mp" e hs] by (simp add: mempool_ok_def)

lemma filter_mempool_ok:
  assumes "mempool_ok e mp"
  shows "mempool_ok e (pool_of (filter P (pending_txs mp)))"
  using assms within_limits_filter [of "pending_txs mp" P]
  by (auto simp: mempool_ok_def pool_of_def distinct_map_filter list_all_iff)

lemma remove_pending_pool:
  assumes "mempool_ok e mp"
  shows "remove_pending_transactions_by_hashes hs mp dropped =
    (filter (\<lambda>r. pr_tx_hash r \<in> set hs) (pending_txs mp),
     pool_of (filter (\<lambda>r. pr_tx_hash r \<notin> set hs) (pending_txs mp)),
     dropped + of_nat (length (filter (\<lambda>r. pr_tx_hash r \<in> set hs) (pending_txs mp))))"
proof (cases "hs = [] \<or> filter (\<lambda>r. pr_tx_hash r \<in> set hs) (pending_txs mp) = []")
  case True
  then have none: "filter (\<lambda>r. pr_tx_hash r \<in> set hs) (pending_txs mp) = []" by auto
  then have all: "filter (\<lambda>r. pr_tx_hash r \<notin> set hs) (pending_txs mp) = pending_txs mp"
    by (auto simp: filter_empty_conv intro: filter_True)
  have "pool_of (pending_txs mp) = mp" using assms by (simp add: mempool_ok_def)
  then show ?thesis using True none all by (simp add: remove_pending_transactions_by_hashes_def)
next
  case False
  have "remove_pending_transactions_by_hashes hs mp dropped =
    (filter (\<lambda>r. pr_tx_hash r \<in> set hs) (pending_txs mp), drain_selected hs mp,
     dropped + of_nat (length (filter (\<lambda>r. pr_tx_hash r \<in> set hs) (pending_txs mp))))"
    using False by (simp add: remove_pending_transactions_by_hashes_def drain_selected_def drain_counts_fold Let_def)
  then show ?thesis using drain_selected_ok [OF assms] by simp
qed

lemma can_clear_iff: "can_clear_all_pending hs mp \<longleftrightarrow> map pr_tx_hash (pending_txs mp) = hs"
proof -
  have "(length rs = length hs \<and> list_all (\<lambda>(r, h). pr_tx_hash r = h) (zip rs hs)) \<longleftrightarrow> map pr_tx_hash rs = hs" for rs
  proof (induction rs arbitrary: hs)
    case (Cons r rs)
    show ?case
    proof (cases hs)
      case (Cons h hs')
      then show ?thesis using Cons.IH [of hs'] by auto
    qed simp
  qed auto
  then show ?thesis by (simp add: can_clear_all_pending_def)
qed

lemma drain_committed_pool:
  assumes "mempool_ok e mp"
  shows "drain_committed c cp mp =
    pool_of (filter (\<lambda>r. pr_tx_hash r \<notin> stx_hash c ` set (cp_transactions cp)) (pending_txs mp))"
proof (cases "can_clear_all_pending (map (stx_hash c) (cp_transactions cp)) mp")
  case True
  then have "set (map pr_tx_hash (pending_txs mp)) = stx_hash c ` set (cp_transactions cp)"
    unfolding can_clear_iff by (metis set_map)
  then have "filter (\<lambda>r. pr_tx_hash r \<notin> stx_hash c ` set (cp_transactions cp)) (pending_txs mp) = []"
    by (auto simp: filter_empty_conv)
  then show ?thesis
    using True pool_of_Nil by (simp add: drain_committed_def Let_def mempool_default_def)
next
  case False
  then show ?thesis using drain_selected_ok [OF assms] by (simp add: drain_committed_def Let_def)
qed

section \<open>Admission\<close>

definition acc_ok :: "pending_record list \<Rightarrow> batch_acc \<Rightarrow> bool" where
  "acc_ok rs acc \<longleftrightarrow>
     ba_hashes acc = map pr_tx_hash rs \<and>
     map_of (ba_sender acc) = tally (index_of sender_keys rs) \<and> distinct (map fst (ba_sender acc)) \<and>
     map_of (ba_primary acc) = tally (index_of primary_keys rs) \<and> distinct (map fst (ba_primary acc)) \<and>
     map_of (ba_congestion acc) = tally (index_of congestion_keys rs) \<and> distinct (map fst (ba_congestion acc)) \<and>
     map_of (ba_access acc) = tally (index_of lane_keys rs) \<and> distinct (map fst (ba_access acc))"

definition fresh_nonce :: "(string \<rightharpoonup> u64) \<Rightarrow> pending_record \<Rightarrow> bool" where
  "fresh_nonce watermark r \<longleftrightarrow> (case watermark (pr_normalized_sender r) of None \<Rightarrow> True | Some w \<Rightarrow> w < pr_nonce r)"

definition next_acc :: "pending_record \<Rightarrow> batch_acc \<Rightarrow> batch_acc" where
  "next_acc r acc = \<lparr>ba_hashes = ba_hashes acc @ [pr_tx_hash r],
     ba_sender = bump (pr_normalized_sender r) (ba_sender acc),
     ba_primary = bump (pr_primary_access_key r) (ba_primary acc),
     ba_congestion = bump (pr_congestion_access_key r) (ba_congestion acc),
     ba_access = fold bump (pr_access_keys r) (bump (pr_primary_access_key r) (ba_access acc))\<rparr>"

lemma acc_ok_empty: "acc_ok [] batch_acc_empty"
  by (simp add: acc_ok_def batch_acc_empty_def)

lemma bump_tally_append:
  assumes "map_of l = tally ks" "distinct (map fst l)"
  shows "map_of (bump k l) = tally (ks @ [k]) \<and> distinct (map fst (bump k l))"
  using bump_tally [OF assms, of k] tally_cong [of "k # ks" "ks @ [k]"] by simp

lemma acc_ok_next:
  assumes "acc_ok rs acc"
  shows "acc_ok (rs @ [r]) (next_acc r acc)"
proof -
  have b: "map_of (bump (pr_primary_access_key r) (ba_access acc)) = tally (index_of lane_keys rs @ [pr_primary_access_key r])"
      "distinct (map fst (bump (pr_primary_access_key r) (ba_access acc)))"
    using assms bump_tally_append [of "ba_access acc"] unfolding acc_ok_def by blast+
  have "tally (rev (pr_access_keys r) @ index_of lane_keys rs @ [pr_primary_access_key r]) =
      tally (index_of lane_keys (rs @ [r]))"
    by (rule tally_cong) (simp add: lane_keys_def)
  then show ?thesis
    using assms fold_bump_tally [OF b, of "pr_access_keys r"] bump_tally_append
    unfolding acc_ok_def next_acc_def by (simp add: index_keys)
qed

lemma count_index_single:
  "count_list (index_of sender_keys (rs @ [r])) k =
     count_list (index_of sender_keys rs) k + (if k = pr_normalized_sender r then 1 else 0)"
  "count_list (index_of primary_keys (rs @ [r])) k =
     count_list (index_of primary_keys rs) k + (if k = pr_primary_access_key r then 1 else 0)"
  "count_list (index_of congestion_keys (rs @ [r])) k =
     count_list (index_of congestion_keys rs) k + (if k = pr_congestion_access_key r then 1 else 0)"
  by (simp_all add: index_keys)

lemma lanes_ok_snoc:
  assumes "lanes_ok rs"
  shows "lanes_ok (rs @ [r]) \<longleftrightarrow>
    count_list (index_of sender_keys rs) (pr_normalized_sender r) < unat MAX_PENDING_PER_SENDER \<and>
    count_list (index_of primary_keys rs) (pr_primary_access_key r) < unat MAX_PENDING_PER_PRIMARY_ACCESS_LANE \<and>
    count_list (index_of congestion_keys rs) (pr_congestion_access_key r) < unat MAX_PENDING_PER_PRIMARY_ACCESS_LANE"
    (is "?L \<longleftrightarrow> ?R")
proof
  assume ?L
  note l = this [unfolded lanes_ok_def count_index_single, rule_format]
  show ?R
    using l [of "pr_normalized_sender r"] l [of "pr_primary_access_key r"] l [of "pr_congestion_access_key r"]
    by simp
next
  assume r: ?R
  show ?L unfolding lanes_ok_def count_index_single
    using r assms [unfolded lanes_ok_def, rule_format] by (intro allI conjI) (simp_all add: Suc_le_eq)
qed

lemma admit_one_iff:
  assumes "acc_ok rs acc" "length (ps @ rs) \<le> MAX_MEMPOOL_SIZE" "lanes_ok (ps @ rs)"
  shows "admit_one (pool_of ps) executed watermark r acc = Inr acc' \<longleftrightarrow>
    pr_tx_hash r \<notin> pr_tx_hash ` set (ps @ rs) \<and> pr_tx_hash r \<notin> executed \<and> fresh_nonce watermark r \<and>
    lanes_ok (ps @ rs @ [r]) \<and> acc' = next_acc r acc"
proof -
  have sel: "count_of (pending_sender_counts (pool_of ps)) = (\<lambda>k. of_nat (count_list (index_of sender_keys ps) k))"
    "count_of (pending_primary_access_counts (pool_of ps)) = (\<lambda>k. of_nat (count_list (index_of primary_keys ps) k))"
    "count_of (pending_congestion_access_counts (pool_of ps)) = (\<lambda>k. of_nat (count_list (index_of congestion_keys ps) k))"
    "pending_tx_hashes (pool_of ps) = pr_tx_hash ` set ps"
    by (simp_all add: pool_of_def fun_eq_iff)
  have acc: "count_of (map_of (ba_sender acc)) = (\<lambda>k. of_nat (count_list (index_of sender_keys rs) k))"
    "count_of (map_of (ba_primary acc)) = (\<lambda>k. of_nat (count_list (index_of primary_keys rs) k))"
    "count_of (map_of (ba_congestion acc)) = (\<lambda>k. of_nat (count_list (index_of congestion_keys rs) k))"
    "set (ba_hashes acc) = pr_tx_hash ` set rs"
    using assms(1) unfolding acc_ok_def by (auto intro!: ext)
  have fresh: "(case watermark (pr_normalized_sender r) of None \<Rightarrow> False | Some w \<Rightarrow> pr_nonce r \<le> w) \<longleftrightarrow> \<not> fresh_nonce watermark r"
    by (auto simp: fresh_nonce_def split: option.splits)
  have lanes: "lanes_ok (ps @ rs @ [r]) \<longleftrightarrow>
      \<not> unat MAX_PENDING_PER_SENDER \<le> count_list (index_of sender_keys (ps @ rs)) (pr_normalized_sender r) \<and>
      \<not> unat MAX_PENDING_PER_PRIMARY_ACCESS_LANE \<le> count_list (index_of primary_keys (ps @ rs)) (pr_primary_access_key r) \<and>
      \<not> unat MAX_PENDING_PER_PRIMARY_ACCESS_LANE \<le> count_list (index_of congestion_keys (ps @ rs)) (pr_congestion_access_key r)"
    using lanes_ok_snoc [OF assms(3), of r] by (simp add: not_le)
  have T: "list_all (\<lambda>_. True) (ps @ rs)" by (simp add: list_all_iff)
  show ?thesis
    unfolding admit_one_def Let_def sel acc fresh by_sender.index_depth [OF T assms(2)]
      by_primary.index_depth [OF T assms(2)] by_congestion.index_depth [OF T assms(2)] lanes next_acc_def by auto
qed

lemma lanes_ok_prefix: "lanes_ok (xs @ ys) \<Longrightarrow> lanes_ok xs"
  unfolding lanes_ok_def by (metis add_leD1 concat_append count_list_append map_append)

lemma admit_all_iff:
  assumes "acc_ok rs acc" "length (ps @ rs @ new) \<le> MAX_MEMPOOL_SIZE" "lanes_ok (ps @ rs)"
    and "distinct (map pr_tx_hash (ps @ rs))"
  shows "admit_all (pool_of ps) executed watermark new acc = Inr acc' \<longleftrightarrow>
    distinct (map pr_tx_hash (ps @ rs @ new)) \<and> pr_tx_hash ` set new \<inter> executed = {} \<and>
    list_all (fresh_nonce watermark) new \<and> lanes_ok (ps @ rs @ new) \<and> acc' = fold next_acc new acc"
  using assms
proof (induction new arbitrary: rs acc)
  case (Cons r new)
  have one: "admit_one (pool_of ps) executed watermark r acc = Inr acc1 \<longleftrightarrow>
    pr_tx_hash r \<notin> pr_tx_hash ` set (ps @ rs) \<and> pr_tx_hash r \<notin> executed \<and> fresh_nonce watermark r \<and>
    lanes_ok (ps @ rs @ [r]) \<and> acc1 = next_acc r acc" for acc1
    by (rule admit_one_iff) (use Cons.prems in simp_all)
  show ?case
  proof (cases "admit_one (pool_of ps) executed watermark r acc")
    case (Inl err)
    have "lanes_ok (ps @ rs @ r # new) \<Longrightarrow> lanes_ok (ps @ rs @ [r])"
      using lanes_ok_prefix [of "ps @ rs @ [r]" new] by simp
    moreover have "distinct (map pr_tx_hash (ps @ rs @ r # new)) \<Longrightarrow> pr_tx_hash r \<notin> pr_tx_hash ` set (ps @ rs)" by auto
    moreover have "\<not> (pr_tx_hash r \<notin> pr_tx_hash ` set (ps @ rs) \<and> pr_tx_hash r \<notin> executed \<and> fresh_nonce watermark r \<and>
        lanes_ok (ps @ rs @ [r]))" using Inl one [of "next_acc r acc"] by simp
    ultimately have "\<not> (distinct (map pr_tx_hash (ps @ rs @ r # new)) \<and> pr_tx_hash ` set (r # new) \<inter> executed = {} \<and>
        list_all (fresh_nonce watermark) (r # new) \<and> lanes_ok (ps @ rs @ r # new))" by fastforce
    then show ?thesis using Inl by fastforce
  next
    case (Inr acc1)
    then have c: "pr_tx_hash r \<notin> pr_tx_hash ` set (ps @ rs)" "pr_tx_hash r \<notin> executed" "fresh_nonce watermark r"
      "lanes_ok (ps @ (rs @ [r]))" "acc1 = next_acc r acc" using one [of acc1] by simp_all
    have "admit_all (pool_of ps) executed watermark new acc1 = Inr acc' \<longleftrightarrow>
      distinct (map pr_tx_hash (ps @ (rs @ [r]) @ new)) \<and> pr_tx_hash ` set new \<inter> executed = {} \<and>
      list_all (fresh_nonce watermark) new \<and> lanes_ok (ps @ (rs @ [r]) @ new) \<and> acc' = fold next_acc new acc1"
      by (rule Cons.IH) (use Cons.prems(2,4) c(1,4) in \<open>simp_all add: c(5) image_Un acc_ok_next [OF Cons.prems(1)]\<close>)
    moreover have "admit_all (pool_of ps) executed watermark (r # new) acc = admit_all (pool_of ps) executed watermark new acc1"
      using Inr by simp
    ultimately show ?thesis using c(2,3,5) by simp
  qed
qed (use assms in auto)

lemma acc_ok_fold: "acc_ok rs acc \<Longrightarrow> acc_ok (rs @ new) (fold next_acc new acc)"
  by (induction new arbitrary: rs acc) (use acc_ok_next in fastforce)+

lemma commit_batch_pool:
  assumes "acc_ok new acc" "unat batch_bytes = total_size new" "total_size ps + total_size new < 2 ^ 64"
  shows "commit_batch new batch_bytes acc (pool_of ps) = pool_of (ps @ new)"
proof -
  have "unat (of_nat (total_size ps) :: u64) = total_size ps" using assms(3) by (intro u64_of_nat_unat) simp
  then have "unat (saturating_add (of_nat (total_size ps)) batch_bytes) = total_size (ps @ new)"
    using assms(2,3) by (simp add: unat_saturating_add total_size_def)
  then have b: "saturating_add (of_nat (total_size ps)) batch_bytes = of_nat (total_size (ps @ new))"
    by (metis of_nat_unat ucast_id)
  have c: "add_counts (ba_sender acc) (tally (index_of sender_keys ps)) = tally (index_of sender_keys (ps @ new))"
    "add_counts (ba_primary acc) (tally (index_of primary_keys ps)) = tally (index_of primary_keys (ps @ new))"
    "add_counts (ba_congestion acc) (tally (index_of congestion_keys ps)) = tally (index_of congestion_keys (ps @ new))"
    "add_counts (ba_access acc) (tally (index_of lane_keys ps)) = tally (index_of lane_keys (ps @ new))"
    using assms(1) add_counts_tally by (simp_all add: acc_ok_def)
  have "set (ba_hashes acc) = pr_tx_hash ` set new" using assms(1) by (simp add: acc_ok_def)
  then show ?thesis using b c by (simp add: commit_batch_def pool_of_def image_Un)
qed

lemma sum_sizes_iff:
  "sum_sizes a ss = Inr t \<longleftrightarrow>
   unat a + sum_list (map unat ss) < 2 ^ 64 \<and> unat t = unat a + sum_list (map unat ss)"
proof (induction ss arbitrary: a)
  case Nil
  show ?case using unsigned_less [of a] by (auto simp: word_unat_eq_iff)
next
  case (Cons s ss)
  show ?case
  proof (cases "checked_add a s")
    case None
    then have "2 ^ 64 \<le> unat a + unat s" by (simp add: checked_add_None)
    with None show ?thesis by simp
  next
    case (Some b)
    then show ?thesis using Cons.IH [of b] unat_checked_add [OF Some] by (simp add: add.assoc)
  qed
qed

lemma executed_in_batch_iff:
  "(\<exists>executed. executed_in_batch bc store rs = Inr executed \<and> pr_tx_hash ` set rs \<inter> executed = {}) \<longleftrightarrow>
   (\<forall>r\<in>set rs. try_is_transaction_committed bc store (pr_tx_hash r) = Inr False)" (is "?L \<longleftrightarrow> ?R")
proof -
  let ?f = "\<lambda>r. map_sum (\<lambda>_. IndexLoad) (\<lambda>b. (pr_tx_hash r, b)) (try_is_transaction_committed bc store (pr_tx_hash r))"
  show ?thesis
  proof
    assume ?L
    then obtain ys where ys: "map ?f rs = map Inr ys" and dis: "pr_tx_hash ` set rs \<inter> fst ` {a \<in> set ys. snd a} = {}"
      by (auto simp: executed_in_batch_def try_collect_Inr_iff split: sum.splits)
    show ?R
    proof
      fix r assume r: "r \<in> set rs"
      have "?f r \<in> Inr ` set ys" using r ys by (metis (no_types, lifting) image_eqI list.set_map)
      then obtain b where b: "try_is_transaction_committed bc store (pr_tx_hash r) = Inr b" "(pr_tx_hash r, b) \<in> set ys"
        by (cases "try_is_transaction_committed bc store (pr_tx_hash r)") auto
      have "\<not> b" using dis r b(2) by force
      then show "try_is_transaction_committed bc store (pr_tx_hash r) = Inr False" using b(1) by simp
    qed
  next
    assume R: ?R
    then have "map ?f rs = map Inr (map (\<lambda>r. (pr_tx_hash r, False)) rs)" by simp
    then have "try_collect (map ?f rs) = Inr (map (\<lambda>r. (pr_tx_hash r, False)) rs)" by (simp add: try_collect_Inr_iff)
    then show ?L by (auto simp: executed_in_batch_def)
  qed
qed

lemma verified_record_wf:
  assumes "verify_for_pool e md st = Inr r"
  shows "record_wf e r"
proof -
  have v: "into_verified (mp_tx e) st = Inr v \<Longrightarrow> vst_tx_hash v = tx_hash (mp_tx e) (st_transaction (vst_signed v)) \<and>
      st_signature (vst_signed v) \<noteq> []" for v
    by (auto simp: into_verified_def verified_transaction_hash_def Let_def split: if_splits sum.splits)
  then show ?thesis
    using assms by (auto simp: verify_for_pool_def record_wf_def Let_def split: sum.splits option.splits)
qed

lemma verified_size:
  assumes "verify_for_pool e md st = Inr r"
  shows "pending_record_size e (pr_signed_tx r) md = Inr (pr_size_bytes r)"
  using assms by (auto simp: verify_for_pool_def Let_def split: sum.splits option.splits)

lemma total_size_sort: "total_size (sort_key f rs) = total_size rs"
  unfolding total_size_def by (simp flip: sum_mset_sum_list)

lemma submit_steps:
  assumes "txs \<noteq> []"
  shows "submit_transactions_batch_internal e bc store txs md mp = Inr (hs, mp') \<longleftrightarrow>
    (\<exists>verified batch_bytes executed watermark acc.
       length (pending_txs mp) + length txs \<le> MAX_MEMPOOL_SIZE \<and>
       map (verify_for_pool e md) txs = map Inr verified \<and>
       sum_sizes 0 (map pr_size_bytes verified) = Inr batch_bytes \<and>
       executed_in_batch bc store (sort_key batch_order verified) = Inr executed \<and>
       saturating_add (pending_bytes mp) batch_bytes \<le> MAX_MEMPOOL_BYTES \<and>
       sender_watermark store = Inr watermark \<and>
       admit_all mp executed (map_of watermark) (sort_key batch_order verified) batch_acc_empty = Inr acc \<and>
       hs = ba_hashes acc \<and> mp' = commit_batch (sort_key batch_order verified) batch_bytes acc mp)"
  unfolding submit_transactions_batch_internal_def Let_def try_collect_Inr_iff [symmetric]
  using assms by (auto split: sum.splits if_splits)

definition batch_admissible ::
  "blockchain \<Rightarrow> store_view option \<Rightarrow> (string \<rightharpoonup> u64) \<Rightarrow> pending_record list \<Rightarrow> pending_record list \<Rightarrow> bool" where
  "batch_admissible bc store watermark ps rs \<longleftrightarrow>
     list_all (fresh_nonce watermark) rs \<and>
     (\<forall>r\<in>set rs. try_is_transaction_committed bc store (pr_tx_hash r) = Inr False) \<and>
     distinct (map pr_tx_hash (ps @ rs)) \<and> within_limits (ps @ rs)"

lemma admit_admissible:
  assumes ok: "mempool_ok e mp"
  shows "(\<exists>executed acc. length (pending_txs mp) + length rs \<le> MAX_MEMPOOL_SIZE \<and> total_size (pending_txs mp @ rs) \<le> unat MAX_MEMPOOL_BYTES \<and>
       executed_in_batch bc store rs = Inr executed \<and>
       admit_all mp executed watermark rs batch_acc_empty = Inr acc \<and> P acc) \<longleftrightarrow>
    batch_admissible bc store watermark (pending_txs mp) rs \<and> P (fold next_acc rs batch_acc_empty)"
    (is "?L \<longleftrightarrow> ?R")
proof -
  let ?ps = "pending_txs mp"
  have mp: "mp = pool_of ?ps" and lanes: "lanes_ok ?ps" and dis: "distinct (map pr_tx_hash ?ps)"
    using ok by (simp_all add: mempool_ok_def within_limits_def)
  have iff: "admit_all mp executed watermark rs batch_acc_empty = Inr acc \<longleftrightarrow>
      distinct (map pr_tx_hash (?ps @ rs)) \<and> pr_tx_hash ` set rs \<inter> executed = {} \<and>
      list_all (fresh_nonce watermark) rs \<and> lanes_ok (?ps @ rs) \<and> acc = fold next_acc rs batch_acc_empty"
    if "length ?ps + length rs \<le> MAX_MEMPOOL_SIZE" for executed acc
    using admit_all_iff [OF acc_ok_empty, of ?ps rs executed watermark acc] that lanes dis mp by simp
  show ?thesis
  proof (cases "length ?ps + length rs \<le> MAX_MEMPOOL_SIZE")
    case True
    then show ?thesis
      unfolding iff [OF True] batch_admissible_def within_limits_def executed_in_batch_iff [symmetric]
      by auto
  next
    case False
    then show ?thesis by (simp add: batch_admissible_def within_limits_def)
  qed
qed

text \<open>
  Admission, exactly: a batch is taken when every transaction verifies, none is pending, repeated in the
  batch or committed, no nonce is stale, and the pool with the batch is within the limits; then the new
  pool is the one of the records with the batch, in its order, at the end.
\<close>

lemma submit_iff:
  assumes ok: "mempool_ok e mp" and "txs \<noteq> []"
  shows "submit_transactions_batch_internal e bc store txs md mp = Inr (hs, mp') \<longleftrightarrow>
    (\<exists>verified watermark.
       map (verify_for_pool e md) txs = map Inr verified \<and> sender_watermark store = Inr watermark \<and>
       batch_admissible bc store (map_of watermark) (pending_txs mp) (sort_key batch_order verified) \<and>
       hs = map pr_tx_hash (sort_key batch_order verified) \<and>
       mp' = pool_of (pending_txs mp @ sort_key batch_order verified))"
proof -
  let ?ps = "pending_txs mp"
  have mp: "mp = pool_of ?ps" and tot: "total_size ?ps \<le> unat MAX_MEMPOOL_BYTES"
    using ok by (simp_all add: mempool_ok_def within_limits_def)
  have maxb: "unat MAX_MEMPOOL_BYTES = 268435456" by (simp add: MAX_MEMPOOL_BYTES_def)
  have pb: "unat (pending_bytes mp) = total_size ?ps"
    using u64_of_nat_unat [of "total_size ?ps"] tot maxb by (subst mp) (simp add: pool_of_def)
  have bytes: "(\<exists>b. sum_sizes 0 (map pr_size_bytes vs) = Inr b \<and> saturating_add (pending_bytes mp) b \<le> MAX_MEMPOOL_BYTES \<and> Q b) \<longleftrightarrow>
      total_size (?ps @ sort_key batch_order vs) \<le> unat MAX_MEMPOOL_BYTES \<and> Q (of_nat (total_size (sort_key batch_order vs)))" for vs Q
  proof -
    have s: "sum_sizes 0 (map pr_size_bytes vs) = Inr b \<longleftrightarrow> total_size vs < 2 ^ 64 \<and> unat b = total_size vs" for b
      by (simp add: sum_sizes_iff total_size_def comp_def)
    have le: "saturating_add (pending_bytes mp) b \<le> MAX_MEMPOOL_BYTES \<longleftrightarrow> total_size ?ps + unat b \<le> unat MAX_MEMPOOL_BYTES" for b
      using pb maxb by (auto simp: word_le_nat_alt unat_saturating_add)
    have app: "total_size (?ps @ sort_key batch_order vs) = total_size ?ps + total_size vs"
      using total_size_sort [of batch_order vs] by (simp add: total_size_def)
    show ?thesis
    proof (cases "total_size vs < 2 ^ 64")
      case True
      note u = u64_of_nat_unat [OF True]
      then have "unat b = total_size vs \<Longrightarrow> b = of_nat (total_size vs)" for b :: u64 by (metis word_unat_eq_iff)
      then show ?thesis unfolding s le app total_size_sort using True u by metis
    next
      case False
      then show ?thesis using maxb by (simp add: s app)
    qed
  qed
  have commit: "commit_batch rs (of_nat (total_size rs)) (fold next_acc rs batch_acc_empty) mp = pool_of (?ps @ rs)"
    if "batch_admissible bc store w ?ps rs" for rs w
  proof -
    have t: "total_size ?ps + total_size rs < 2 ^ 64"
      using that maxb by (simp add: batch_admissible_def within_limits_def total_size_def)
    then have "unat (of_nat (total_size rs) :: u64) = total_size rs" by (intro u64_of_nat_unat) simp
    then show ?thesis
      using commit_batch_pool [of rs "fold next_acc rs batch_acc_empty" "of_nat (total_size rs)" ?ps]
        acc_ok_fold [OF acc_ok_empty, of rs] t mp by simp
  qed
  have hashes: "ba_hashes (fold next_acc rs batch_acc_empty) = map pr_tx_hash rs" for rs
    using acc_ok_fold [OF acc_ok_empty, of rs] by (simp add: acc_ok_def)
  show ?thesis (is "?L \<longleftrightarrow> ?R")
  proof -
    have len: "map (verify_for_pool e md) txs = map Inr vs \<Longrightarrow> length (sort_key batch_order vs) = length txs" for vs
      by (metis length_map length_sort)
    have "?L \<longleftrightarrow> (\<exists>vs watermark. map (verify_for_pool e md) txs = map Inr vs \<and> sender_watermark store = Inr watermark \<and>
       (\<exists>executed acc. length ?ps + length (sort_key batch_order vs) \<le> MAX_MEMPOOL_SIZE \<and>
         total_size (?ps @ sort_key batch_order vs) \<le> unat MAX_MEMPOOL_BYTES \<and>
         executed_in_batch bc store (sort_key batch_order vs) = Inr executed \<and>
         admit_all mp executed (map_of watermark) (sort_key batch_order vs) batch_acc_empty = Inr acc \<and>
         hs = ba_hashes acc \<and>
         mp' = commit_batch (sort_key batch_order vs) (of_nat (total_size (sort_key batch_order vs))) acc mp))"
    proof -
      have "?L \<longleftrightarrow> (\<exists>vs executed watermark acc. length ?ps + length txs \<le> MAX_MEMPOOL_SIZE \<and>
         map (verify_for_pool e md) txs = map Inr vs \<and>
         executed_in_batch bc store (sort_key batch_order vs) = Inr executed \<and> sender_watermark store = Inr watermark \<and>
         admit_all mp executed (map_of watermark) (sort_key batch_order vs) batch_acc_empty = Inr acc \<and> hs = ba_hashes acc \<and>
         (\<exists>b. sum_sizes 0 (map pr_size_bytes vs) = Inr b \<and> saturating_add (pending_bytes mp) b \<le> MAX_MEMPOOL_BYTES \<and>
              mp' = commit_batch (sort_key batch_order vs) b acc mp))"
        unfolding submit_steps [OF assms(2)] by blast
      then show ?thesis unfolding bytes using len by metis
    qed
    also have "\<dots> \<longleftrightarrow> ?R"
      unfolding admit_admissible [OF ok] using commit hashes by auto
    finally show ?thesis .
  qed
qed

section \<open>Reachable pools\<close>

inductive mempool_reach :: "mp_env \<Rightarrow> mempool_state \<Rightarrow> bool" for e where
  start: "mempool_reach e mempool_default"
| submit: "mempool_reach e mp \<Longrightarrow> submit_transactions_batch_internal e bc store txs md mp = Inr (hs, mp') \<Longrightarrow>
    mempool_reach e mp'"
| remove: "mempool_reach e mp \<Longrightarrow> remove_pending_transactions_by_hashes hs mp dropped = (removed, mp', dropped') \<Longrightarrow>
    mempool_reach e mp'"
| drain: "mempool_reach e mp \<Longrightarrow> mempool_reach e (drain_committed (mp_cp e) cp mp)"

lemma submit_ok:
  assumes "mempool_ok e mp" "submit_transactions_batch_internal e bc store txs md mp = Inr (hs, mp')"
  shows "mempool_ok e mp'"
proof (cases "txs = []")
  case True
  then show ?thesis using assms by (simp add: submit_transactions_batch_internal_def)
next
  case False
  then obtain vs w where v: "map (verify_for_pool e md) txs = map Inr vs"
    and a: "batch_admissible bc store (map_of w) (pending_txs mp) (sort_key batch_order vs)"
    and mp': "mp' = pool_of (pending_txs mp @ sort_key batch_order vs)"
    using submit_iff [OF assms(1) False] assms(2) by blast
  have "record_wf e r" if "r \<in> set vs" for r
  proof -
    have "Inr r \<in> verify_for_pool e md ` set txs" using that v by (metis imageI list.set_map)
    then show ?thesis using verified_record_wf by (metis imageE)
  qed
  then have "list_all (record_wf e) (pending_txs mp @ sort_key batch_order vs)"
    using assms(1) by (auto simp: mempool_ok_def list_all_iff)
  then show ?thesis using a mp' by (simp add: mempool_ok_def batch_admissible_def pool_of_def)
qed

lemma reach_ok: "mempool_reach e mp \<Longrightarrow> mempool_ok e mp"
proof (induction rule: mempool_reach.induct)
  case (remove mp hs dropped removed mp' dropped')
  then show ?case using remove_pending_pool [OF remove.IH, of hs dropped] filter_mempool_ok by auto
next
  case (drain mp cp)
  then show ?case using drain_committed_pool [OF drain.IH] filter_mempool_ok by simp
qed (use mempool_ok_default submit_ok in blast)+

lemma shape_bounds:
  assumes "validate_transaction_admission_shape e tx = None"
  shows "0 < tx_gas_limit tx" "tx_gas_limit tx \<le> 10000000" "tx_nonce tx < 2 ^ 53" "gas_price_is_valid (tx_gas_price tx)"
    and "\<forall>call. native_call (mp_tx e) tx = Some call \<longrightarrow> 0 < required_native_amount call"
    and "\<exists>a. parse_to_account_address (mp_sha3 e) (env_hex (mp_tx e)) (tx_sender tx) = Inr a"
proof -
  have "(2 :: u64) ^ 53 - 1 < 2 ^ 53" by simp
  then have n: "tx_nonce tx \<le> MAX_NONCE \<Longrightarrow> tx_nonce tx < 2 ^ 53"
    unfolding MAX_NONCE_def by (rule order.strict_trans1 [rotated])
  note v = assms [unfolded validate_transaction_admission_shape_def]
  show "0 < tx_gas_limit tx" using v by (auto simp: word_gt_0 split: option.splits if_splits sum.splits)
  show "tx_gas_limit tx \<le> 10000000"
    using v by (auto simp: MAX_TRANSACTION_GAS_LIMIT_def split: option.splits if_splits sum.splits)
  show "tx_nonce tx < 2 ^ 53" using v n by (auto split: option.splits if_splits sum.splits)
  show "gas_price_is_valid (tx_gas_price tx)" using v by (auto split: option.splits if_splits sum.splits)
  show "\<forall>call. native_call (mp_tx e) tx = Some call \<longrightarrow> 0 < required_native_amount call"
    using v by (auto simp: word_gt_0 split: option.splits if_splits sum.splits)
  show "\<exists>a. parse_to_account_address (mp_sha3 e) (env_hex (mp_tx e)) (tx_sender tx) = Inr a"
    using v by (auto split: option.splits if_splits sum.splits)
qed

section \<open>Properties\<close>

text \<open>
  C28: the pool stays well formed. In every pool reachable by submissions, removals and the draining of
  committed checkpoints, the byte counter, the set of hashes and the four counter maps are exactly those
  of the pending records (no key of a departed transaction is left, no counter wraps or drifts), hashes
  are distinct, the pool holds at most 100000 transactions and 256 MiB, at most 256 per sender and 64 per
  primary and per congestion lane, and every pending transaction carries a signature, its own hash and
  keys, a gas limit between 1 and 10000000, a nonce below 2^53 and a sender that is an address.
\<close>

theorem mempool_well_formed:
  assumes "mempool_reach e mp"
  shows "mp = pool_of (pending_txs mp) \<and> distinct (map pr_tx_hash (pending_txs mp)) \<and>
    length (pending_txs mp) \<le> 100000 \<and> unat (pending_bytes mp) = total_size (pending_txs mp) \<and>
    total_size (pending_txs mp) \<le> 268435456 \<and>
    (\<forall>k. length (filter (\<lambda>r. pr_normalized_sender r = k) (pending_txs mp)) \<le> 256 \<and>
         length (filter (\<lambda>r. pr_primary_access_key r = k) (pending_txs mp)) \<le> 64 \<and>
         length (filter (\<lambda>r. pr_congestion_access_key r = k) (pending_txs mp)) \<le> 64) \<and>
    list_all (\<lambda>r. record_wf e r \<and>
      (let tx = st_transaction (pr_signed_tx r)
       in 0 < tx_gas_limit tx \<and> tx_gas_limit tx \<le> 10000000 \<and> tx_nonce tx < 2 ^ 53 \<and>
          (\<exists>a. parse_to_account_address (mp_sha3 e) (env_hex (mp_tx e)) (tx_sender tx) = Inr a))) (pending_txs mp)"
proof -
  let ?ps = "pending_txs mp"
  have ok: "mp = pool_of ?ps" "distinct (map pr_tx_hash ?ps)" "length ?ps \<le> 100000" "total_size ?ps \<le> 268435456"
    "lanes_ok ?ps" "list_all (record_wf e) ?ps"
    using reach_ok [OF assms]
    by (simp_all add: mempool_ok_def within_limits_def MAX_MEMPOOL_SIZE_def MAX_MEMPOOL_BYTES_def)
  have "unat (pending_bytes (pool_of ?ps)) = total_size ?ps"
    using ok(4) u64_of_nat_unat [of "total_size ?ps"] by (simp add: pool_of_def)
  then have b: "unat (pending_bytes mp) = total_size ?ps" using ok(1) by metis
  have c: "count_list (concat (map (\<lambda>r. [f r]) rs)) k = length (filter (\<lambda>r. f r = k) rs)"
    for f :: "pending_record \<Rightarrow> string" and rs k
    by (induction rs) auto
  have l: "\<forall>k. length (filter (\<lambda>r. pr_normalized_sender r = k) ?ps) \<le> 256 \<and>
      length (filter (\<lambda>r. pr_primary_access_key r = k) ?ps) \<le> 64 \<and>
      length (filter (\<lambda>r. pr_congestion_access_key r = k) ?ps) \<le> 64"
    using ok(5) unfolding lanes_ok_def index_keys c
    by (simp add: MAX_PENDING_PER_SENDER_def MAX_PENDING_PER_PRIMARY_ACCESS_LANE_def)
  have "record_wf e r \<and> (let tx = st_transaction (pr_signed_tx r)
       in 0 < tx_gas_limit tx \<and> tx_gas_limit tx \<le> 10000000 \<and> tx_nonce tx < 2 ^ 53 \<and>
          (\<exists>a. parse_to_account_address (mp_sha3 e) (env_hex (mp_tx e)) (tx_sender tx) = Inr a))" if r: "r \<in> set ?ps" for r
  proof -
    have wf: "record_wf e r" using r ok(6) by (simp add: list_all_iff)
    then have "validate_transaction_admission_shape e (st_transaction (pr_signed_tx r)) = None"
      by (simp add: record_wf_def Let_def)
    note shape_bounds [OF this]
    with wf show ?thesis by (simp add: Let_def)
  qed
  then show ?thesis using ok(1,2,3,4) b l by (simp add: list_all_iff)
qed

text \<open>
  C29: admission is exact. On a well-formed pool a non-empty batch is accepted exactly when every
  transaction verifies and has an admissible shape, the watermark can be read and no nonce is at or below
  the one committed for its sender, every transaction is known not to be committed, hashes are new and
  distinct, and the pool with the batch stays within the size, byte, sender and lane limits. The answer
  is the list of hashes in lane order and the pool is the old one followed by the batch in that order; an
  error leaves the pool unchanged because it returns none.
\<close>

theorem admission_exact:
  assumes "mempool_reach e mp" "txs \<noteq> []"
  shows "submit_transactions_batch_internal e bc store txs md mp = Inr (hs, mp') \<longleftrightarrow>
    (\<exists>verified watermark rs.
       map (verify_for_pool e md) txs = map Inr verified \<and> sender_watermark store = Inr watermark \<and>
       rs = sort_key batch_order verified \<and>
       (\<forall>r\<in>set rs. \<forall>w. map_of watermark (pr_normalized_sender r) = Some w \<longrightarrow> w < pr_nonce r) \<and>
       (\<forall>r\<in>set rs. try_is_transaction_committed bc store (pr_tx_hash r) = Inr False) \<and>
       distinct (map pr_tx_hash (pending_txs mp @ rs)) \<and> within_limits (pending_txs mp @ rs) \<and>
       hs = map pr_tx_hash rs \<and> mp' = pool_of (pending_txs mp @ rs))"
proof -
  have f: "list_all (fresh_nonce w) rs \<longleftrightarrow> (\<forall>r\<in>set rs. \<forall>v. w (pr_normalized_sender r) = Some v \<longrightarrow> v < pr_nonce r)" for w rs
    by (auto simp: list_all_iff fresh_nonce_def split: option.splits)
  show ?thesis unfolding submit_iff [OF reach_ok [OF assms(1)] assms(2)] batch_admissible_def f by auto
qed

text \<open>
  C30: removal is exact, and the fast path of draining agrees with the slow one. On a well-formed pool the
  drain after a checkpoint leaves exactly the pool of the records the checkpoint does not commit, whether
  it clears the whole pool at once or removes records one by one. Removal by hashes returns the records
  with these hashes, leaves the pool of the others, and adds their number to the drop counter.
\<close>

theorem removal_exact:
  assumes "mempool_reach e mp"
  shows "drain_committed c cp mp = drain_selected (map (stx_hash c) (cp_transactions cp)) mp \<and>
    drain_committed c cp mp =
      pool_of (filter (\<lambda>r. pr_tx_hash r \<notin> stx_hash c ` set (cp_transactions cp)) (pending_txs mp)) \<and>
    remove_pending_transactions_by_hashes hs mp dropped =
      (filter (\<lambda>r. pr_tx_hash r \<in> set hs) (pending_txs mp),
       pool_of (filter (\<lambda>r. pr_tx_hash r \<notin> set hs) (pending_txs mp)),
       dropped + of_nat (length (filter (\<lambda>r. pr_tx_hash r \<in> set hs) (pending_txs mp))))"
  using drain_committed_pool [OF reach_ok [OF assms], of c cp] remove_pending_pool [OF reach_ok [OF assms]]
    drain_selected_ok [OF reach_ok [OF assms], of "map (stx_hash c) (cp_transactions cp)"]
  by simp

section \<open>Examples\<close>

text \<open>A store-less node that accepts one signed package.\<close>

definition mp_model :: mp_env where
  "mp_model = \<lparr>mp_cp = cp_env_model, mp_sha3 = (\<lambda>m. zero_hash), bcs_transaction_size = (\<lambda>tx. Some 100),
     bcs_signed_size = (\<lambda>tx sg. Some 100), bcs_effects_size = (\<lambda>eff. Some 10)\<rparr>"

definition model_tx :: transaction where
  "model_tx = PublishPackage ''0x1'' [] None 1000 1 7"

definition model_signed :: signed_transaction where
  "model_signed = (signed_new model_tx)\<lparr>st_signature := [7]\<rparr>"

definition plain_metadata :: pending_metadata where
  "plain_metadata = \<lparr>pm_previewed = False, pm_preview_gas_used = None, pm_preview_effects = None\<rparr>"

definition model_record :: pending_record where
  "model_record = (case verify_for_pool mp_model plain_metadata model_signed of Inr r \<Rightarrow> r)"

lemma model_sender: "\<exists>a. parse_to_account_address (\<lambda>m. zero_hash) hex_model ''0x1'' = Inr a"
proof -
  have "list_all is_ascii_hexdigit ''1''" by (simp add: is_ascii_hexdigit_def is_ascii_digit_def)
  then obtain a where a: "aa_from_hex_literal hex_model ''0x1'' = Some a"
    using aa_from_hex_literal_total [OF hex_model_laws, of "''1''"] by auto
  have "a \<noteq> aa_ZERO"
  proof
    assume "a = aa_ZERO"
    then have "lower_hex (replicate 32 0) = map to_ascii_lowercase (pad_zeros 64 ''1'')"
      using a by (simp add: aa_from_hex_literal_iff [OF hex_model_laws] aa_ZERO_def)
    moreover have "CHR ''1'' \<in> set (map to_ascii_lowercase (pad_zeros 64 ''1''))"
      by (simp add: pad_zeros_def to_ascii_lowercase_def)
    moreover have "CHR ''1'' \<notin> set (lower_hex (replicate 32 0))"
      by (auto simp: lower_hex_def hex_byte_def hex_char_0)
    ultimately show False by simp
  qed
  then have "address_from_hex_literal (\<lambda>m. zero_hash) hex_model ''0x1'' = Inr a"
    using address_from_hex_literal_untagged [OF hex_model_laws, of "''0x1''" "\<lambda>m. zero_hash" a] a by simp
  then show ?thesis by (simp add: parse_to_account_address_def starts_with_def)
qed

lemma model_shape: "validate_transaction_admission_shape mp_model model_tx = None"
  using model_sender
  by (auto simp: validate_transaction_admission_shape_def model_tx_def mp_model_def cp_env_model_def native_call_def
      MAX_TRANSACTION_BYTES_def MAX_TRANSACTION_GAS_LIMIT_def MAX_NONCE_def gas_price_is_valid_def
      gas_price_is_valid_v3_1_def)

lemma model_verifies: "verify_for_pool mp_model plain_metadata model_signed = Inr model_record"
proof -
  have "\<exists>r. verify_for_pool mp_model plain_metadata model_signed = Inr r"
    using model_shape
    by (simp add: verify_for_pool_def into_verified_def verified_transaction_hash_def model_signed_def signed_new_def
        verified_in_cache_def mp_model_def cp_env_model_def Let_def pending_record_size_def plain_metadata_def
        checked_add_def)
  then show ?thesis by (auto simp: model_record_def)
qed

lemma model_size: "pr_size_bytes model_record = 228"
proof -
  have "pending_record_size mp_model st plain_metadata = Inr 228" for st
    by (simp add: pending_record_size_def mp_model_def plain_metadata_def checked_add_def)
  then show ?thesis using verified_size [OF model_verifies] by simp
qed

lemma model_admissible: "batch_admissible bc None w [] [model_record]" if "w = Map.empty" "executed_tx_hashes bc = {}"
  using that model_size
  by (simp add: batch_admissible_def fresh_nonce_def try_is_transaction_committed_def is_transaction_hash_executed_def
      within_limits_def lanes_ok_def index_keys total_size_def MAX_MEMPOOL_SIZE_def MAX_MEMPOOL_BYTES_def
      MAX_PENDING_PER_SENDER_def MAX_PENDING_PER_PRIMARY_ACCESS_LANE_def)

lemma model_submitted:
  "submit_transactions_batch_internal mp_model (blockchain_new cp_env_model) None [model_signed] plain_metadata mempool_default =
     Inr ([pr_tx_hash model_record], pool_of [model_record])"
proof -
  have "executed_tx_hashes (blockchain_new cp_env_model) = {}" by (simp add: blockchain_new_def)
  then have "batch_admissible (blockchain_new cp_env_model) None (map_of []) [] [model_record]"
    by (intro model_admissible) simp_all
  moreover have "pending_txs mempool_default = []" "sort_key batch_order [model_record] = [model_record]"
    by (simp_all add: mempool_default_def)
  ultimately show ?thesis
    by (intro submit_iff [OF mempool_ok_default, THEN iffD2] exI [of _ "[model_record]"] exI [of _ "[]"])
      (simp_all add: model_verifies sender_watermark_def)
qed

lemma model_reach: "mempool_reach mp_model (pool_of [model_record])"
  using mempool_reach.submit [OF mempool_reach.start model_submitted] .

lemma model_pending: "pending_txs (pool_of rs) = rs"
  by (simp add: pool_of_def)

theorem mempool_well_formed_witness:
  "mempool_reach mp_model (pool_of [model_record]) \<and> unat (pending_bytes (pool_of [model_record])) = 228"
  using mempool_well_formed [OF model_reach] model_reach model_size by (simp add: model_pending total_size_def)

theorem admission_exact_witness:
  "submit_transactions_batch_internal mp_model (blockchain_new cp_env_model) None [model_signed] plain_metadata
     mempool_default = Inr ([pr_tx_hash model_record], pool_of [model_record]) \<and>
   (\<forall>hs mp'. submit_transactions_batch_internal mp_model (blockchain_new cp_env_model) None [model_signed] plain_metadata
     (pool_of [model_record]) \<noteq> Inr (hs, mp'))"
proof
  show "submit_transactions_batch_internal mp_model (blockchain_new cp_env_model) None [model_signed] plain_metadata
     mempool_default = Inr ([pr_tx_hash model_record], pool_of [model_record])" by (rule model_submitted)
  show "\<forall>hs mp'. submit_transactions_batch_internal mp_model (blockchain_new cp_env_model) None [model_signed] plain_metadata
     (pool_of [model_record]) \<noteq> Inr (hs, mp')"
    using admission_exact [OF model_reach, of "[model_signed]"] by (auto simp: model_pending model_verifies)
qed

theorem removal_exact_witness:
  "fst (remove_pending_transactions_by_hashes [pr_tx_hash model_record] (pool_of [model_record]) 4) = [model_record] \<and>
   snd (snd (remove_pending_transactions_by_hashes [pr_tx_hash model_record] (pool_of [model_record]) 4)) = 5"
  using removal_exact [OF model_reach, of cp_env_model example_checkpoint "[pr_tx_hash model_record]" 4]
  by (simp add: model_pending)

end
