(* ===== verification/Selection_Correct.thy ===== *)
theory Selection_Correct
  imports Mempool_Correct "HOL-Library.Sublist"
begin

text \<open>
  What the selections of pending transactions guarantee, and how the nonce watermark that is persisted
  with each checkpoint protects against replays.
\<close>

section \<open>Conflict-free selection\<close>

abbreviation keys_of :: "tx_env \<Rightarrow> signed_transaction \<Rightarrow> string set" where
  "keys_of e st \<equiv> set (get_conflict_keys e (st_transaction st))"

lemma subseq_subset: "subseq xs ys \<Longrightarrow> set xs \<subseteq> set ys"
  by (induction rule: list_emb.induct) auto

lemma sorted_wrt_subseq: "subseq xs ys \<Longrightarrow> sorted_wrt R ys \<Longrightarrow> sorted_wrt R xs"
  by (induction rule: list_emb.induct) (use subseq_subset in fastforce)+

lemma select_subset: "set (select_conflict_free e reserved sts) \<subseteq> set sts"
  by (induction sts arbitrary: reserved) (auto simp: Let_def)

lemma select_subseq: "subseq (select_conflict_free e reserved sts) sts"
  by (induction sts arbitrary: reserved) (auto simp: Let_def)

lemma select_avoids: "st \<in> set (select_conflict_free e reserved sts) \<Longrightarrow> keys_of e st \<inter> reserved = {}"
  by (induction sts arbitrary: reserved) (auto simp: Let_def list_ex_iff split: if_splits)

lemma select_disjoint: "sorted_wrt (\<lambda>a b. keys_of e a \<inter> keys_of e b = {}) (select_conflict_free e reserved sts)"
proof (induction sts arbitrary: reserved)
  case (Cons st sts)
  then show ?case using select_avoids [of _ e "reserved \<union> keys_of e st" sts] by (fastforce simp: Let_def)
qed simp

lemma select_maximal:
  "st \<in> set sts \<Longrightarrow> st \<notin> set (select_conflict_free e reserved sts) \<Longrightarrow>
   keys_of e st \<inter> reserved \<noteq> {} \<or> (\<exists>st' \<in> set (select_conflict_free e reserved sts). keys_of e st \<inter> keys_of e st' \<noteq> {})"
proof (induction sts arbitrary: reserved)
  case (Cons a sts)
  show ?case
  proof (cases "keys_of e a \<inter> reserved = {}")
    case True
    then have s: "select_conflict_free e reserved (a # sts) = a # select_conflict_free e (reserved \<union> keys_of e a) sts"
      by (auto simp: Let_def list_ex_iff)
    then have "st \<in> set sts" "st \<notin> set (select_conflict_free e (reserved \<union> keys_of e a) sts)" using Cons.prems by auto
    from Cons.IH [OF this] show ?thesis unfolding s by auto
  next
    case False
    then have s: "select_conflict_free e reserved (a # sts) = select_conflict_free e reserved sts"
      by (auto simp: Let_def list_ex_iff)
    then show ?thesis using Cons False by (cases "st = a") auto
  qed
qed simp

lemma select_head: "select_conflict_free_transactions e (st # sts) = st # select_conflict_free e (keys_of e st) sts"
  by (simp add: select_conflict_free_transactions_def Let_def list_ex_iff)

section \<open>Vertex selection\<close>

text \<open>A step of the loop skips the transaction, stops, or takes it with what is left of the caps.\<close>

lemma fill_vertex_Cons:
  obtains (skip) "fill_vertex e cap hot acc_bytes taken (st # sts) = fill_vertex e cap hot acc_bytes taken sts"
  | (stop) "fill_vertex e cap hot acc_bytes taken (st # sts) = []"
  | (pick) s t hot' where "taken < MAX_DAG_VERTEX_TRANSACTIONS" "hot (primary_access_key (st_transaction st)) < cap"
      "bcs_signed_size e (st_transaction st) (st_signature st) = Some s" "checked_add acc_bytes s = Some t"
      "t \<le> MAX_DAG_VERTEX_TRANSACTION_BYTES"
      "fill_vertex e cap hot acc_bytes taken (st # sts) =
        st # fill_vertex e cap hot' t (taken + 1) sts"
      "\<And>k. hot' k = (if k = primary_access_key (st_transaction st) then hot k + 1 else hot k)"
proof -
  let ?k = "primary_access_key (st_transaction st)"
  show thesis
  proof (cases "taken \<ge> MAX_DAG_VERTEX_TRANSACTIONS \<or> hot ?k \<ge> cap")
    case True
    then show ?thesis by (cases "taken \<ge> MAX_DAG_VERTEX_TRANSACTIONS") (use skip stop in \<open>simp_all add: Let_def\<close>)
  next
    case False
    show ?thesis
    proof (cases "Option.bind (bcs_signed_size e (st_transaction st) (st_signature st)) (checked_add acc_bytes)")
      case None
      then show ?thesis using stop False by (simp add: Let_def)
    next
      case (Some t)
      then obtain s where s: "bcs_signed_size e (st_transaction st) (st_signature st) = Some s" "checked_add acc_bytes s = Some t"
        by (auto simp: bind_eq_Some_conv)
      show ?thesis
      proof (cases "t > MAX_DAG_VERTEX_TRANSACTION_BYTES")
        case True
        then show ?thesis using stop False Some by (simp add: Let_def)
      next
        case c: False
        then show ?thesis
          using pick [OF _ _ s, of "hot(?k := hot ?k + 1)"] False Some by (simp add: Let_def not_less)
      qed
    qed
  qed
qed

declare fill_vertex.simps(2) [simp del]

lemma fill_vertex_subseq: "subseq (fill_vertex e cap hot acc_bytes taken sts) sts"
proof (induction sts arbitrary: hot acc_bytes taken)
  case (Cons st sts)
  show ?case by (cases rule: fill_vertex_Cons [of e cap hot acc_bytes taken st sts]) (simp_all add: Cons.IH list_emb_Cons)
qed simp

lemma fill_vertex_length: "taken + length (fill_vertex e cap hot acc_bytes taken sts) \<le> max taken MAX_DAG_VERTEX_TRANSACTIONS"
proof (induction sts arbitrary: hot acc_bytes taken)
  case (Cons st sts)
  show ?case
  proof (cases rule: fill_vertex_Cons [of e cap hot acc_bytes taken st sts])
    case skip
    then show ?thesis using Cons.IH [of taken hot acc_bytes] by simp
  next
    case stop
    then show ?thesis by simp
  next
    case (pick s t hot')
    show ?thesis
      using pick(1) Cons.IH [of "taken + 1" hot' t]
      unfolding pick(6) by simp
  qed
qed simp

definition signed_size :: "mp_env \<Rightarrow> signed_transaction \<Rightarrow> nat" where
  "signed_size e st = (case bcs_signed_size e (st_transaction st) (st_signature st) of None \<Rightarrow> 0 | Some s \<Rightarrow> unat s)"

lemma fill_vertex_bytes:
  assumes "acc_bytes \<le> MAX_DAG_VERTEX_TRANSACTION_BYTES"
  shows "unat acc_bytes + sum_list (map (signed_size e) (fill_vertex e cap hot acc_bytes taken sts))
     \<le> unat MAX_DAG_VERTEX_TRANSACTION_BYTES"
  using assms
proof (induction sts arbitrary: hot acc_bytes taken)
  case Nil
  then show ?case by (simp add: word_le_nat_alt)
next
  case (Cons st sts)
  show ?case
  proof (cases rule: fill_vertex_Cons [of e cap hot acc_bytes taken st sts])
    case skip
    then show ?thesis using Cons by simp
  next
    case stop
    then show ?thesis using Cons.prems by (simp add: word_le_nat_alt)
  next
    case (pick s t hot')
    have "unat t = unat acc_bytes + signed_size e st" using pick by (simp add: signed_size_def unat_checked_add)
    then show ?thesis using Cons.IH [OF pick(5)] unfolding pick(6) by (simp add: add.assoc)
  qed
qed

lemma fill_vertex_hot:
  "hot k + length (filter (\<lambda>st. primary_access_key (st_transaction st) = k) (fill_vertex e cap hot acc_bytes taken sts))
     \<le> max (hot k) cap"
proof (induction sts arbitrary: hot acc_bytes taken)
  case (Cons st sts)
  show ?case
  proof (cases rule: fill_vertex_Cons [of e cap hot acc_bytes taken st sts])
    case skip
    then show ?thesis using Cons.IH [of hot acc_bytes taken] by simp
  next
    case stop
    then show ?thesis by simp
  next
    case (pick s t hot')
    show ?thesis
      using pick(2) pick(7) [of k] Cons.IH [of hot' t "taken + 1"] unfolding pick(6) by (simp split: if_splits)
  qed
qed simp

lemma cap_positive: "0 < dag_hot_object_tx_cap vars" "0 < owned_fast_checkpoint_tx_cap vars"
  by (auto simp: dag_hot_object_tx_cap_def owned_fast_checkpoint_tx_cap_def positive_setting_def split: option.splits)

lemma fill_vertex_head:
  assumes "0 < cap" "bcs_signed_size e (st_transaction st) (st_signature st) = Some s" "s \<le> MAX_DAG_VERTEX_TRANSACTION_BYTES"
  shows "\<exists>rest. fill_vertex e cap (\<lambda>_. 0) 0 0 (st # sts) = st # rest"
proof -
  have "checked_add 0 s = Some s" using unsigned_less [of s] by (simp add: checked_add_def)
  then show ?thesis using assms by (simp add: fill_vertex.simps(2) Let_def MAX_DAG_VERTEX_TRANSACTIONS_def not_less)
qed

lemma select_nonempty: "sts \<noteq> [] \<Longrightarrow> hd (select_conflict_free_transactions e sts) = hd sts \<and> select_conflict_free_transactions e sts \<noteq> []"
  using select_head by (cases sts) simp_all

lemma sort_key_nonempty [simp]: "sort_key f xs = [] \<longleftrightarrow> xs = []"
  by (metis length_0_conv length_sort)

definition vertex_sized :: "mp_env \<Rightarrow> signed_transaction \<Rightarrow> bool" where
  "vertex_sized e st \<longleftrightarrow>
     (case bcs_signed_size e (st_transaction st) (st_signature st) of
        None \<Rightarrow> False | Some s \<Rightarrow> s \<le> MAX_DAG_VERTEX_TRANSACTION_BYTES)"

lemma snapshot_cases:
  assumes "pending_txs mp \<noteq> []"
  obtains sts where "sts \<noteq> []" "set sts = set (pending_signed_transactions mp)"
    "pending_conflict_free_transactions_snapshot e vars mp =
      fill_vertex e (dag_hot_object_tx_cap vars) (\<lambda>_. 0) 0 0 (select_conflict_free_transactions (mp_tx e) sts)"
proof -
  let ?txs = "pending_signed_transactions mp"
  let ?sts = "if dag_lane_aware_selection_enabled vars then sort_key (pending_sort_key (mp_cp e)) ?txs
    else sort_key (lane_order (mp_cp e)) ?txs"
  have n: "?txs \<noteq> []" using assms by (simp add: pending_signed_transactions_def)
  show thesis
    by (rule that [of ?sts]) (use n in \<open>simp_all add: pending_conflict_free_transactions_snapshot_def Let_def\<close>)
qed

lemma snapshot_members:
  "set (pending_conflict_free_transactions_snapshot e vars mp) \<subseteq> pr_signed_tx ` set (pending_txs mp)"
proof (cases "pending_txs mp = []")
  case False
  then obtain sts where "set sts = set (pending_signed_transactions mp)"
    "pending_conflict_free_transactions_snapshot e vars mp =
      fill_vertex e (dag_hot_object_tx_cap vars) (\<lambda>_. 0) 0 0 (select_conflict_free_transactions (mp_tx e) sts)"
    by (rule snapshot_cases)
  then show ?thesis
    using subseq_subset [OF fill_vertex_subseq] select_subset
    by (fastforce simp: select_conflict_free_transactions_def pending_signed_transactions_def)
qed (simp add: pending_conflict_free_transactions_snapshot_def pending_signed_transactions_def)

lemma snapshot_nonempty:
  assumes "pending_txs mp \<noteq> []" "\<And>r. r \<in> set (pending_txs mp) \<Longrightarrow> vertex_sized e (pr_signed_tx r)"
  shows "pending_conflict_free_transactions_snapshot e vars mp \<noteq> []"
proof -
  obtain sts where sts: "sts \<noteq> []" "set sts = set (pending_signed_transactions mp)"
    "pending_conflict_free_transactions_snapshot e vars mp =
      fill_vertex e (dag_hot_object_tx_cap vars) (\<lambda>_. 0) 0 0 (select_conflict_free_transactions (mp_tx e) sts)"
    using assms(1) by (rule snapshot_cases)
  obtain st rest where sel: "select_conflict_free_transactions (mp_tx e) sts = st # rest" "st = hd sts"
    using select_nonempty [OF sts(1), of "mp_tx e"] by (metis list.collapse)
  then have "st \<in> pr_signed_tx ` set (pending_txs mp)"
    using sts(1,2) by (metis hd_in_set list.set_map pending_signed_transactions_def)
  then have "vertex_sized e st" using assms(2) by blast
  then obtain s where s: "bcs_signed_size e (st_transaction st) (st_signature st) = Some s" "s \<le> MAX_DAG_VERTEX_TRANSACTION_BYTES"
    by (auto simp: vertex_sized_def split: option.splits)
  obtain more where "fill_vertex e (dag_hot_object_tx_cap vars) (\<lambda>_. 0) 0 0 (st # rest) = st # more"
    using fill_vertex_head [OF cap_positive(1) s] by blast
  then show ?thesis unfolding sts(3) sel(1) by simp
qed

section \<open>Nonce watermark\<close>

lemma raise_watermark_count:
  "count_of (map_of (raise_watermark e st w)) s =
   (if s = normalize_addr e (tx_sender (st_transaction st)) then max (tx_nonce (st_transaction st)) (count_of (map_of w) s)
    else count_of (map_of w) s)"
  by (auto simp: raise_watermark_def Let_def count_of_def map_of_btree_insert max_def split: option.splits)

text \<open>The highest nonce of a sender among some transactions.\<close>

definition committed_nonce :: "mp_env \<Rightarrow> string \<Rightarrow> signed_transaction list \<Rightarrow> u64 \<Rightarrow> u64" where
  "committed_nonce e s sts n =
     fold max (map (tx_nonce \<circ> st_transaction) (filter (\<lambda>st. normalize_addr e (tx_sender (st_transaction st)) = s) sts)) n"

lemma fold_raise_count:
  "count_of (map_of (fold (raise_watermark e) sts w)) s = committed_nonce e s sts (count_of (map_of w) s)"
  by (induction sts arbitrary: w) (auto simp: raise_watermark_count committed_nonce_def)

lemma fold_max_ge: "(n :: u64) \<le> fold max ns n" "m \<in> set ns \<Longrightarrow> m \<le> fold max ns n"
proof (induction ns arbitrary: n)
  case (Cons a ns)
  { case 1 then show ?case using Cons(1) [of "max a n"] by simp
  next case 2 then show ?case using Cons(1) [of "max a n"] Cons(2) [of "max a n"] by auto }
qed simp_all

lemma fold_max_less: "n < b \<Longrightarrow> (\<And>m. m \<in> set ns \<Longrightarrow> m < b) \<Longrightarrow> fold max ns n < (b :: u64)"
  by (induction ns arbitrary: n) auto

lemma committed_nonce_ge:
  "n \<le> committed_nonce e s sts n"
  "st \<in> set sts \<Longrightarrow> normalize_addr e (tx_sender (st_transaction st)) = s \<Longrightarrow> tx_nonce (st_transaction st) \<le> committed_nonce e s sts n"
  unfolding committed_nonce_def using fold_max_ge by force+

lemma capped_count: "count_of (map_of (map (\<lambda>(k, v). (k, cap_watermark v)) w)) s = cap_watermark (count_of (map_of w) s)"
  by (auto simp: count_of_def map_of_map cap_watermark_def MAX_WATERMARK_def split: option.splits)

lemma updated_count:
  "count_of (map_of (updated_sender_watermark e loaded cp)) s =
   committed_nonce e s (cp_transactions cp) (cap_watermark (count_of (map_of (case loaded of None \<Rightarrow> [] | Some w \<Rightarrow> w)) s))"
  unfolding updated_sender_watermark_def fold_raise_count capped_count ..

text \<open>The watermark after some checkpoints are persisted one after the other.\<close>

definition persisted_watermark ::
  "mp_env \<Rightarrow> checkpoint list \<Rightarrow> (string \<times> u64) list option \<Rightarrow> (string \<times> u64) list option" where
  "persisted_watermark e cps loaded = fold (\<lambda>cp w. Some (updated_sender_watermark e w cp)) cps loaded"

abbreviation stored_nonce :: "(string \<times> u64) list option \<Rightarrow> string \<Rightarrow> u64" where
  "stored_nonce loaded s \<equiv> count_of (map_of (case loaded of None \<Rightarrow> [] | Some w \<Rightarrow> w)) s"

lemma cap_watermark_less: "cap_watermark v < MAX_WATERMARK"
  by (simp add: cap_watermark_def MAX_WATERMARK_def not_le)

lemma cap_watermark_id: "v < MAX_WATERMARK \<Longrightarrow> cap_watermark v = v"
  by (auto simp: cap_watermark_def)

lemma updated_less:
  assumes "\<forall>st\<in>set (cp_transactions cp). tx_nonce (st_transaction st) < MAX_WATERMARK"
  shows "stored_nonce (Some (updated_sender_watermark e loaded cp)) s < MAX_WATERMARK"
  using assms by (auto simp: updated_count committed_nonce_def intro!: fold_max_less cap_watermark_less)

lemma persisted_ge:
  assumes "\<forall>cp\<in>set cps. \<forall>st\<in>set (cp_transactions cp). tx_nonce (st_transaction st) < MAX_WATERMARK"
    and "stored_nonce loaded s < MAX_WATERMARK"
  shows "stored_nonce loaded s \<le> stored_nonce (persisted_watermark e cps loaded) s \<and>
    stored_nonce (persisted_watermark e cps loaded) s < MAX_WATERMARK \<and>
    (\<forall>cp\<in>set cps. \<forall>st\<in>set (cp_transactions cp). normalize_addr e (tx_sender (st_transaction st)) = s \<longrightarrow>
       tx_nonce (st_transaction st) \<le> stored_nonce (persisted_watermark e cps loaded) s)"
  using assms
proof (induction cps arbitrary: loaded)
  case Nil
  then show ?case by (simp add: persisted_watermark_def)
next
  case (Cons cp cps)
  let ?w = "Some (updated_sender_watermark e loaded cp)"
  have p: "persisted_watermark e (cp # cps) loaded = persisted_watermark e cps ?w" by (simp add: persisted_watermark_def)
  have less: "stored_nonce ?w s < MAX_WATERMARK" using updated_less Cons.prems(1) by simp
  note IH = Cons.IH [OF _ less]
  have w: "stored_nonce ?w s = committed_nonce e s (cp_transactions cp) (stored_nonce loaded s)"
    using Cons.prems(2) by (simp add: updated_count cap_watermark_id)
  have "stored_nonce loaded s \<le> stored_nonce ?w s" unfolding w by (rule committed_nonce_ge)
  moreover have "\<forall>st\<in>set (cp_transactions cp). normalize_addr e (tx_sender (st_transaction st)) = s \<longrightarrow>
      tx_nonce (st_transaction st) \<le> stored_nonce ?w s" unfolding w using committed_nonce_ge(2) by blast
  ultimately show ?case unfolding p using IH Cons.prems(1) by (auto intro: order.trans)
qed

lemma sender_watermark_count:
  assumes "sv_nonce_watermark sv = Inr loaded"
  shows "\<exists>w. sender_watermark (Some sv) = Inr w \<and> count_of (map_of w) s = cap_watermark (stored_nonce loaded s)"
  using assms by (auto simp: sender_watermark_def capped_count)

lemma stale_not_fresh:
  assumes "pr_nonce r \<le> count_of w (pr_normalized_sender r)" "0 < count_of w (pr_normalized_sender r)"
  shows "\<not> fresh_nonce w r"
  using assms by (auto simp: fresh_nonce_def count_of_def split: option.splits)

lemma verified_transaction:
  assumes "verify_for_pool e md st = Inr r"
  shows "st_transaction (pr_signed_tx r) = st_transaction st"
    "cached_transaction_hash (pr_signed_tx r) = cached_transaction_hash st"
proof -
  have "into_verified (mp_tx e) st = Inr v \<Longrightarrow> st_transaction (vst_signed v) = st_transaction st \<and>
      cached_transaction_hash (vst_signed v) = cached_transaction_hash st" for v
    by (auto simp: into_verified_def verified_transaction_hash_def Let_def split: if_splits sum.splits)
  then show "st_transaction (pr_signed_tx r) = st_transaction st"
    "cached_transaction_hash (pr_signed_tx r) = cached_transaction_hash st"
    using assms by (auto simp: verify_for_pool_def Let_def split: sum.splits option.splits)
qed

lemma stale_batch_refused:
  assumes ok: "mempool_ok e mp" and w: "sender_watermark store = Inr w"
    and new: "new \<in> set txs" "normalize_addr e (tx_sender (st_transaction new)) = s"
    and stale: "tx_nonce (st_transaction new) \<le> count_of (map_of w) s" "0 < count_of (map_of w) s"
  shows "submit_transactions_batch_internal e bc store txs md mp \<noteq> Inr (hs, mp')"
proof
  assume "submit_transactions_batch_internal e bc store txs md mp = Inr (hs, mp')"
  moreover have "txs \<noteq> []" using new by auto
  ultimately obtain vs where vs: "map (verify_for_pool e md) txs = map Inr vs"
    and fresh: "list_all (fresh_nonce (map_of w)) (sort_key batch_order vs)"
    using submit_iff [OF ok] w unfolding batch_admissible_def by auto
  have "verify_for_pool e md new \<in> Inr ` set vs" using new(1) vs by (metis image_eqI list.set_map)
  then obtain r where r: "r \<in> set vs" "verify_for_pool e md new = Inr r" by auto
  have "st_transaction (pr_signed_tx r) = st_transaction new" using r(2) by (rule verified_transaction(1))
  then have "pr_normalized_sender r = s" "pr_nonce r = tx_nonce (st_transaction new)"
    using verified_record_wf [OF r(2)] new(2) by (simp_all add: record_wf_def pr_nonce_def Let_def)
  then have "\<not> fresh_nonce (map_of w) r" using stale by (intro stale_not_fresh) simp_all
  then show False using fresh r(1) by (auto simp: list_all_iff)
qed

lemma expected_nonce_above:
  assumes "sv_nonce_watermark sv = Inr loaded" "stored_nonce loaded (normalize_addr e addr) < MAX_WATERMARK"
  shows "stored_nonce loaded (normalize_addr e addr) < get_expected_nonce e (Some sv) mp addr"
proof -
  let ?v = "stored_nonce loaded (normalize_addr e addr)"
  have "get_expected_nonce e (Some sv) mp addr = saturating_add (saturating_add (pending_tx_count_for_sender e mp addr) ?v) 1"
    using assms by (simp add: get_expected_nonce_def Let_def)
  moreover have "unat ?v < 2 ^ 53" using assms(2) by (simp add: MAX_WATERMARK_def word_less_nat_alt)
  ultimately show ?thesis by (simp add: word_less_nat_alt unat_saturating_add)
qed

lemma zero_nonces_not_recorded:
  "list_all (\<lambda>st. tx_nonce (st_transaction st) = 0) sts \<Longrightarrow> fold (raise_watermark e) sts w = w"
  by (induction sts) (simp_all add: raise_watermark_def)

section \<open>Producing checkpoints drains the pool\<close>

text \<open>One round: a checkpoint with the selected transactions is committed and the pool is drained.\<close>

definition commit_round :: "mp_env \<Rightarrow> (string \<rightharpoonup> string) \<Rightarrow> checkpoint \<Rightarrow> mempool_state \<Rightarrow> mempool_state" where
  "commit_round e vars cp mp =
     drain_committed (mp_cp e) (cp\<lparr>cp_transactions := pending_conflict_free_transactions_snapshot e vars mp\<rparr>) mp"

text \<open>Every pending transaction fits a vertex, and a hash it has cached is its own.\<close>

definition selectable :: "mp_env \<Rightarrow> mempool_state \<Rightarrow> bool" where
  "selectable e mp \<longleftrightarrow>
     list_all (\<lambda>r. vertex_sized e (pr_signed_tx r) \<and>
       stx_hash (mp_cp e) (pr_signed_tx r) = tx_hash (mp_tx e) (st_transaction (pr_signed_tx r))) (pending_txs mp)"

lemma commit_round_shrinks:
  assumes "mempool_reach e mp" "selectable e mp"
  shows "mempool_reach e (commit_round e vars cp mp)" "selectable e (commit_round e vars cp mp)"
    and "pending_txs mp \<noteq> [] \<Longrightarrow> length (pending_txs (commit_round e vars cp mp)) < length (pending_txs mp)"
proof -
  let ?snap = "pending_conflict_free_transactions_snapshot e vars mp"
  let ?P = "\<lambda>r. pr_tx_hash r \<notin> stx_hash (mp_cp e) ` set ?snap"
  have d: "commit_round e vars cp mp = pool_of (filter ?P (pending_txs mp))"
    unfolding commit_round_def using drain_committed_pool [OF reach_ok [OF assms(1)]] by simp
  show "mempool_reach e (commit_round e vars cp mp)"
    unfolding commit_round_def using assms(1) by (rule mempool_reach.drain)
  show "selectable e (commit_round e vars cp mp)"
    using assms(2) by (auto simp: selectable_def d list_all_iff pool_of_def)
  show "length (pending_txs (commit_round e vars cp mp)) < length (pending_txs mp)" if ne: "pending_txs mp \<noteq> []"
  proof -
    have "?snap \<noteq> []"
      by (rule snapshot_nonempty) (use ne assms(2) in \<open>auto simp: selectable_def list_all_iff\<close>)
    then obtain st where st: "st \<in> set ?snap" by (meson list.set_sel(1))
    then obtain r where r: "r \<in> set (pending_txs mp)" "st = pr_signed_tx r" using snapshot_members by fastforce
    have "record_wf e r" using reach_ok [OF assms(1)] r(1) by (simp add: mempool_ok_def list_all_iff)
    then have "pr_tx_hash r = stx_hash (mp_cp e) st"
      using assms(2) r by (simp add: record_wf_def selectable_def list_all_iff Let_def)
    then have "\<not> ?P r" using st by blast
    then show ?thesis unfolding d using r(1) by (auto simp: pool_of_def intro: length_filter_less)
  qed
qed

section \<open>Properties\<close>

text \<open>
  C31: the selected transactions can run in parallel. The selection keeps the order of the candidates,
  any two selected transactions have no conflict key in common, and it is maximal: a candidate that is
  left out shares a key with a selected one.
\<close>

theorem selection_conflict_free:
  "let selected = select_conflict_free_transactions e transactions
   in subseq selected transactions \<and>
      sorted_wrt (\<lambda>a b. keys_of e a \<inter> keys_of e b = {}) selected \<and>
      (\<forall>st \<in> set transactions. st \<in> set selected \<or> (\<exists>st' \<in> set selected. keys_of e st \<inter> keys_of e st' \<noteq> {}))"
  unfolding select_conflict_free_transactions_def Let_def
  using select_subseq select_disjoint select_maximal [of _ transactions e "{}"] by blast

text \<open>
  A vertex respects its caps. The transactions offered for a vertex are pending, pairwise free of
  conflicts, at most 512, of at most 350 KiB together, and at most as many per primary access key as the
  configured cap, which is never zero.
\<close>

theorem vertex_within_caps:
  "let ready = pending_conflict_free_transactions_snapshot e vars mp
   in set ready \<subseteq> pr_signed_tx ` set (pending_txs mp) \<and> length ready \<le> 512 \<and>
      sum_list (map (signed_size e) ready) \<le> 350 * 1024 \<and>
      (\<forall>k. length (filter (\<lambda>st. primary_access_key (st_transaction st) = k) ready) \<le> dag_hot_object_tx_cap vars) \<and>
      0 < dag_hot_object_tx_cap vars \<and>
      sorted_wrt (\<lambda>a b. keys_of (mp_tx e) a \<inter> keys_of (mp_tx e) b = {}) ready"
proof (cases "pending_txs mp = []")
  case True
  then show ?thesis
    by (simp add: pending_conflict_free_transactions_snapshot_def pending_signed_transactions_def cap_positive)
next
  case False
  then obtain sts where r: "pending_conflict_free_transactions_snapshot e vars mp =
      fill_vertex e (dag_hot_object_tx_cap vars) (\<lambda>_. 0) 0 0 (select_conflict_free_transactions (mp_tx e) sts)"
    using snapshot_cases by blast
  let ?f = "fill_vertex e (dag_hot_object_tx_cap vars) (\<lambda>_. 0) 0 0 (select_conflict_free_transactions (mp_tx e) sts)"
  have "length ?f \<le> 512" using fill_vertex_length [of 0] by (simp add: MAX_DAG_VERTEX_TRANSACTIONS_def)
  moreover have "sum_list (map (signed_size e) ?f) \<le> 350 * 1024"
    using fill_vertex_bytes [of 0 e] by (simp add: MAX_DAG_VERTEX_TRANSACTION_BYTES_def)
  moreover have "length (filter (\<lambda>st. primary_access_key (st_transaction st) = k) ?f) \<le> dag_hot_object_tx_cap vars" for k
    using fill_vertex_hot [of "\<lambda>_. 0" k] by simp
  moreover have "sorted_wrt (\<lambda>a b. keys_of (mp_tx e) a \<inter> keys_of (mp_tx e) b = {}) ?f"
    using sorted_wrt_subseq [OF fill_vertex_subseq] select_disjoint unfolding select_conflict_free_transactions_def by blast
  ultimately show ?thesis using snapshot_members [of e vars mp] cap_positive unfolding Let_def r by simp
qed

text \<open>
  C32: the pool drains. When every pending transaction fits a vertex and none has cached a hash other
  than its own, a round that commits the offered transactions and drains the pool removes at least one
  transaction, so that at most as many rounds as there are pending transactions leave the pool empty.
\<close>

theorem pool_drains:
  assumes "mempool_reach e mp" "selectable e mp"
  shows "\<exists>n \<le> length (pending_txs mp). (commit_round e vars cp ^^ n) mp = mempool_default"
  using assms
proof (induction "length (pending_txs mp)" arbitrary: mp rule: less_induct)
  case less
  show ?case
  proof (cases "pending_txs mp = []")
    case True
    then have "mp = mempool_default" using reach_ok [OF less.prems(1)] pool_of_Nil by (simp add: mempool_ok_def)
    then show ?thesis by (intro exI [of _ 0]) simp
  next
    case False
    note s = commit_round_shrinks [OF less.prems, of vars cp]
    then obtain n where "n \<le> length (pending_txs (commit_round e vars cp mp))"
        "(commit_round e vars cp ^^ n) (commit_round e vars cp mp) = mempool_default"
      using less.hyps [OF s(3) [OF False]] by blast
    then show ?thesis using s(3) [OF False] by (intro exI [of _ "Suc n"]) (simp add: funpow_Suc_right del: funpow.simps)
  qed
qed

text \<open>
  C33: a committed nonce cannot be used again. Start from any stored watermark below 2^53 and persist
  checkpoints whose nonces are below 2^53, one after the other. A store with the resulting watermark
  makes admission refuse every batch that contains a transaction of a sender (in any spelling of the
  address) with a positive nonce at or below one the sender has in these checkpoints; and the nonce that
  is proposed to the sender is above all of them. Nonce zero is the exception: it is never recorded.
\<close>

theorem committed_nonce_refused:
  assumes "mempool_reach e mp"
    and "\<forall>c\<in>set cps. \<forall>st\<in>set (cp_transactions c). tx_nonce (st_transaction st) < 2 ^ 53"
    and "stored_nonce loaded (normalize_addr e sndr) < 2 ^ 53"
    and "sv_nonce_watermark sv = Inr (persisted_watermark e cps loaded)"
    and "cp \<in> set cps" "old \<in> set (cp_transactions cp)"
    and "normalize_addr e (tx_sender (st_transaction old)) = normalize_addr e sndr"
  shows "(\<forall>txs new hs mp'. new \<in> set txs \<and> normalize_addr e (tx_sender (st_transaction new)) = normalize_addr e sndr \<and>
        tx_nonce (st_transaction new) \<le> tx_nonce (st_transaction old) \<and> 0 < tx_nonce (st_transaction old) \<longrightarrow>
        submit_transactions_batch_internal e bc (Some sv) txs md mp \<noteq> Inr (hs, mp')) \<and>
    tx_nonce (st_transaction old) < get_expected_nonce e (Some sv) mp sndr \<and>
    (\<forall>c. list_all (\<lambda>st. tx_nonce (st_transaction st) = 0) (cp_transactions c) \<longrightarrow>
       updated_sender_watermark e None c = [])"
proof -
  let ?s = "normalize_addr e sndr" and ?p = "persisted_watermark e cps loaded"
  have m: "MAX_WATERMARK = 2 ^ 53" by (simp add: MAX_WATERMARK_def)
  have p: "stored_nonce ?p ?s < MAX_WATERMARK" "tx_nonce (st_transaction old) \<le> stored_nonce ?p ?s"
    using persisted_ge [of cps loaded ?s e] assms(2,3,5,6,7) unfolding m by blast+
  obtain w where w: "sender_watermark (Some sv) = Inr w" "count_of (map_of w) ?s = stored_nonce ?p ?s"
    using sender_watermark_count [OF assms(4), of ?s] cap_watermark_id [OF p(1)] by auto
  have "submit_transactions_batch_internal e bc (Some sv) txs md mp \<noteq> Inr (hs, mp')"
    if "new \<in> set txs" "normalize_addr e (tx_sender (st_transaction new)) = ?s"
      "tx_nonce (st_transaction new) \<le> tx_nonce (st_transaction old)" "0 < tx_nonce (st_transaction old)" for txs new hs mp'
    using stale_batch_refused [OF reach_ok [OF assms(1)] w(1) that(1,2)] that(3,4) p(2) w(2) by simp
  moreover have "tx_nonce (st_transaction old) < get_expected_nonce e (Some sv) mp sndr"
    using expected_nonce_above [OF assms(4) p(1), of mp] p(2) by simp
  ultimately show ?thesis using zero_nonces_not_recorded by (auto simp: updated_sender_watermark_def)
qed

section \<open>Examples\<close>

theorem selection_conflict_free_witness:
  "select_conflict_free_transactions env_model [model_signed, model_signed] = [model_signed] \<and>
   subseq [model_signed] [model_signed, model_signed]"
proof -
  have "keys_of env_model model_signed \<noteq> {}"
    by (simp add: get_conflict_keys_def model_signed_def signed_new_def model_tx_def Let_def)
  then have "select_conflict_free_transactions env_model [model_signed, model_signed] = [model_signed]"
    by (simp add: select_head list_ex_iff Let_def)
  then show ?thesis using selection_conflict_free [of env_model "[model_signed, model_signed]"] by (simp add: Let_def)
qed

lemma model_selectable: "selectable mp_model (pool_of [model_record])"
proof -
  have "st_transaction (pr_signed_tx model_record) = model_tx" using verified_transaction(1) [OF model_verifies]
    by (simp add: model_signed_def signed_new_def)
  moreover have "cached_transaction_hash (pr_signed_tx model_record) = None"
    using verified_transaction(2) [OF model_verifies] by (simp add: model_signed_def signed_new_def)
  ultimately show ?thesis
    by (simp add: selectable_def model_pending vertex_sized_def mp_model_def MAX_DAG_VERTEX_TRANSACTION_BYTES_def
        stx_hash_def transaction_hash_def Let_def)
qed

theorem pool_drains_witness:
  "\<exists>n \<le> 1. (commit_round mp_model Map.empty example_checkpoint ^^ n) (pool_of [model_record]) = mempool_default"
  using pool_drains [OF model_reach model_selectable, of Map.empty example_checkpoint] by (simp add: model_pending)

theorem committed_nonce_refused_witness:
  "let cp = example_checkpoint\<lparr>cp_transactions := [model_signed]\<rparr>;
       sv = \<lparr>sv_transaction_index = (\<lambda>h. Inr False), sv_nonce_watermark = Inr (persisted_watermark mp_model [cp] None)\<rparr>
   in (\<forall>hs mp'. submit_transactions_batch_internal mp_model (blockchain_new cp_env_model) (Some sv) [model_signed]
         plain_metadata mempool_default \<noteq> Inr (hs, mp')) \<and>
      7 < get_expected_nonce mp_model (Some sv) mempool_default ''0x1''"
proof -
  let ?cp = "example_checkpoint\<lparr>cp_transactions := [model_signed]\<rparr>"
  let ?sv = "\<lparr>sv_transaction_index = (\<lambda>h. Inr False), sv_nonce_watermark = Inr (persisted_watermark mp_model [?cp] None)\<rparr>"
  have tx: "st_transaction model_signed = model_tx" "tx_nonce model_tx = 7" "tx_sender model_tx = ''0x1''"
    by (simp_all add: model_signed_def signed_new_def model_tx_def)
  show ?thesis
    using committed_nonce_refused [OF mempool_reach.start, of "[?cp]" None mp_model "''0x1''" ?sv ?cp model_signed]
    by (simp add: tx Let_def count_of_def)
qed

end
