(* ===== verification/Change_Set.thy ===== *)
theory Change_Set
  imports Transaction Coin Gas "HOL-Library.Product_Lexorder"
begin

text \<open>
  The change set a transaction execution produces, \<^verbatim>\<open>kanari-move-runtime-v1/src/changeset.rs\<close>: its
  operations, the conservative access set it derives, merging, and the effects it reports. A \<^verbatim>\<open>BTreeMap\<close>
  is an ordered association list, a \<^verbatim>\<open>BTreeSet\<close> that is only queried is a set. \<^verbatim>\<open>i128\<close> values are
  integers, with the wrap of \<^verbatim>\<open>+=\<close> and the clamp of \<^verbatim>\<open>saturating_add\<close> written out.
\<close>

section \<open>Data\<close>

record uid_record =
  uid_addr :: account_address

record id_record =
  id_bytes :: account_address

record created_object =
  co_owner :: account_address
  co_owner_kind :: object_owner_kind
  co_uid :: "uid_record option"
  co_id :: "id_record option"
  co_type :: string
  co_data :: bytes
  co_version :: u64

record owner_delta =
  od_address :: account_address
  od_balance_delta :: int
  od_modules_added :: "string set"

record state_access_set =
  sa_reads :: "bytes set"
  sa_writes :: "bytes set"

record event =
  ev_key :: bytes
  ev_sequence_number :: u64
  ev_type_tag :: string
  ev_data :: bytes

record nft_cap_record = nft_cap +
  nft_id :: uid_record
  nft_collection_id :: account_address

record change_set =
  owner_deltas :: "(account_address \<times> owner_delta) list"
  native_gas_credits :: "(account_address \<times> u64) list"
  cs_events :: "event list"
  treasuries :: "(account_address \<times> string \<times> treasury_cap) list"
  nft_caps :: "(account_address \<times> string \<times> nft_cap_record) list"
  token_balance_sets :: "(account_address \<times> string \<times> balance_record) list"
  input_objects :: "object_input list"
  shared_inputs :: "object_ref list"
  immutable_inputs :: "object_ref list"
  cs_gas_payment :: "gas_payment_rec option"
  gas_object_refs :: "object_ref list"
  created_objects :: "(string \<times> created_object) list"
  deleted_objects :: "string list"
  explicit_object_changes :: "object_change list"
  added_dynamic_fields :: "(string \<times> bytes \<times> bytes) list"
  removed_dynamic_fields :: "(string \<times> bytes) list"
  move_writes :: "(bytes \<times> bytes option) list"
  resolver_reads :: "bytes set"
  cs_gas_used :: u64
  cs_success :: bool
  cs_error_message :: "string option"

definition with_status :: "u64 \<Rightarrow> bool \<Rightarrow> string option \<Rightarrow> change_set" where
  "with_status gas success error =
     \<lparr>owner_deltas = [], native_gas_credits = [], cs_events = [], treasuries = [], nft_caps = [],
      token_balance_sets = [], input_objects = [], shared_inputs = [], immutable_inputs = [],
      cs_gas_payment = None, gas_object_refs = [], created_objects = [], deleted_objects = [],
      explicit_object_changes = [], added_dynamic_fields = [], removed_dynamic_fields = [],
      move_writes = [], resolver_reads = {}, cs_gas_used = gas, cs_success = success,
      cs_error_message = error\<rparr>"

definition changeset_new :: change_set where
  "changeset_new = with_status 0 True None"

definition canonicalize_object_id :: "tx_env \<Rightarrow> string \<Rightarrow> string" where
  "canonicalize_object_id e object_id =
     (case aa_from_hex_literal (env_hex e) object_id of
        Some addr \<Rightarrow> aa_to_hex_literal (env_hex e) addr
      | None \<Rightarrow> object_id)"

definition object_digest :: "tx_env \<Rightarrow> created_object \<Rightarrow> string" where
  "object_digest e obj = ''0x'' @ hex_encode (env_hex e) (hash_data_blake3 (env_blake3 e) (co_data obj))"

definition created_object_ref :: "tx_env \<Rightarrow> string \<Rightarrow> created_object \<Rightarrow> object_ref" where
  "created_object_ref e object_id obj = object_ref_new object_id (Some (co_version obj)) (Some (object_digest e obj))"

section \<open>Owner deltas\<close>

definition owner_delta_new :: "account_address \<Rightarrow> owner_delta" where
  "owner_delta_new a = \<lparr>od_address = a, od_balance_delta = 0, od_modules_added = {}\<rparr>"

definition delta_debit :: "u64 \<Rightarrow> owner_delta \<Rightarrow> owner_delta" where
  "delta_debit amount d = d\<lparr>od_balance_delta := i128 (od_balance_delta d - uint amount)\<rparr>"

definition delta_credit :: "u64 \<Rightarrow> owner_delta \<Rightarrow> owner_delta" where
  "delta_credit amount d = d\<lparr>od_balance_delta := i128 (od_balance_delta d + uint amount)\<rparr>"

definition add_module :: "string \<Rightarrow> owner_delta \<Rightarrow> owner_delta" where
  "add_module name d = d\<lparr>od_modules_added := insert name (od_modules_added d)\<rparr>"

definition i128_saturating_add :: "int \<Rightarrow> int \<Rightarrow> int" where
  "i128_saturating_add x y = max (- (2 ^ 127)) (min (2 ^ 127 - 1) (x + y))"

text \<open>\<^verbatim>\<open>get_or_create_owner_delta\<close>, with what the caller does to the entry.\<close>

definition get_or_create_owner_delta ::
  "account_address \<Rightarrow> (owner_delta \<Rightarrow> owner_delta) \<Rightarrow> change_set \<Rightarrow> change_set" where
  "get_or_create_owner_delta a f cs =
     cs\<lparr>owner_deltas := btree_insert a
          (f (case map_of (owner_deltas cs) a of None \<Rightarrow> owner_delta_new a | Some d \<Rightarrow> d)) (owner_deltas cs)\<rparr>"

definition cs_transfer :: "account_address \<Rightarrow> account_address \<Rightarrow> u64 \<Rightarrow> change_set \<Rightarrow> change_set" where
  "cs_transfer from_addr to_addr amount cs =
     get_or_create_owner_delta to_addr (delta_credit amount)
       (get_or_create_owner_delta from_addr (delta_debit amount) cs)"

definition cs_mint :: "account_address \<Rightarrow> u64 \<Rightarrow> change_set \<Rightarrow> change_set" where
  "cs_mint to_addr amount cs = get_or_create_owner_delta to_addr (delta_credit amount) cs"

definition cs_burn :: "account_address \<Rightarrow> u64 \<Rightarrow> change_set \<Rightarrow> change_set" where
  "cs_burn from_addr amount cs = get_or_create_owner_delta from_addr (delta_debit amount) cs"

definition cs_publish_module :: "account_address \<Rightarrow> string \<Rightarrow> change_set \<Rightarrow> change_set" where
  "cs_publish_module publisher name cs = get_or_create_owner_delta publisher (add_module name) cs"

definition credit_gas :: "account_address \<Rightarrow> u64 \<Rightarrow> (account_address \<times> u64) list \<Rightarrow> (account_address \<times> u64) list" where
  "credit_gas collector amount credits =
     btree_insert collector
       (saturating_add (case map_of credits collector of None \<Rightarrow> 0 | Some c \<Rightarrow> c) amount) credits"

definition collect_gas :: "account_address \<Rightarrow> u64 \<Rightarrow> change_set \<Rightarrow> change_set" where
  "collect_gas dao_address gas_amount cs =
     (let cs = get_or_create_owner_delta dao_address (delta_credit gas_amount) cs
      in cs\<lparr>native_gas_credits := credit_gas dao_address gas_amount (native_gas_credits cs)\<rparr>)"

definition set_gas_used :: "u64 \<Rightarrow> change_set \<Rightarrow> change_set" where
  "set_gas_used gas cs = cs\<lparr>cs_gas_used := gas\<rparr>"

definition mark_failed :: "string \<Rightarrow> change_set \<Rightarrow> change_set" where
  "mark_failed error cs = cs\<lparr>cs_success := False, cs_error_message := Some error\<rparr>"

definition changeset_is_empty :: "change_set \<Rightarrow> bool" where
  "changeset_is_empty cs \<longleftrightarrow>
     owner_deltas cs = [] \<and> native_gas_credits cs = [] \<and> cs_events cs = [] \<and> treasuries cs = [] \<and>
     token_balance_sets cs = [] \<and> input_objects cs = [] \<and> shared_inputs cs = [] \<and> immutable_inputs cs = [] \<and>
     cs_gas_payment cs = None \<and> gas_object_refs cs = [] \<and> created_objects cs = [] \<and> deleted_objects cs = [] \<and>
     explicit_object_changes cs = [] \<and> added_dynamic_fields cs = [] \<and> removed_dynamic_fields cs = [] \<and>
     move_writes cs = [] \<and> cs_gas_used cs = 0 \<and> cs_success cs \<and> cs_error_message cs = None"

section \<open>Recording effects\<close>

definition add_event :: "event \<Rightarrow> change_set \<Rightarrow> change_set" where
  "add_event ev cs = cs\<lparr>cs_events := cs_events cs @ [ev]\<rparr>"

definition record_move_write :: "bytes \<Rightarrow> bytes option \<Rightarrow> change_set \<Rightarrow> change_set" where
  "record_move_write key v cs = cs\<lparr>move_writes := btree_insert key v (move_writes cs)\<rparr>"

definition record_resolver_reads :: "bytes list \<Rightarrow> change_set \<Rightarrow> change_set" where
  "record_resolver_reads reads cs = cs\<lparr>resolver_reads := resolver_reads cs \<union> set reads\<rparr>"

definition add_deleted_object :: "tx_env \<Rightarrow> string \<Rightarrow> change_set \<Rightarrow> change_set" where
  "add_deleted_object e object_id cs =
     cs\<lparr>deleted_objects := deleted_objects cs @ [canonicalize_object_id e object_id]\<rparr>"

definition add_treasury :: "account_address \<Rightarrow> string \<Rightarrow> u64 \<Rightarrow> change_set \<Rightarrow> change_set" where
  "add_treasury owner token_type supply_total cs =
     cs\<lparr>treasuries := treasuries cs @ [(owner, token_type, \<lparr>total_supply = supply_total\<rparr>)]\<rparr>"

text \<open>The first entry of the owner and the token is raised; otherwise one is appended.\<close>

fun raise_token_balance ::
  "account_address \<Rightarrow> string \<Rightarrow> u64 \<Rightarrow> (account_address \<times> string \<times> balance_record) list
     \<Rightarrow> (account_address \<times> string \<times> balance_record) list" where
  "raise_token_balance owner token_type amount [] = [(owner, token_type, balance_new amount)]"
| "raise_token_balance owner token_type amount ((o', t', b) # rest) =
     (if o' = owner \<and> t' = token_type then (o', t', balance_new (saturating_add (bal_value b) amount)) # rest
      else (o', t', b) # raise_token_balance owner token_type amount rest)"

definition add_token_balance_set :: "account_address \<Rightarrow> string \<Rightarrow> u64 \<Rightarrow> change_set \<Rightarrow> change_set" where
  "add_token_balance_set owner token_type amount cs =
     cs\<lparr>token_balance_sets := raise_token_balance owner token_type amount (token_balance_sets cs)\<rparr>"

definition created_object_id ::
  "tx_env \<Rightarrow> account_address \<Rightarrow> string \<Rightarrow> uid_record option \<Rightarrow> id_record option \<Rightarrow> string option \<Rightarrow> string" where
  "created_object_id e owner type uid idr object_id =
     (case object_id of
        Some i \<Rightarrow> canonicalize_object_id e i
      | None \<Rightarrow>
          (case uid of
             Some u \<Rightarrow> aa_to_hex_literal (env_hex e) (uid_addr u)
           | None \<Rightarrow>
               (case idr of
                  Some i \<Rightarrow> aa_to_hex_literal (env_hex e) (id_bytes i)
                | None \<Rightarrow>
                    ''0x'' @ hex_encode (env_hex e)
                      (take 32 (hash_data_blake3 (env_blake3 e) (hbytes owner @ as_bytes type))))))"

fun upsert_created ::
  "tx_env \<Rightarrow> string \<Rightarrow> account_address \<Rightarrow> string \<Rightarrow> bytes \<Rightarrow> u64 \<Rightarrow> uid_record option \<Rightarrow> id_record option
     \<Rightarrow> (string \<times> created_object) list \<Rightarrow> (string \<times> created_object) list" where
  "upsert_created e canonical_id owner type data version uid idr [] =
     [(canonical_id,
       \<lparr>co_owner = owner, co_owner_kind = AddressOwner (aa_to_hex_literal (env_hex e) owner), co_uid = uid,
        co_id = idr, co_type = type, co_data = data, co_version = version\<rparr>)]"
| "upsert_created e canonical_id owner type data version uid idr ((i, obj) # rest) =
     (if i = canonical_id then
        (i, obj\<lparr>co_owner := (if aa_to_hex_literal (env_hex e) owner \<noteq> canonical_id then owner else co_owner obj),
                co_data := data, co_version := version, co_type := type,
                co_uid := (case uid of Some u \<Rightarrow> Some u | None \<Rightarrow> co_uid obj),
                co_id := (case idr of Some u \<Rightarrow> Some u | None \<Rightarrow> co_id obj)\<rparr>) # rest
      else (i, obj) # upsert_created e canonical_id owner type data version uid idr rest)"

definition add_created_object ::
  "tx_env \<Rightarrow> account_address \<Rightarrow> string \<Rightarrow> bytes \<Rightarrow> u64 \<Rightarrow> uid_record option \<Rightarrow> id_record option \<Rightarrow> string option
     \<Rightarrow> change_set \<Rightarrow> change_set" where
  "add_created_object e owner type data version uid idr object_id cs =
     cs\<lparr>created_objects := upsert_created e (created_object_id e owner type uid idr object_id) owner type data version
          uid idr (created_objects cs)\<rparr>"

definition set_transaction_context :: "object_input list \<Rightarrow> gas_payment_rec option \<Rightarrow> change_set \<Rightarrow> change_set" where
  "set_transaction_context object_inputs gas_payment cs =
     cs\<lparr>input_objects := object_inputs,
        shared_inputs := map oi_object_ref (filter (\<lambda>i. oi_owner i = Some SharedOwner) object_inputs),
        immutable_inputs := map oi_object_ref (filter (\<lambda>i. oi_owner i = Some ImmutableOwner) object_inputs),
        gas_object_refs := (case gas_payment of None \<Rightarrow> [] | Some payment \<Rightarrow> gp_payment_objects payment),
        cs_gas_payment := gas_payment\<rparr>"

definition set_explicit_object_changes :: "object_change list \<Rightarrow> change_set \<Rightarrow> change_set" where
  "set_explicit_object_changes changes cs = cs\<lparr>explicit_object_changes := changes\<rparr>"

section \<open>Access sets\<close>

definition conflicts_with :: "state_access_set \<Rightarrow> state_access_set \<Rightarrow> bool" where
  "conflicts_with self other \<longleftrightarrow>
     (\<exists>key \<in> sa_writes self. key \<in> sa_reads other \<or> key \<in> sa_writes other) \<or>
     (\<exists>key \<in> sa_writes other. key \<in> sa_reads self)"

definition is_parallel_safe_native_owner_delta :: "tx_env \<Rightarrow> change_set \<Rightarrow> account_address \<Rightarrow> owner_delta \<Rightarrow> bool" where
  "is_parallel_safe_native_owner_delta e cs owner delta =
     (if od_modules_added delta \<noteq> {} then False
      else if od_balance_delta delta \<ge> 0 then False
      else case cs_gas_payment cs of
        None \<Rightarrow> False
      | Some payment \<Rightarrow>
          if gp_payment_objects payment = [] then False
          else (case aa_from_hex_literal (env_hex e) (gp_owner payment) of
                  None \<Rightarrow> False
                | Some payment_owner \<Rightarrow> payment_owner = owner))"

definition object_key :: "tx_env \<Rightarrow> string \<Rightarrow> bytes" where
  "object_key e object_id = as_bytes (''object:'' @ canonicalize_object_id e object_id)"

definition dynamic_key :: "tx_env \<Rightarrow> string \<Rightarrow> bytes \<Rightarrow> bytes" where
  "dynamic_key e object_id name =
     as_bytes (''dynamic:'' @ canonicalize_object_id e object_id @ '':'' @ hex_encode (env_hex e) name)"

text \<open>The keys of the loops, in the order of the code.\<close>

definition access_reads :: "tx_env \<Rightarrow> change_set \<Rightarrow> bytes list" where
  "access_reads e cs =
     as_bytes ''df:*''
     # map (object_key e \<circ> or_object_id \<circ> oi_object_ref) (input_objects cs)
     @ map (object_key e \<circ> or_object_id) (shared_inputs cs)
     @ map (object_key e \<circ> or_object_id) (immutable_inputs cs)"

definition event_writes :: "tx_env \<Rightarrow> event \<Rightarrow> bytes list" where
  "event_writes e ev =
     (if str_contains ''::nft::MintLog'' (ev_type_tag ev) \<and> length (ev_data ev) \<ge> 96
      then [as_bytes (''collection_members:0x'' @ hex_encode (env_hex e) (take 32 (drop 64 (ev_data ev))))]
      else [])"

definition access_writes :: "tx_env \<Rightarrow> change_set \<Rightarrow> bytes list" where
  "access_writes e cs =
     map (object_key e \<circ> or_object_id) (gas_object_refs cs)
     @ (case cs_gas_payment cs of
          None \<Rightarrow> []
        | Some payment \<Rightarrow> map (object_key e \<circ> or_object_id) (gp_payment_objects payment))
     @ map (\<lambda>(owner, _). as_bytes (''owner:'' @ aa_to_hex_literal (env_hex e) owner))
         (filter (\<lambda>(owner, delta). \<not> is_parallel_safe_native_owner_delta e cs owner delta) (owner_deltas cs))
     @ concat (map (\<lambda>(_, token_type, _).
         [as_bytes (''supply:'' @ token_type), as_bytes (''treasury:'' @ token_type),
          as_bytes ''global_token_supplies'']) (treasuries cs))
     @ map (\<lambda>(_, token_type, _). as_bytes (''nft:'' @ token_type)) (nft_caps cs)
     @ map (\<lambda>(owner, token_type, _).
         as_bytes (''token_balance:'' @ aa_to_hex_literal (env_hex e) owner @ '':'' @ token_type)) (token_balance_sets cs)
     @ map (object_key e \<circ> fst) (created_objects cs)
     @ map (object_key e) (deleted_objects cs)
     @ map (object_key e \<circ> or_object_id \<circ> oc_object_ref) (explicit_object_changes cs)
     @ concat (map (\<lambda>(object_id, name, _). [as_bytes ''df:*'', dynamic_key e object_id name]) (added_dynamic_fields cs))
     @ concat (map (\<lambda>(object_id, name). [as_bytes ''df:*'', dynamic_key e object_id name]) (removed_dynamic_fields cs))
     @ map fst (move_writes cs)
     @ concat (map (event_writes e) (cs_events cs))"

definition deterministic_access_set :: "tx_env \<Rightarrow> change_set \<Rightarrow> state_access_set" where
  "deterministic_access_set e cs =
     \<lparr>sa_reads = resolver_reads cs \<union> set (access_reads e cs), sa_writes = set (access_writes e cs)\<rparr>"

section \<open>Merging\<close>

definition merge_owner_delta :: "account_address \<times> owner_delta \<Rightarrow> change_set \<Rightarrow> change_set" where
  "merge_owner_delta entry cs =
     (case entry of (addr, other) \<Rightarrow>
        get_or_create_owner_delta addr
          (\<lambda>existing. existing\<lparr>od_balance_delta := i128_saturating_add (od_balance_delta existing) (od_balance_delta other),
                               od_modules_added := od_modules_added existing \<union> od_modules_added other\<rparr>) cs)"

definition cs_merge :: "change_set \<Rightarrow> change_set \<Rightarrow> change_set" where
  "cs_merge other cs =
     (let cs = fold merge_owner_delta (owner_deltas other) cs;
          cs = cs\<lparr>native_gas_credits := fold (\<lambda>(collector, amount). credit_gas collector amount)
                    (native_gas_credits other) (native_gas_credits cs),
                  cs_events := cs_events cs @ cs_events other,
                  treasuries := treasuries cs @ treasuries other,
                  nft_caps := nft_caps cs @ nft_caps other,
                  input_objects := input_objects cs @ input_objects other,
                  shared_inputs := shared_inputs cs @ shared_inputs other,
                  immutable_inputs := immutable_inputs cs @ immutable_inputs other,
                  cs_gas_payment := (case cs_gas_payment cs of None \<Rightarrow> cs_gas_payment other | Some p \<Rightarrow> Some p),
                  gas_object_refs := gas_object_refs cs @ gas_object_refs other\<rparr>;
          cs = fold (\<lambda>(owner, token_type, amount). add_token_balance_set owner token_type (bal_value amount))
                 (token_balance_sets other) cs
      in cs\<lparr>created_objects := created_objects cs @ created_objects other,
            deleted_objects := deleted_objects cs @ deleted_objects other,
            explicit_object_changes := explicit_object_changes cs @ explicit_object_changes other,
            added_dynamic_fields := added_dynamic_fields cs @ added_dynamic_fields other,
            removed_dynamic_fields := removed_dynamic_fields cs @ removed_dynamic_fields other,
            move_writes := fold (\<lambda>(key, v). btree_insert key v) (move_writes other) (move_writes cs),
            resolver_reads := resolver_reads cs \<union> resolver_reads other,
            cs_gas_used := saturating_add (cs_gas_used cs) (cs_gas_used other),
            cs_success := (cs_success cs \<and> cs_success other),
            cs_error_message := (if cs_success other then cs_error_message cs else cs_error_message other)\<rparr>)"

text \<open>\<^verbatim>\<open>merge_from\<close> clones where \<^verbatim>\<open>merge\<close> moves; on values the two are one function.\<close>

definition cs_merge_from :: "change_set \<Rightarrow> change_set \<Rightarrow> change_set" where
  "cs_merge_from other cs = cs_merge other cs"

section \<open>Effects\<close>

definition created_change :: "tx_env \<Rightarrow> string \<times> created_object \<Rightarrow> object_change" where
  "created_change e entry =
     (case entry of (object_id, created) \<Rightarrow>
        (let change_type = (if co_version created \<le> 1 then ChangeCreated else ChangeMutated);
             previous = (if co_version created = 0 then None else Some (co_version created - 1))
         in \<lparr>oc_change_type = change_type, oc_object_ref = created_object_ref e object_id created,
             oc_previous_object_ref =
               (if change_type = ChangeCreated then None else Some (object_ref_new object_id previous None)),
             oc_type = Some (co_type created), oc_owner = Some (co_owner_kind created), oc_previous_owner = None,
             oc_previous_version = (if change_type = ChangeCreated then None else previous)\<rparr>))"

definition deleted_change :: "string \<Rightarrow> object_change" where
  "deleted_change object_id =
     \<lparr>oc_change_type = ChangeDeleted, oc_object_ref = object_ref_new object_id None None,
      oc_previous_object_ref = None, oc_type = None, oc_owner = None, oc_previous_owner = None,
      oc_previous_version = None\<rparr>"

definition object_changes :: "tx_env \<Rightarrow> change_set \<Rightarrow> object_change list" where
  "object_changes e cs =
     (if explicit_object_changes cs \<noteq> [] then explicit_object_changes cs
      else map (created_change e) (created_objects cs) @ map deleted_change (deleted_objects cs))"

fun input_edge_relation :: "object_change_kind \<Rightarrow> object_graph_edge_kind" where
  "input_edge_relation ChangeCreated = InputCreate"
| "input_edge_relation ChangeMutated = InputMutate"
| "input_edge_relation ChangeDeleted = InputDelete"
| "input_edge_relation ChangeTransferred = InputTransfer"

fun shared_input_edge_relation :: "object_change_kind \<Rightarrow> object_graph_edge_kind" where
  "shared_input_edge_relation ChangeCreated = SharedInputCreate"
| "shared_input_edge_relation ChangeMutated = SharedInputMutate"
| "shared_input_edge_relation ChangeDeleted = SharedInputDelete"
| "shared_input_edge_relation ChangeTransferred = SharedInputTransfer"

fun immutable_input_edge_relation :: "object_change_kind \<Rightarrow> object_graph_edge_kind" where
  "immutable_input_edge_relation ChangeCreated = ImmutableInputCreate"
| "immutable_input_edge_relation ChangeMutated = ImmutableInputMutate"
| "immutable_input_edge_relation ChangeDeleted = ImmutableInputDelete"
| "immutable_input_edge_relation ChangeTransferred = ImmutableInputTransfer"

fun gas_edge_relation :: "object_change_kind \<Rightarrow> object_graph_edge_kind" where
  "gas_edge_relation ChangeCreated = GasCreate"
| "gas_edge_relation ChangeMutated = GasMutate"
| "gas_edge_relation ChangeDeleted = GasDelete"
| "gas_edge_relation ChangeTransferred = GasTransfer"

definition graph_edge :: "object_ref \<Rightarrow> object_ref \<Rightarrow> object_graph_edge_kind \<Rightarrow> object_graph_edge" where
  "graph_edge src tgt relation = \<lparr>source_object_ref = src, target_object_ref = tgt, edge_relation = relation\<rparr>"

definition change_edges :: "change_set \<Rightarrow> object_change \<Rightarrow> object_graph_edge list" where
  "change_edges cs change =
     (let kind = oc_change_type change; target = oc_object_ref change
      in (case oc_previous_object_ref change of
            None \<Rightarrow> []
          | Some previous \<Rightarrow>
              graph_edge previous target (if kind = ChangeDeleted then EdgeDelete else VersionSuccessor)
              # (if kind = ChangeTransferred \<and> oc_previous_owner change \<noteq> oc_owner change
                 then [graph_edge previous target OwnershipTransfer] else []))
         @ map (\<lambda>input. graph_edge (oi_object_ref input) target (input_edge_relation kind)) (input_objects cs)
         @ map (\<lambda>input. graph_edge input target (shared_input_edge_relation kind)) (shared_inputs cs)
         @ map (\<lambda>input. graph_edge input target (immutable_input_edge_relation kind)) (immutable_inputs cs)
         @ concat (map (\<lambda>input. graph_edge input target (gas_edge_relation kind)
             # (if kind = ChangeCreated then [graph_edge input target CallContextCreate] else [])) (gas_object_refs cs)))"

definition gas_input_edges :: "change_set \<Rightarrow> object_graph_edge list" where
  "gas_input_edges cs =
     concat (map (\<lambda>gas_ref.
       map (\<lambda>input_ref. graph_edge gas_ref input_ref GasMutate)
         (map oi_object_ref (input_objects cs) @ shared_inputs cs @ immutable_inputs cs)) (gas_object_refs cs))"

text \<open>The \<^verbatim>\<open>Debug\<close> text of an edge kind is the name of its variant.\<close>

fun edge_kind_debug :: "object_graph_edge_kind \<Rightarrow> string" where
  "edge_kind_debug InputCreate = ''InputCreate''"
| "edge_kind_debug InputMutate = ''InputMutate''"
| "edge_kind_debug InputDelete = ''InputDelete''"
| "edge_kind_debug InputTransfer = ''InputTransfer''"
| "edge_kind_debug SharedInputCreate = ''SharedInputCreate''"
| "edge_kind_debug SharedInputMutate = ''SharedInputMutate''"
| "edge_kind_debug SharedInputDelete = ''SharedInputDelete''"
| "edge_kind_debug SharedInputTransfer = ''SharedInputTransfer''"
| "edge_kind_debug ImmutableInputCreate = ''ImmutableInputCreate''"
| "edge_kind_debug ImmutableInputMutate = ''ImmutableInputMutate''"
| "edge_kind_debug ImmutableInputDelete = ''ImmutableInputDelete''"
| "edge_kind_debug ImmutableInputTransfer = ''ImmutableInputTransfer''"
| "edge_kind_debug GasCreate = ''GasCreate''"
| "edge_kind_debug GasMutate = ''GasMutate''"
| "edge_kind_debug GasDelete = ''GasDelete''"
| "edge_kind_debug GasTransfer = ''GasTransfer''"
| "edge_kind_debug CallContextCreate = ''CallContextCreate''"
| "edge_kind_debug VersionSuccessor = ''VersionSuccessor''"
| "edge_kind_debug EdgeDelete = ''Delete''"
| "edge_kind_debug OwnershipTransfer = ''OwnershipTransfer''"

definition edge_order :: "object_graph_edge \<Rightarrow> string \<times> string \<times> string" where
  "edge_order edge =
     (or_object_id (source_object_ref edge), or_object_id (target_object_ref edge), edge_kind_debug (edge_relation edge))"

definition effects :: "tx_env \<Rightarrow> gas_payment_rec option \<Rightarrow> change_set \<Rightarrow> transaction_effects" where
  "effects e gas_payment cs =
     (let changes = object_changes e cs;
          of_kind = (\<lambda>kind. filter (\<lambda>c. oc_change_type c = kind) changes)
      in \<lparr>te_status = (if cs_success cs then ''success'' else ''failed''),
          te_gas_used = cs_gas_used cs,
          te_gas_payment = (case gas_payment of Some p \<Rightarrow> Some p | None \<Rightarrow> cs_gas_payment cs),
          te_input_objects = map oi_object_ref (input_objects cs),
          te_shared_inputs = shared_inputs cs,
          te_immutable_inputs = immutable_inputs cs,
          te_gas_object_refs = gas_object_refs cs,
          te_object_changes = changes,
          te_created = of_kind ChangeCreated,
          te_mutated = of_kind ChangeMutated,
          te_deleted = of_kind ChangeDeleted,
          te_transferred = of_kind ChangeTransferred,
          te_causal_edges =
            remdups_adj (sort_key edge_order (concat (map (change_edges cs) changes) @ gas_input_edges cs)),
          te_error_message = cs_error_message cs\<rparr>)"

end
