(* ===== verification/Scheduling.thy ===== *)
theory Scheduling
  imports Change_Set Mempool
begin

text \<open>
  How executions are grouped: the speculative waves of \<^verbatim>\<open>kanari-move-runtime-v1/src/scheduler.rs\<close>, and
  the dependency-aware batches of \<^verbatim>\<open>kanari-core/src/engine.rs\<close> in which change sets are merged before
  they are applied.
\<close>

section \<open>Waves\<close>

definition MAX_SPECULATIVE_WAVE_SIZE :: nat where
  "MAX_SPECULATIVE_WAVE_SIZE = 64"

fun schedule_loop ::
  "tx_env \<Rightarrow> signed_transaction list \<Rightarrow> string set \<Rightarrow> signed_transaction list \<Rightarrow> signed_transaction list list" where
  "schedule_loop e current_wave reserved [] = (if current_wave \<noteq> [] then [current_wave] else [])"
| "schedule_loop e current_wave reserved (st # sts) =
     (let conflict_keys = set (get_conflict_keys e (st_transaction st));
          wave_full = length current_wave \<ge> MAX_SPECULATIVE_WAVE_SIZE;
          conflicts_with_current = (\<exists>k \<in> conflict_keys. k \<in> reserved)
      in if current_wave \<noteq> [] \<and> (wave_full \<or> conflicts_with_current)
         then current_wave # schedule_loop e [st] ({} \<union> conflict_keys) sts
         else schedule_loop e (current_wave @ [st]) (reserved \<union> conflict_keys) sts)"

definition schedule :: "tx_env \<Rightarrow> signed_transaction list \<Rightarrow> signed_transaction list list" where
  "schedule e transactions = schedule_loop e [] {} transactions"

section \<open>Dependency-aware batches\<close>

definition dependency_apply_batch_cap :: "(string \<rightharpoonup> string) \<Rightarrow> nat" where
  "dependency_apply_batch_cap vars = positive_setting (vars ''KANARI_DEPENDENCY_APPLY_BATCH_CAP'') 65536"

definition dependency_apply_scheduler_enabled :: "(string \<rightharpoonup> string) \<Rightarrow> bool" where
  "dependency_apply_scheduler_enabled vars \<longleftrightarrow>
     vars ''KANARI_DEPENDENCY_APPLY_SCHEDULER'' \<notin> {Some ''0'', Some ''false'', Some ''FALSE'', Some ''no'', Some ''NO''}"

definition access_default :: state_access_set where
  "access_default = \<lparr>sa_reads = {}, sa_writes = {}\<rparr>"

definition extend_access_set :: "state_access_set \<Rightarrow> state_access_set \<Rightarrow> state_access_set" where
  "extend_access_set target src =
     target\<lparr>sa_reads := sa_reads target \<union> sa_reads src, sa_writes := sa_writes target \<union> sa_writes src\<rparr>"

fun apply_batches_loop ::
  "tx_env \<Rightarrow> nat \<Rightarrow> nat list \<Rightarrow> state_access_set \<Rightarrow> (nat \<times> change_set) list \<Rightarrow> nat list list" where
  "apply_batches_loop e cap current current_access [] = (if current \<noteq> [] then [current] else [])"
| "apply_batches_loop e cap current current_access ((index, cs) # rest) =
     (let access = deterministic_access_set e cs;
          batch_full = length current \<ge> cap;
          has_dependency = (current \<noteq> [] \<and> conflicts_with access current_access)
      in if current \<noteq> [] \<and> (batch_full \<or> has_dependency)
         then current # apply_batches_loop e cap [index] (extend_access_set access_default access) rest
         else apply_batches_loop e cap (current @ [index]) (extend_access_set current_access access) rest)"

definition schedule_dependency_aware_apply_batches ::
  "tx_env \<Rightarrow> (string \<rightharpoonup> string) \<Rightarrow> change_set list \<Rightarrow> nat list list" where
  "schedule_dependency_aware_apply_batches e vars changesets =
     (if changesets = [] then []
      else if \<not> dependency_apply_scheduler_enabled vars then [[0..<length changesets]]
      else apply_batches_loop e (dependency_apply_batch_cap vars) [] access_default (List.enumerate 0 changesets))"

text \<open>The change set of a batch: the only one, or all merged in order.\<close>

definition batch_changeset :: "change_set list \<Rightarrow> nat list \<Rightarrow> change_set option" where
  "batch_changeset changesets indices =
     (case indices of
        [] \<Rightarrow> None
      | [index] \<Rightarrow> Some (changesets ! index)
      | _ \<Rightarrow> Some (fold (\<lambda>index. cs_merge_from (changesets ! index)) indices changeset_new))"

section \<open>Trusting conflict keys\<close>

fun reserve_all :: "tx_env \<Rightarrow> string set \<Rightarrow> signed_transaction list \<Rightarrow> bool" where
  "reserve_all e reserved [] = True"
| "reserve_all e reserved (st # sts) =
     (if \<not> is_owned_fast_path_eligible st then False
      else let conflict_keys = sort_dedup (get_conflict_keys e (st_transaction st))
        in if conflict_keys = [] \<or> list_ex (\<lambda>k. k \<in> reserved) conflict_keys then False
           else reserve_all e (reserved \<union> set conflict_keys) sts)"

definition native_only_changeset :: "change_set \<Rightarrow> bool" where
  "native_only_changeset cs \<longleftrightarrow>
     cs_success cs \<and> cs_events cs = [] \<and> treasuries cs = [] \<and> nft_caps cs = [] \<and> token_balance_sets cs = [] \<and>
     shared_inputs cs = [] \<and> immutable_inputs cs = [] \<and> deleted_objects cs = [] \<and> added_dynamic_fields cs = [] \<and>
     removed_dynamic_fields cs = [] \<and> move_writes cs = [] \<and> resolver_reads cs = {}"

definition can_trust_owned_native_conflict_keys ::
  "tx_env \<Rightarrow> signed_transaction list \<Rightarrow> change_set list \<Rightarrow> bool" where
  "can_trust_owned_native_conflict_keys e transactions changesets \<longleftrightarrow>
     length transactions = length changesets \<and> reserve_all e {} transactions \<and>
     list_all native_only_changeset changesets"

end
