(* ===== verification/Scheduling_Correct.thy ===== *)
theory Scheduling_Correct
  imports Scheduling Transaction_Correct Address
begin

text \<open>
  Waves and batches are greedy groupings: one interface for both loops, interpreted on each. What the
  access sets cover, what change sets conserve and what effects report.
\<close>

section \<open>Greedy grouping\<close>

text \<open>
  The interface of a loop that collects items into a current group and closes the group when it is full
  or when the next item hits what the group has accumulated.
\<close>

locale greedy_groups =
  fixes run :: "'b list \<Rightarrow> 's \<Rightarrow> 'a list \<Rightarrow> 'b list list" and start :: 's and add :: "'a \<Rightarrow> 's \<Rightarrow> 's"
    and hit :: "'a \<Rightarrow> 's \<Rightarrow> bool" and clash :: "'a \<Rightarrow> 'a \<Rightarrow> bool" and out :: "'a \<Rightarrow> 'b" and cap :: nat
  assumes run_Nil: "run cur acc [] = (if cur \<noteq> [] then [cur] else [])"
    and run_Cons: "run cur acc (x # xs) =
      (if cur \<noteq> [] \<and> (length cur \<ge> cap \<or> hit x acc) then cur # run [out x] (add x start) xs
       else run (cur @ [out x]) (add x acc) xs)"
    and hit_iff: "hit x (fold add ys start) \<longleftrightarrow> (\<exists>y \<in> set ys. clash y x)"
    and cap_pos: "0 < cap"
begin

definition good_group :: "'a list \<Rightarrow> bool" where
  "good_group g \<longleftrightarrow> g \<noteq> [] \<and> length g \<le> cap \<and> sorted_wrt (\<lambda>a b. \<not> clash a b) g"

definition needed :: "'a list \<Rightarrow> 'a list \<Rightarrow> bool" where
  "needed g h \<longleftrightarrow> cap \<le> length g \<or> (\<exists>a \<in> set g. clash a (hd h))"

lemma run_groups:
  assumes "length ys \<le> cap" "sorted_wrt (\<lambda>a b. \<not> clash a b) ys"
  shows "\<exists>gs. run (map out ys) (fold add ys start) xs = map (map out) gs \<and> concat gs = ys @ xs \<and>
    list_all good_group gs \<and> successively needed gs"
  using assms
proof (induction xs arbitrary: ys)
  case Nil
  show ?case
  proof (cases "ys = []")
    case True
    then show ?thesis by (intro exI [of _ "[]"]) (simp add: run_Nil)
  next
    case False
    then show ?thesis using Nil by (intro exI [of _ "[ys]"]) (simp add: run_Nil good_group_def)
  qed
next
  case (Cons x xs)
  show ?case
  proof (cases "ys \<noteq> [] \<and> (length ys \<ge> cap \<or> hit x (fold add ys start))")
    case True
    have "length [x] \<le> cap" "sorted_wrt (\<lambda>a b. \<not> clash a b) [x]" using cap_pos by simp_all
    then obtain gs where gs: "run (map out [x]) (fold add [x] start) xs = map (map out) gs" "concat gs = [x] @ xs"
      "list_all good_group gs" "successively needed gs"
      using Cons.IH [of "[x]"] by blast
    then obtain h hs where h: "gs = h # hs" by (cases gs) auto
    have "hd h = x" using gs(2,3) by (cases h) (simp_all add: h good_group_def)
    then have "needed ys h" using True unfolding needed_def hit_iff by blast
    then have "list_all good_group (ys # gs)" "successively needed (ys # gs)"
      using gs(3,4) h True Cons.prems by (simp_all add: good_group_def)
    moreover have "run (map out ys) (fold add ys start) (x # xs) = map (map out) (ys # gs)"
      using True gs(1) by (simp add: run_Cons)
    ultimately show ?thesis using gs(2) by (intro exI [of _ "ys # gs"]) simp
  next
    case False
    have nc: "\<forall>y\<in>set ys. \<not> clash y x"
    proof (cases "ys = []")
      case ne: False
      then show ?thesis using False unfolding hit_iff by blast
    qed simp
    have "length (ys @ [x]) \<le> cap" using False cap_pos by (cases "ys = []") simp_all
    with nc have "\<exists>gs. run (map out (ys @ [x])) (fold add (ys @ [x]) start) xs = map (map out) gs \<and>
        concat gs = (ys @ [x]) @ xs \<and> list_all good_group gs \<and> successively needed gs"
      using Cons.prems(2) by (intro Cons.IH) (simp_all add: sorted_wrt_append)
    moreover have "run (map out ys) (fold add ys start) (x # xs) = run (map out (ys @ [x])) (fold add (ys @ [x]) start) xs"
      using False by (auto simp: run_Cons)
    ultimately show ?thesis by simp
  qed
qed

lemma run_from_start:
  "\<exists>gs. run [] start xs = map (map out) gs \<and> concat gs = xs \<and>
     list_all (\<lambda>g. g \<noteq> [] \<and> length g \<le> cap \<and> sorted_wrt (\<lambda>a b. \<not> clash a b) g) gs \<and>
     successively (\<lambda>g h. cap \<le> length g \<or> (\<exists>a \<in> set g. clash a (hd h))) gs"
proof -
  have "length ([] :: 'a list) \<le> cap" "sorted_wrt (\<lambda>a b. \<not> clash a b) []" by simp_all
  note g = run_groups [OF this, of xs, unfolded good_group_def [abs_def] needed_def [abs_def]]
  then show ?thesis by (simp only: list.map fold_simps append_Nil)
qed

end

lemma waves_hit:
  "(\<exists>k \<in> set (get_conflict_keys e (st_transaction x)).
      k \<in> fold (\<lambda>st reserved. reserved \<union> set (get_conflict_keys e (st_transaction st))) ys {}) \<longleftrightarrow>
   (\<exists>y \<in> set ys. set (get_conflict_keys e (st_transaction y)) \<inter> set (get_conflict_keys e (st_transaction x)) \<noteq> {})"
proof -
  have "fold (\<lambda>st reserved. reserved \<union> set (get_conflict_keys e (st_transaction st))) ys R =
      R \<union> (\<Union>y \<in> set ys. set (get_conflict_keys e (st_transaction y)))" for R
    by (induction ys arbitrary: R) auto
  then show ?thesis by auto
qed

interpretation waves: greedy_groups "schedule_loop e" "{}"
  "\<lambda>st reserved. reserved \<union> set (get_conflict_keys e (st_transaction st))"
  "\<lambda>st reserved. \<exists>k \<in> set (get_conflict_keys e (st_transaction st)). k \<in> reserved"
  "\<lambda>a b. set (get_conflict_keys e (st_transaction a)) \<inter> set (get_conflict_keys e (st_transaction b)) \<noteq> {}"
  "\<lambda>st. st" MAX_SPECULATIVE_WAVE_SIZE for e
  by unfold_locales (simp_all add: Let_def waves_hit MAX_SPECULATIVE_WAVE_SIZE_def)

lemma conflicts_with_sym: "conflicts_with a b \<longleftrightarrow> conflicts_with b a"
  by (auto simp: conflicts_with_def)

lemma batches_hit:
  "conflicts_with (acc x) (fold (\<lambda>y s. extend_access_set s (acc y)) ys access_default) \<longleftrightarrow>
   (\<exists>y \<in> set ys. conflicts_with (acc y) (acc x))"
proof -
  have "fold (\<lambda>y s. extend_access_set s (acc y)) ys s =
      s\<lparr>sa_reads := sa_reads s \<union> (\<Union>y \<in> set ys. sa_reads (acc y)), sa_writes := sa_writes s \<union> (\<Union>y \<in> set ys. sa_writes (acc y))\<rparr>" for s
    by (induction ys arbitrary: s) (simp_all add: extend_access_set_def Un_assoc)
  then show ?thesis by (auto simp: conflicts_with_def access_default_def)
qed

lemma batch_cap_positive: "0 < dependency_apply_batch_cap vars"
  by (auto simp: dependency_apply_batch_cap_def positive_setting_def split: option.splits)

interpretation batches: greedy_groups "apply_batches_loop e (dependency_apply_batch_cap vars)" access_default
  "\<lambda>x s. extend_access_set s (deterministic_access_set e (snd x))"
  "\<lambda>x s. conflicts_with (deterministic_access_set e (snd x)) s"
  "\<lambda>a b. conflicts_with (deterministic_access_set e (snd a)) (deterministic_access_set e (snd b))"
  fst "dependency_apply_batch_cap vars" for e vars
proof unfold_locales
  show "apply_batches_loop e (dependency_apply_batch_cap vars) cur acc (x # xs) =
    (if cur \<noteq> [] \<and> (dependency_apply_batch_cap vars \<le> length cur \<or> conflicts_with (deterministic_access_set e (snd x)) acc)
     then cur # apply_batches_loop e (dependency_apply_batch_cap vars) [fst x]
       (extend_access_set access_default (deterministic_access_set e (snd x))) xs
     else apply_batches_loop e (dependency_apply_batch_cap vars) (cur @ [fst x])
       (extend_access_set acc (deterministic_access_set e (snd x))) xs)" for cur acc x xs
    by (cases x) (auto simp: Let_def)
qed (simp_all add: batches_hit [of "\<lambda>x. deterministic_access_set e (snd x)"] batch_cap_positive)

lemma successively_imp:
  "successively P xs \<Longrightarrow> (\<And>x y. x \<in> set xs \<Longrightarrow> y \<in> set xs \<Longrightarrow> P x y \<Longrightarrow> Q x y) \<Longrightarrow> successively Q xs"
  by (induction xs rule: induct_list012) auto

text \<open>Groups of indexed items, read as groups of indices.\<close>

lemma index_groups:
  assumes c: "concat gs = List.enumerate 0 xs"
    and g: "list_all (\<lambda>g. g \<noteq> [] \<and> length g \<le> cap \<and> sorted_wrt (\<lambda>p q. \<not> R (snd p) (snd q)) g) gs"
    and n: "successively (\<lambda>g h. cap \<le> length g \<or> (\<exists>a \<in> set g. R (snd a) (snd (hd h)))) gs"
  shows "concat (map (map fst) gs) = [0..<length xs]" "[] \<notin> set (map (map fst) gs)"
    and "list_all (\<lambda>b. length b \<le> cap \<and> sorted_wrt (\<lambda>i j. \<not> R (xs ! i) (xs ! j)) b) (map (map fst) gs)"
    and "successively (\<lambda>b c. cap \<le> length b \<or> (\<exists>i \<in> set b. R (xs ! i) (xs ! hd c))) (map (map fst) gs)"
proof -
  have m: "xs ! fst p = snd p" if "h \<in> set gs" "p \<in> set h" for h p
  proof -
    have "p \<in> set (concat gs)" using that by auto
    then have "p \<in> set (List.enumerate 0 xs)" by (simp only: c)
    then show ?thesis by (simp add: in_set_enumerate_eq)
  qed
  have good: "h \<noteq> []" "length h \<le> cap" "sorted_wrt (\<lambda>p q. \<not> R (snd p) (snd q)) h" if "h \<in> set gs" for h
    using g that by (simp_all add: list_all_iff)
  show "concat (map (map fst) gs) = [0..<length xs]"
    using arg_cong [OF c, of "map fst"] by (simp add: map_concat)
  show "[] \<notin> set (map (map fst) gs)" using good(1) by auto
  have "sorted_wrt (\<lambda>p q. \<not> R (xs ! fst p) (xs ! fst q)) h" if "h \<in> set gs" for h
    by (rule sorted_wrt_mono_rel [OF _ good(3) [OF that]]) (simp add: m [OF that])
  then show "list_all (\<lambda>b. length b \<le> cap \<and> sorted_wrt (\<lambda>i j. \<not> R (xs ! i) (xs ! j)) b) (map (map fst) gs)"
    using good(2) by (simp add: list_all_iff sorted_wrt_map)
  have "cap \<le> length h \<or> (\<exists>a \<in> set h. R (xs ! fst a) (xs ! hd (map fst k)))"
    if "h \<in> set gs" "k \<in> set gs" "cap \<le> length h \<or> (\<exists>a \<in> set h. R (snd a) (snd (hd k)))" for h k
  proof -
    have "hd k \<in> set k" using good(1) [OF that(2)] by simp
    then have "xs ! hd (map fst k) = snd (hd k)" using m [OF that(2)] good(1) [OF that(2)] by (simp add: hd_map)
    then show ?thesis using that(3) m [OF that(1)] by auto
  qed
  then have "successively (\<lambda>h k. cap \<le> length h \<or> (\<exists>a \<in> set h. R (xs ! fst a) (xs ! hd (map fst k)))) gs"
    by (rule successively_imp [OF n])
  then show "successively (\<lambda>b c. cap \<le> length b \<or> (\<exists>i \<in> set b. R (xs ! i) (xs ! hd c))) (map (map fst) gs)"
    by (simp add: successively_map)
qed

section \<open>Properties of the groupings\<close>

text \<open>
  C36: the speculative waves are a correct schedule. Concatenated they are the transactions in order;
  every wave holds between one and 64 transactions with pairwise disjoint conflict keys; and a wave is
  closed only when it is full or its successor's first transaction conflicts with a member.
\<close>

theorem waves_correct:
  "let waves = schedule e transactions;
       keys = (\<lambda>st. set (get_conflict_keys e (st_transaction st)))
   in concat waves = transactions \<and>
      list_all (\<lambda>w. w \<noteq> [] \<and> length w \<le> 64 \<and> sorted_wrt (\<lambda>a b. keys a \<inter> keys b = {}) w) waves \<and>
      successively (\<lambda>v w. 64 \<le> length v \<or> (\<exists>a \<in> set v. keys a \<inter> keys (hd w) \<noteq> {})) waves"
  using waves.run_from_start [of e transactions]
  unfolding Let_def schedule_def MAX_SPECULATIVE_WAVE_SIZE_def by auto

text \<open>
  C35: the apply batches are a correct schedule. They enumerate the change sets in order, none is empty,
  and with the scheduler enabled each holds at most the configured cap of change sets whose access sets
  do not conflict, and is closed only when it is full or the next change set conflicts with a member.
  The cap is never zero.
\<close>

theorem apply_batches_correct:
  "let batches = schedule_dependency_aware_apply_batches e vars changesets;
       access = (\<lambda>i. deterministic_access_set e (changesets ! i))
   in concat batches = [0..<length changesets] \<and> [] \<notin> set batches \<and> 0 < dependency_apply_batch_cap vars \<and>
      (dependency_apply_scheduler_enabled vars \<longrightarrow>
         list_all (\<lambda>b. length b \<le> dependency_apply_batch_cap vars \<and>
           sorted_wrt (\<lambda>i j. \<not> conflicts_with (access i) (access j)) b) batches \<and>
         successively (\<lambda>b c. dependency_apply_batch_cap vars \<le> length b \<or>
           (\<exists>i \<in> set b. conflicts_with (access i) (access (hd c)))) batches)"
proof (cases "changesets = [] \<or> \<not> dependency_apply_scheduler_enabled vars")
  case True
  moreover have "[] \<noteq> [0..<length changesets]" if "changesets \<noteq> []" using that by (metis length_0_conv length_upt diff_zero)
  ultimately show ?thesis
    by (auto simp: schedule_dependency_aware_apply_batches_def batch_cap_positive Let_def)
next
  case False
  let ?R = "\<lambda>a b. conflicts_with (deterministic_access_set e a) (deterministic_access_set e b)"
  obtain gs where gs: "apply_batches_loop e (dependency_apply_batch_cap vars) [] access_default (List.enumerate 0 changesets) =
      map (map fst) gs" "concat gs = List.enumerate 0 changesets"
    "list_all (\<lambda>g. g \<noteq> [] \<and> length g \<le> dependency_apply_batch_cap vars \<and> sorted_wrt (\<lambda>p q. \<not> ?R (snd p) (snd q)) g) gs"
    "successively (\<lambda>g h. dependency_apply_batch_cap vars \<le> length g \<or> (\<exists>a \<in> set g. ?R (snd a) (snd (hd h)))) gs"
    using batches.run_from_start [of e vars "List.enumerate 0 changesets"] by (elim exE conjE) (rule that)
  have b: "schedule_dependency_aware_apply_batches e vars changesets = map (map fst) gs"
    using False gs(1) by (simp add: schedule_dependency_aware_apply_batches_def)
  show ?thesis
    unfolding Let_def b using index_groups [OF gs(2,3,4)] batch_cap_positive [of vars] by (intro conjI impI)
qed

end
