(* ===== verification/Change_Set_Correct.thy ===== *)
theory Change_Set_Correct
  imports Change_Set Scheduling_Correct "HOL-Library.Multiset"
begin

text \<open>
  What the access sets of change sets cover, what change sets conserve under their operations and under
  merging, and what the effects they report say about the objects.
\<close>

section \<open>Access sets\<close>

















section \<open>Causal links\<close>

fun change_verb :: "object_change_kind \<Rightarrow> string" where
  "change_verb ChangeCreated = ''Create''"
| "change_verb ChangeMutated = ''Mutate''"
| "change_verb ChangeDeleted = ''Delete''"
| "change_verb ChangeTransferred = ''Transfer''"

text \<open>The links between objects that a transaction with these inputs, gas objects and changes gives rise to.\<close>

inductive causal_link :: "change_set \<Rightarrow> object_change list \<Rightarrow> object_ref \<Rightarrow> object_ref \<Rightarrow> string \<Rightarrow> bool"
  for cs changes where
  successor: "c \<in> set changes \<Longrightarrow> oc_previous_object_ref c = Some p \<Longrightarrow> oc_change_type c \<noteq> ChangeDeleted \<Longrightarrow>
    causal_link cs changes p (oc_object_ref c) ''VersionSuccessor''"
| deletion: "c \<in> set changes \<Longrightarrow> oc_previous_object_ref c = Some p \<Longrightarrow> oc_change_type c = ChangeDeleted \<Longrightarrow>
    causal_link cs changes p (oc_object_ref c) ''Delete''"
| transfer: "c \<in> set changes \<Longrightarrow> oc_previous_object_ref c = Some p \<Longrightarrow> oc_change_type c = ChangeTransferred \<Longrightarrow>
    oc_previous_owner c \<noteq> oc_owner c \<Longrightarrow> causal_link cs changes p (oc_object_ref c) ''OwnershipTransfer''"
| input: "c \<in> set changes \<Longrightarrow> i \<in> set (input_objects cs) \<Longrightarrow>
    causal_link cs changes (oi_object_ref i) (oc_object_ref c) (''Input'' @ change_verb (oc_change_type c))"
| shared: "c \<in> set changes \<Longrightarrow> r \<in> set (shared_inputs cs) \<Longrightarrow>
    causal_link cs changes r (oc_object_ref c) (''SharedInput'' @ change_verb (oc_change_type c))"
| immutable: "c \<in> set changes \<Longrightarrow> r \<in> set (immutable_inputs cs) \<Longrightarrow>
    causal_link cs changes r (oc_object_ref c) (''ImmutableInput'' @ change_verb (oc_change_type c))"
| gas: "c \<in> set changes \<Longrightarrow> r \<in> set (gas_object_refs cs) \<Longrightarrow>
    causal_link cs changes r (oc_object_ref c) (''Gas'' @ change_verb (oc_change_type c))"
| call: "c \<in> set changes \<Longrightarrow> r \<in> set (gas_object_refs cs) \<Longrightarrow> oc_change_type c = ChangeCreated \<Longrightarrow>
    causal_link cs changes r (oc_object_ref c) ''CallContextCreate''"
| gas_input: "r \<in> set (gas_object_refs cs) \<Longrightarrow>
    t \<in> oi_object_ref ` set (input_objects cs) \<union> set (shared_inputs cs) \<union> set (immutable_inputs cs) \<Longrightarrow>
    causal_link cs changes r t ''GasMutate''"

lemma edge_kind_debug_eq [simp]: "edge_kind_debug k = edge_kind_debug k' \<longleftrightarrow> k = k'"
  by (cases k; cases k') simp_all

lemma edge_relation_debug [simp]:
  "edge_kind_debug (input_edge_relation k) = ''Input'' @ change_verb k"
  "edge_kind_debug (shared_input_edge_relation k) = ''SharedInput'' @ change_verb k"
  "edge_kind_debug (immutable_input_edge_relation k) = ''ImmutableInput'' @ change_verb k"
  "edge_kind_debug (gas_edge_relation k) = ''Gas'' @ change_verb k"
  by (cases k; simp)+

definition edge_text :: "object_graph_edge \<Rightarrow> object_ref \<times> object_ref \<times> string" where
  "edge_text d = (source_object_ref d, target_object_ref d, edge_kind_debug (edge_relation d))"

lemma edge_text_eq: "edge_text d = edge_text d' \<longleftrightarrow> d = d'"
  by (auto simp: edge_text_def intro: object_graph_edge.equality)

lemma edge_text_graph_edge: "edge_text (graph_edge a b k) = (a, b, edge_kind_debug k)"
  by (simp add: edge_text_def graph_edge_def)

definition raw_edges :: "change_set \<Rightarrow> object_change list \<Rightarrow> object_graph_edge list" where
  "raw_edges cs changes = concat (map (change_edges cs) changes) @ gas_input_edges cs"

lemma change_edges_link:
  assumes "c \<in> set changes" "d \<in> set (change_edges cs c)" "edge_text d = (a, b, k)"
  shows "causal_link cs changes a b k"
  using assms(2,3) causal_link.intros(1-8) [OF assms(1), of _ cs]
  by (auto simp: change_edges_def Let_def edge_text_graph_edge split: option.splits if_splits)

lemma gas_input_edges_link:
  assumes "d \<in> set (gas_input_edges cs)" "edge_text d = (a, b, k)"
  shows "causal_link cs changes a b k"
  using assms by (auto simp: gas_input_edges_def edge_text_graph_edge intro!: causal_link.gas_input)

lemma link_raw_edges:
  assumes "causal_link cs changes a b k"
  shows "(a, b, k) \<in> edge_text ` set (raw_edges cs changes)"
proof -
  have change: "(a, b, k) \<in> edge_text ` set (raw_edges cs changes)"
    if "c \<in> set changes" "(a, b, k) \<in> edge_text ` set (change_edges cs c)" for c
    using that by (auto simp: raw_edges_def)
  note defs = change_edges_def Let_def image_Un image_image edge_text_graph_edge
  from assms show ?thesis
  proof cases
    case (gas_input)
    then show ?thesis
      by (auto simp: raw_edges_def gas_input_edges_def image_Un image_UN image_image edge_text_graph_edge)
  qed (rule change, assumption, force simp: defs image_UN)+
qed

lemma raw_edges_iff:
  "d \<in> set (raw_edges cs changes) \<longleftrightarrow>
   causal_link cs changes (source_object_ref d) (target_object_ref d) (edge_kind_debug (edge_relation d))"
proof
  assume "d \<in> set (raw_edges cs changes)"
  then show "causal_link cs changes (source_object_ref d) (target_object_ref d) (edge_kind_debug (edge_relation d))"
    using change_edges_link gas_input_edges_link by (auto simp: raw_edges_def edge_text_def)
next
  assume "causal_link cs changes (source_object_ref d) (target_object_ref d) (edge_kind_debug (edge_relation d))"
  from link_raw_edges [OF this] have "edge_text d \<in> edge_text ` set (raw_edges cs changes)" by (simp add: edge_text_def)
  then show "d \<in> set (raw_edges cs changes)" by (auto simp: edge_text_eq)
qed

lemma kinds_partition:
  "mset xs = mset (filter (\<lambda>c. oc_change_type c = ChangeCreated) xs) + mset (filter (\<lambda>c. oc_change_type c = ChangeMutated) xs)
      + mset (filter (\<lambda>c. oc_change_type c = ChangeDeleted) xs) + mset (filter (\<lambda>c. oc_change_type c = ChangeTransferred) xs)"
proof (induction xs)
  case (Cons c xs)
  then show ?case by (cases "oc_change_type c") simp_all
qed simp

section \<open>Conservation\<close>

definition total_delta :: "change_set \<Rightarrow> int" where
  "total_delta cs = sum_list (map (od_balance_delta \<circ> snd) (owner_deltas cs))"

definition delta_of :: "change_set \<Rightarrow> account_address \<Rightarrow> int" where
  "delta_of cs a = (case map_of (owner_deltas cs) a of None \<Rightarrow> 0 | Some d \<Rightarrow> od_balance_delta d)"

definition deltas_within :: "int \<Rightarrow> change_set \<Rightarrow> bool" where
  "deltas_within v cs \<longleftrightarrow> btree_invar (owner_deltas cs) \<and> (\<forall>a. \<bar>delta_of cs a\<bar> \<le> v)"

text \<open>
  A change set that was built by its operations: the amounts minted (gas included) and burned, and the
  volume moved, which bounds every delta.
\<close>

inductive cs_reach :: "change_set \<Rightarrow> int \<Rightarrow> int \<Rightarrow> int \<Rightarrow> bool" where
  start: "cs_reach changeset_new 0 0 0"
| transfer: "cs_reach cs m b v \<Longrightarrow> cs_reach (cs_transfer f t amount cs) m b (v + 2 * uint amount)"
| mint: "cs_reach cs m b v \<Longrightarrow> cs_reach (cs_mint t amount cs) (m + uint amount) b (v + uint amount)"
| burn: "cs_reach cs m b v \<Longrightarrow> cs_reach (cs_burn f amount cs) m (b + uint amount) (v + uint amount)"
| gas: "cs_reach cs m b v \<Longrightarrow> cs_reach (collect_gas dao amount cs) (m + uint amount) b (v + uint amount)"
| publish: "cs_reach cs m b v \<Longrightarrow> cs_reach (cs_publish_module p name cs) m b v"
| other: "cs_reach cs m b v \<Longrightarrow> owner_deltas cs' = owner_deltas cs \<Longrightarrow> cs_reach cs' m b v"
| merge: "cs_reach cs m b v \<Longrightarrow> cs_reach other m' b' v' \<Longrightarrow> cs_reach (cs_merge other cs) (m + m') (b + b') (v + v')"

lemma sum_btree_insert:
  fixes f :: "'v \<Rightarrow> int"
  assumes "btree_invar xs"
  shows "sum_list (map (f \<circ> snd) (btree_insert k v xs)) =
    sum_list (map (f \<circ> snd) xs) - (case map_of xs k of None \<Rightarrow> 0 | Some w \<Rightarrow> f w) + f v"
  using assms
proof (induction k v xs rule: btree_insert.induct)
  case (2 k v k' v' xs)
  have "map_of xs k = None" if "k < k'"
    using 2(2) that by (auto simp: btree_invar_def map_of_eq_None_iff)
  moreover have "btree_invar xs" using 2(2) by (simp add: btree_invar_def)
  ultimately show ?case using 2 by (auto split: option.splits)
qed simp

lemma get_or_create_delta:
  assumes inv: "btree_invar (owner_deltas cs)"
    and f: "od_balance_delta (f (case map_of (owner_deltas cs) a of None \<Rightarrow> owner_delta_new a | Some d \<Rightarrow> d)) = delta_of cs a + x"
  shows "btree_invar (owner_deltas (get_or_create_owner_delta a f cs))"
    and "total_delta (get_or_create_owner_delta a f cs) = total_delta cs + x"
    and "delta_of (get_or_create_owner_delta a f cs) c = delta_of cs c + (if c = a then x else 0)"
proof -
  show "btree_invar (owner_deltas (get_or_create_owner_delta a f cs))"
    using btree_invar_insert [OF inv] by (simp add: get_or_create_owner_delta_def)
  show "total_delta (get_or_create_owner_delta a f cs) = total_delta cs + x"
    using sum_btree_insert [OF inv, of od_balance_delta a] f
    by (simp add: get_or_create_owner_delta_def total_delta_def delta_of_def)
  show "delta_of (get_or_create_owner_delta a f cs) c = delta_of cs c + (if c = a then x else 0)"
    using f by (auto simp: get_or_create_owner_delta_def delta_of_def map_of_btree_insert)
qed

lemma entry_delta:
  "od_balance_delta (case map_of (owner_deltas cs) a of None \<Rightarrow> owner_delta_new a | Some d \<Rightarrow> d) = delta_of cs a"
  by (simp add: delta_of_def owner_delta_new_def split: option.split)

lemma shifted_delta:
  assumes "deltas_within v cs" "\<bar>x\<bar> \<le> w" "v + w < 2 ^ 127"
  shows "i128 (delta_of cs a + x) = delta_of cs a + x"
  using assms by (intro i128_exact) (auto simp: deltas_within_def abs_le_iff dest!: spec [of _ a])

lemma shift_within:
  assumes "deltas_within v cs" "\<bar>x\<bar> \<le> w" "v + w < 2 ^ 127"
    and f: "\<And>d. od_balance_delta (f d) = i128 (od_balance_delta d + x)"
  shows "total_delta (get_or_create_owner_delta a f cs) = total_delta cs + x"
    and "deltas_within (v + w) (get_or_create_owner_delta a f cs)"
proof -
  have inv: "btree_invar (owner_deltas cs)" and v: "\<bar>delta_of cs c\<bar> \<le> v" for c
    using assms(1) by (simp_all add: deltas_within_def)
  have e: "od_balance_delta (f (case map_of (owner_deltas cs) a of None \<Rightarrow> owner_delta_new a | Some d \<Rightarrow> d)) = delta_of cs a + x"
    unfolding f entry_delta by (rule shifted_delta [OF assms(1-3)])
  note g = get_or_create_delta [where f = f, OF inv e]
  show "total_delta (get_or_create_owner_delta a f cs) = total_delta cs + x" by (rule g)
  have "\<bar>delta_of cs c + (if c = a then x else 0)\<bar> \<le> v + w" for c using v [of c] assms(2) by auto
  then show "deltas_within (v + w) (get_or_create_owner_delta a f cs)"
    using g(1,3) by (simp add: deltas_within_def)
qed

lemma i128_saturating_add_exact: "\<bar>x + y\<bar> < 2 ^ 127 \<Longrightarrow> i128_saturating_add x y = x + y"
  by (simp add: i128_saturating_add_def abs_less_iff)

lemma fold_merge_owner_deltas:
  assumes "distinct (map fst ds)" "btree_invar (owner_deltas cs)"
    and "\<And>a d. (a, d) \<in> set ds \<Longrightarrow> \<bar>delta_of cs a + od_balance_delta d\<bar> < 2 ^ 127"
  shows "btree_invar (owner_deltas (fold merge_owner_delta ds cs)) \<and>
    total_delta (fold merge_owner_delta ds cs) = total_delta cs + sum_list (map (od_balance_delta \<circ> snd) ds) \<and>
    (\<forall>c. delta_of (fold merge_owner_delta ds cs) c =
       delta_of cs c + (case map_of ds c of None \<Rightarrow> 0 | Some d \<Rightarrow> od_balance_delta d))"
  using assms
proof (induction ds arbitrary: cs)
  case (Cons p ds)
  obtain a d where p: "p = (a, d)" by (cases p)
  let ?cs = "merge_owner_delta p cs"
  have "od_balance_delta d + delta_of cs a = delta_of cs a + od_balance_delta d" by simp
  have b: "\<bar>delta_of cs a + od_balance_delta d\<bar> < 2 ^ 127" using Cons.prems(3) p by simp
  let ?f = "\<lambda>existing. existing\<lparr>od_balance_delta := i128_saturating_add (od_balance_delta existing) (od_balance_delta d),
      od_modules_added := od_modules_added existing \<union> od_modules_added d\<rparr>"
  have m: "?cs = get_or_create_owner_delta a ?f cs" by (simp add: p merge_owner_delta_def)
  have e: "od_balance_delta (?f (case map_of (owner_deltas cs) a of None \<Rightarrow> owner_delta_new a | Some d \<Rightarrow> d)) =
      delta_of cs a + od_balance_delta d"
    by (simp add: entry_delta i128_saturating_add_exact [OF b])
  note g = get_or_create_delta [where f = ?f, OF Cons.prems(2) e, folded m]
  have na: "map_of ds a = None" using Cons.prems(1) p by (simp add: map_of_eq_None_iff)
  have "\<bar>delta_of ?cs c + od_balance_delta d'\<bar> < 2 ^ 127" if "(c, d') \<in> set ds" for c d'
  proof -
    have "c \<noteq> a" using that Cons.prems(1) p by force
    then show ?thesis using Cons.prems(3) [of c d'] that g(3) [of c] by simp
  qed
  then have "btree_invar (owner_deltas (fold merge_owner_delta ds ?cs)) \<and>
    total_delta (fold merge_owner_delta ds ?cs) = total_delta ?cs + sum_list (map (od_balance_delta \<circ> snd) ds) \<and>
    (\<forall>c. delta_of (fold merge_owner_delta ds ?cs) c =
       delta_of ?cs c + (case map_of ds c of None \<Rightarrow> 0 | Some d \<Rightarrow> od_balance_delta d))"
    using Cons.prems(1) g(1) by (intro Cons.IH) simp_all
  then show ?case using g(2,3) na p by (auto simp: comp_def split: option.splits)
qed simp

lemma owner_deltas_merge: "owner_deltas (cs_merge other cs) = owner_deltas (fold merge_owner_delta (owner_deltas other) cs)"
proof -
  have "owner_deltas (fold (\<lambda>(owner, token_type, amount). add_token_balance_set owner token_type (bal_value amount)) bs c) =
      owner_deltas c" for bs :: "(account_address \<times> string \<times> balance_record) list" and c
    by (induction bs arbitrary: c) (auto simp: add_token_balance_set_def)
  then show ?thesis by (simp add: cs_merge_def Let_def)
qed

lemma total_delta_cong: "owner_deltas cs' = owner_deltas cs \<Longrightarrow> total_delta cs' = total_delta cs"
  and deltas_within_cong: "owner_deltas cs' = owner_deltas cs \<Longrightarrow> deltas_within v cs' = deltas_within v cs"
  by (simp_all add: total_delta_def deltas_within_def delta_of_def)

lemma merge_within:
  assumes "deltas_within v cs" "deltas_within v' other" "v + v' < 2 ^ 127"
  shows "total_delta (cs_merge other cs) = total_delta cs + total_delta other" "deltas_within (v + v') (cs_merge other cs)"
proof -
  let ?m = "fold merge_owner_delta (owner_deltas other) cs"
  have o: "distinct (map fst (owner_deltas other))" using assms(2) by (simp add: deltas_within_def btree_invar_distinct)
  have d: "map_of (owner_deltas other) a = Some d \<Longrightarrow> delta_of other a = od_balance_delta d" for a d
    by (simp add: delta_of_def)
  have v: "\<bar>delta_of cs a\<bar> \<le> v" "\<bar>delta_of other a\<bar> \<le> v'" for a using assms(1,2) by (simp_all add: deltas_within_def)
  have "\<bar>delta_of cs a + od_balance_delta d\<bar> < 2 ^ 127" if "(a, d) \<in> set (owner_deltas other)" for a d
    using that o d [of a d] v [of a] assms(3) by (simp add: map_of_is_SomeI)
  then have m: "btree_invar (owner_deltas ?m)" "total_delta ?m = total_delta cs + total_delta other"
    "\<And>c. delta_of ?m c = delta_of cs c + delta_of other c"
    using fold_merge_owner_deltas [OF o, of cs] assms(1) unfolding deltas_within_def total_delta_def delta_of_def by blast+
  show "total_delta (cs_merge other cs) = total_delta cs + total_delta other"
    using m(2) total_delta_cong [OF owner_deltas_merge] by simp
  have "\<bar>delta_of cs c + delta_of other c\<bar> \<le> v + v'" for c using v [of c] by linarith
  then have "deltas_within (v + v') ?m" using m(1,3) by (simp add: deltas_within_def)
  then show "deltas_within (v + v') (cs_merge other cs)" using deltas_within_cong [OF owner_deltas_merge] by simp
qed

lemma op_within:
  assumes "deltas_within v cs" "v + uint amount < 2 ^ 127"
  shows "total_delta (get_or_create_owner_delta a (delta_credit amount) cs) = total_delta cs + uint amount"
    "deltas_within (v + uint amount) (get_or_create_owner_delta a (delta_credit amount) cs)"
    "total_delta (get_or_create_owner_delta a (delta_debit amount) cs) = total_delta cs - uint amount"
    "deltas_within (v + uint amount) (get_or_create_owner_delta a (delta_debit amount) cs)"
  using shift_within [OF assms(1) _ assms(2), of "uint amount" "delta_credit amount" a]
    shift_within [OF assms(1) _ assms(2), of "- uint amount" "delta_debit amount" a]
  by (simp_all add: delta_credit_def delta_debit_def)

lemma publish_within:
  assumes "deltas_within v cs" "v < 2 ^ 127"
  shows "total_delta (get_or_create_owner_delta a (add_module name) cs) = total_delta cs"
    "deltas_within v (get_or_create_owner_delta a (add_module name) cs)"
proof -
  have e: "od_balance_delta (add_module name (case map_of (owner_deltas cs) a of None \<Rightarrow> owner_delta_new a | Some d \<Rightarrow> d)) =
      delta_of cs a + 0"
    by (simp add: add_module_def entry_delta)
  have "btree_invar (owner_deltas cs)" using assms(1) by (simp add: deltas_within_def)
  note g = get_or_create_delta [where f = "add_module name", OF this e]
  show "total_delta (get_or_create_owner_delta a (add_module name) cs) = total_delta cs" using g(2) by simp
  show "deltas_within v (get_or_create_owner_delta a (add_module name) cs)" using assms(1) g(1,3) by (simp add: deltas_within_def)
qed

lemma cs_reach_volume: "cs_reach cs m b v \<Longrightarrow> 0 \<le> v"
  by (induction rule: cs_reach.induct) simp_all

lemma cs_reach_conserves:
  assumes "cs_reach cs m b v" "v < 2 ^ 127"
  shows "total_delta cs = m - b \<and> deltas_within v cs"
  using assms
proof (induction rule: cs_reach.induct)
  case start
  show ?case by (simp add: total_delta_def deltas_within_def delta_of_def changeset_new_def with_status_def)
next
  case (transfer cs m b v f t amount)
  have 1: "v + uint amount < 2 ^ 127" "v + uint amount + uint amount < 2 ^ 127"
    using transfer.prems uint_ge_0 [of amount] by linarith+
  have "v < 2 ^ 127" using 1(1) uint_ge_0 [of amount] by linarith
  then have IH: "total_delta cs = m - b" "deltas_within v cs" using transfer.IH by simp_all
  note d = op_within [OF IH(2) 1(1), of f]
  note c = op_within [OF d(4) 1(2), of t]
  show ?case using c(1,2) d(3) IH(1) by (simp add: cs_transfer_def add.assoc)
next
  case (mint cs m b v t amount)
  have "v < 2 ^ 127" using mint.prems uint_ge_0 [of amount] by linarith
  then show ?case using op_within [of v cs amount t] mint.IH mint.prems by (simp add: cs_mint_def)
next
  case (burn cs m b v f amount)
  have "v < 2 ^ 127" using burn.prems uint_ge_0 [of amount] by linarith
  then show ?case using op_within [of v cs amount f] burn.IH burn.prems by (simp add: cs_burn_def)
next
  case (gas cs m b v dao amount)
  have o: "owner_deltas (collect_gas dao amount cs) = owner_deltas (get_or_create_owner_delta dao (delta_credit amount) cs)"
    by (simp add: collect_gas_def Let_def)
  have "v < 2 ^ 127" using gas.prems uint_ge_0 [of amount] by linarith
  then show ?case
    using gas.IH gas.prems op_within [of v cs amount dao] total_delta_cong [OF o] deltas_within_cong [OF o] by simp
next
  case (publish cs m b v p name)
  then show ?case using publish_within [of v cs p name] by (simp add: cs_publish_module_def)
next
  case (other cs m b v cs')
  then show ?case using total_delta_cong [OF other.hyps(2)] deltas_within_cong [OF other.hyps(2)] by simp
next
  case (merge cs m b v other m' b' v')
  have "v < 2 ^ 127" "v' < 2 ^ 127"
    using merge.prems cs_reach_volume [OF merge.hyps(1)] cs_reach_volume [OF merge.hyps(2)] by linarith+
  then show ?case using merge_within [of v cs v' other] merge.IH merge.prems by simp
qed

lemma sorted_wrt_remdups_adj: "sorted_wrt R xs \<Longrightarrow> sorted_wrt R (remdups_adj xs)"
  by (induction xs rule: remdups_adj.induct) auto

section \<open>Properties\<close>


text \<open>
  C37: change sets create no money. For a change set built from the empty one by transfers, mints, burns,
  gas collection, publishing, any recording that leaves the deltas alone, and merging, the balance deltas
  add up to what was minted (collected gas included) minus what was burned, as long as the moved volume
  is below 2^127; in particular transfers and merging conserve the total.
\<close>

theorem changeset_conserves:
  assumes "cs_reach cs minted burned volume" "volume < 2 ^ 127"
  shows "sum_list (map (od_balance_delta \<circ> snd) (owner_deltas cs)) = minted - burned \<and>
    distinct (map fst (owner_deltas cs)) \<and> (\<forall>(a, d) \<in> set (owner_deltas cs). \<bar>od_balance_delta d\<bar> \<le> volume)"
proof -
  have t: "total_delta cs = minted - burned" and w: "deltas_within volume cs" using cs_reach_conserves [OF assms] by simp_all
  have d: "distinct (map fst (owner_deltas cs))" using w by (simp add: deltas_within_def btree_invar_distinct)
  have "\<bar>od_balance_delta x\<bar> \<le> volume" if "(a, x) \<in> set (owner_deltas cs)" for a x
  proof -
    have "delta_of cs a = od_balance_delta x" using d that by (simp add: delta_of_def)
    then show ?thesis using w unfolding deltas_within_def by metis
  qed
  then show ?thesis using t d unfolding total_delta_def by blast
qed

text \<open>
  C38: the effects account for every object change and every cause. The created, mutated, deleted and
  transferred objects partition the object changes, each list holding the changes of its kind; the
  status reflects success; and the links are exactly the causal ones: every input object, shared input,
  immutable input and gas object is linked to every changed object, gas objects to created objects by
  the call and to every input, and a previous version to its successor, its deletion and its transfer to
  another owner. The links come in the order of source, target and kind, with no repetition next to each other.
  The changes are the explicit ones when there are any; otherwise one for each created object (a
  mutation of the previous version when its version is above 1) and one for each deleted object.
\<close>

theorem effects_complete:
  "let eff = effects e gas_payment cs; changes = te_object_changes eff
   in mset changes = mset (te_created eff) + mset (te_mutated eff) + mset (te_deleted eff) + mset (te_transferred eff) \<and>
      oc_change_type ` set (te_created eff) \<subseteq> {ChangeCreated} \<and>
      oc_change_type ` set (te_mutated eff) \<subseteq> {ChangeMutated} \<and>
      oc_change_type ` set (te_deleted eff) \<subseteq> {ChangeDeleted} \<and>
      oc_change_type ` set (te_transferred eff) \<subseteq> {ChangeTransferred} \<and>
      (te_status eff = ''success'') = cs_success cs \<and>
      (\<forall>d. d \<in> set (te_causal_edges eff) \<longleftrightarrow>
         causal_link cs changes (source_object_ref d) (target_object_ref d) (edge_kind_debug (edge_relation d))) \<and>
      sorted (map edge_order (te_causal_edges eff)) \<and> distinct_adj (te_causal_edges eff) \<and>
      (explicit_object_changes cs \<noteq> [] \<longrightarrow> changes = explicit_object_changes cs) \<and>
      (explicit_object_changes cs = [] \<longrightarrow>
         map (\<lambda>c. (or_object_id (oc_object_ref c), oc_change_type c,
                   map_option (\<lambda>p. (or_object_id p, or_version p)) (oc_previous_object_ref c))) changes =
         map (\<lambda>(i, obj). if co_version obj \<le> 1 then (i, ChangeCreated, None)
                         else (i, ChangeMutated, Some (i, Some (co_version obj - 1)))) (created_objects cs)
         @ map (\<lambda>i. (i, ChangeDeleted, None)) (deleted_objects cs))"
proof -
  let ?eff = "effects e gas_payment cs" and ?changes = "object_changes e cs"
  have changes: "te_object_changes ?eff = ?changes" by (simp add: effects_def Let_def)
  have edges: "te_causal_edges ?eff = remdups_adj (sort_key edge_order (raw_edges cs ?changes))"
    by (simp add: effects_def raw_edges_def Let_def)
  have "sorted_wrt (\<lambda>a b. edge_order a \<le> edge_order b) (te_causal_edges ?eff)"
    unfolding edges using sorted_sort_key [of edge_order "raw_edges cs ?changes"]
    by (intro sorted_wrt_remdups_adj) (simp only: sorted_map)
  then have "sorted (map edge_order (te_causal_edges ?eff))" by (simp only: sorted_map)
  have "distinct_adj (te_causal_edges ?eff)" unfolding edges by (rule distinct_adj_remdups_adj)
  have "d \<in> set (te_causal_edges ?eff) \<longleftrightarrow>
      causal_link cs ?changes (source_object_ref d) (target_object_ref d) (edge_kind_debug (edge_relation d))" for d
    by (simp add: edges raw_edges_iff)
  have "mset ?changes = mset (te_created ?eff) + mset (te_mutated ?eff) + mset (te_deleted ?eff) + mset (te_transferred ?eff)"
    using kinds_partition [of ?changes] by (simp add: effects_def Let_def)
  have "oc_change_type ` set (te_created ?eff) \<subseteq> {ChangeCreated}" "oc_change_type ` set (te_mutated ?eff) \<subseteq> {ChangeMutated}"
    "oc_change_type ` set (te_deleted ?eff) \<subseteq> {ChangeDeleted}"
    "oc_change_type ` set (te_transferred ?eff) \<subseteq> {ChangeTransferred}" 
    "(te_status ?eff = ''success'') = cs_success cs"
    by (auto simp: effects_def Let_def)
  have "explicit_object_changes cs \<noteq> [] \<longrightarrow> ?changes = explicit_object_changes cs" by (simp add: object_changes_def)
  have "explicit_object_changes cs = [] \<longrightarrow>
      map (\<lambda>c. (or_object_id (oc_object_ref c), oc_change_type c,
                map_option (\<lambda>p. (or_object_id p, or_version p)) (oc_previous_object_ref c))) ?changes =
      map (\<lambda>(i, obj). if co_version obj \<le> 1 then (i, ChangeCreated, None)
                      else (i, ChangeMutated, Some (i, Some (co_version obj - 1)))) (created_objects cs)
      @ map (\<lambda>i. (i, ChangeDeleted, None)) (deleted_objects cs)"
    by (auto simp: object_changes_def created_change_def deleted_change_def created_object_ref_def object_ref_new_def
        Let_def)
  show ?thesis unfolding Let_def changes by (intro conjI allI) fact+
qed

section \<open>Examples\<close>

definition example_write :: "byte \<Rightarrow> change_set" where
  "example_write n = record_move_write [n] None (set_gas_used 5 changeset_new)"




theorem changeset_conserves_witness:
  "sum_list (map (od_balance_delta \<circ> snd)
     (owner_deltas (cs_burn aa_ZERO 3 (cs_transfer aa_ZERO zero_hash 7 (cs_mint aa_ZERO 10 changeset_new))))) = 7"
proof -
  have "cs_reach (cs_burn aa_ZERO 3 (cs_transfer aa_ZERO zero_hash 7 (cs_mint aa_ZERO 10 changeset_new)))
      (0 + uint (10 :: u64)) (0 + uint (3 :: u64)) (0 + uint (10 :: u64) + 2 * uint (7 :: u64) + uint (3 :: u64))"
    by (intro cs_reach.intros)
  from changeset_conserves [OF this] show ?thesis by simp
qed

theorem effects_complete_witness:
  "let eff = effects env_model None (add_deleted_object env_model ''x'' changeset_new)
   in length (te_object_changes eff) = 1 \<and> map oc_change_type (te_object_changes eff) = [ChangeDeleted] \<and>
      te_status eff = ''success'' \<and> te_causal_edges eff = []"
proof -
  let ?cs = "add_deleted_object env_model ''x'' changeset_new"
  let ?eff = "effects env_model None ?cs"
  have cs: "explicit_object_changes ?cs = []" "created_objects ?cs = []" "length (deleted_objects ?cs) = 1" "cs_success ?cs"
    "input_objects ?cs = []" "shared_inputs ?cs = []" "immutable_inputs ?cs = []" "gas_object_refs ?cs = []"
    by (simp_all add: add_deleted_object_def changeset_new_def with_status_def)
  note facts = effects_complete [of env_model None ?cs, unfolded Let_def]
  have m: "map (\<lambda>c. (or_object_id (oc_object_ref c), oc_change_type c,
      map_option (\<lambda>p. (or_object_id p, or_version p)) (oc_previous_object_ref c))) (te_object_changes ?eff) =
      map (\<lambda>i. (i, ChangeDeleted, None)) (deleted_objects ?cs)"
    using facts cs(1,2) by simp
  have one: "length (te_object_changes ?eff) = 1" using arg_cong [OF m, of length] cs(3) by simp
  then obtain c where c: "te_object_changes ?eff = [c]" by (metis One_nat_def length_0_conv length_Suc_conv)
  then have kind: "oc_change_type c = ChangeDeleted" "oc_previous_object_ref c = None"
    using m by (cases "deleted_objects ?cs"; auto)+
  have "\<not> causal_link ?cs [c] a b k" for a b k
    using cs(5-8) kind by (auto elim!: causal_link.cases)
  then have "te_causal_edges ?eff = []" using facts c by (metis list.set_intros(1) neq_Nil_conv)
  then show ?thesis using facts cs(4) one c kind by (simp add: Let_def)
qed

theorem apply_batches_correct_witness:
  "concat (schedule_dependency_aware_apply_batches env_model Map.empty [example_write 1, example_write 1, example_write 2]) = [0, 1, 2]"
  using apply_batches_correct [of env_model Map.empty "[example_write 1, example_write 1, example_write 2]"]
  by (simp add: Let_def upt_rec)

theorem waves_correct_witness:
  "concat (schedule env_model [signed_new (new_burn env_model ''0x1'' 42 0), signed_new (new_burn env_model ''0x1'' 42 1)]) =
     [signed_new (new_burn env_model ''0x1'' 42 0), signed_new (new_burn env_model ''0x1'' 42 1)]"
  using waves_correct [of env_model "[signed_new (new_burn env_model ''0x1'' 42 0), signed_new (new_burn env_model ''0x1'' 42 1)]"]
  by (simp add: Let_def)

end
