(* ===== verification/Math_Natives.thy ===== *)
theory Math_Natives
  imports Kanari_Prelude
begin

text \<open>
  The math natives of \<^verbatim>\<open>kanari-system-natives/src/math_calculate\<close>: the pure helpers
  of \<^verbatim>\<open>math.rs\<close>, the 33 native functions around them, and the table and the gas schedule of
  \<^verbatim>\<open>mod.rs\<close>. What the natives use of the Move VM (\<^verbatim>\<open>pop_arg!\<close>,
  \<^verbatim>\<open>native_charge_gas_early_exit!\<close>, \<^verbatim>\<open>NativeContext\<close>, \<^verbatim>\<open>NativeResult\<close>) is modelled
  from \<^verbatim>\<open>third_party/move\<close>. The wide integers of the packages \<^verbatim>\<open>ethnum\<close> and \<^verbatim>\<open>primitive-types\<close>
  are words of their width; their operations are fields of the parameter \<open>wide_ops\<close>, where \<^term>\<open>None\<close>
  is a panic. The square root of \<^verbatim>\<open>num-integer\<close> is a field too. A native returns \<^term>\<open>None\<close> when
  it panics, and otherwise the VM error or the \<^verbatim>\<open>NativeResult\<close> it hands back.
\<close>

section \<open>Wide integers\<close>

type_synonym u128 = "128 word"
type_synonym u256 = "256 word"
type_synonym u512 = "512 word"

record 'w uint_ops =
  ui_add :: "'w \<Rightarrow> 'w \<Rightarrow> 'w option"
  ui_sub :: "'w \<Rightarrow> 'w \<Rightarrow> 'w option"
  ui_mul :: "'w \<Rightarrow> 'w \<Rightarrow> 'w option"
  ui_div :: "'w \<Rightarrow> 'w \<Rightarrow> 'w option"
  ui_rem :: "'w \<Rightarrow> 'w \<Rightarrow> 'w option"
  ui_div_mod :: "'w \<Rightarrow> 'w \<Rightarrow> ('w \<times> 'w) option"
  ui_and :: "'w \<Rightarrow> 'w \<Rightarrow> 'w"
  ui_xor :: "'w \<Rightarrow> 'w \<Rightarrow> 'w"
  ui_checked_add :: "'w \<Rightarrow> 'w \<Rightarrow> 'w option"
  ui_checked_mul :: "'w \<Rightarrow> 'w \<Rightarrow> 'w option"
  ui_bits :: "'w \<Rightarrow> nat"
  ui_to_little_endian :: "'w \<Rightarrow> bytes"
  ui_from_little_endian :: "bytes \<Rightarrow> 'w"

record wide_ops =
  ethnum :: "u256 uint_ops"
  p256 :: "u256 uint_ops"
  p512 :: "u512 uint_ops"
  roots_u64 :: "u64 \<Rightarrow> u64"
  roots_u128 :: "u128 \<Rightarrow> u128"

text \<open>The operations of the standard library on the primitive widths.\<close>

fun bit_length :: "nat \<Rightarrow> nat" where
  "bit_length n = (if n = 0 then 0 else Suc (bit_length (n div 2)))"

declare bit_length.simps [simp del]

definition leading_zeros :: "'a::len word \<Rightarrow> nat" where
  "leading_zeros x = LENGTH('a) - bit_length (unat x)"

definition checked_pow :: "'a::len word \<Rightarrow> nat \<Rightarrow> 'a word option" where
  "checked_pow b e = (if unat b ^ e < 2 ^ LENGTH('a) then Some (b ^ e) else None)"

definition ord_clamp :: "'a::linorder \<Rightarrow> 'a \<Rightarrow> 'a \<Rightarrow> 'a" where
  "ord_clamp x lo hi = (if x < lo then lo else if hi < x then hi else x)"

section \<open>The pure helpers\<close>

definition E_OVERFLOW :: u64 where "E_OVERFLOW = 1"

definition E_DIVIDE_BY_ZERO :: u64 where "E_DIVIDE_BY_ZERO = 2"

definition E_INVALID_ARG :: u64 where "E_INVALID_ARG = 3"

definition narrow_u128 :: "u256 \<Rightarrow> u64 + u128" where
  "narrow_u128 r = (if ucast (- 1 :: u128) < r then Inl E_OVERFLOW else Inr (ucast r))"

definition mul_div_u128_checked :: "wide_ops \<Rightarrow> u128 \<Rightarrow> u128 \<Rightarrow> u128 \<Rightarrow> (u64 + u128) option" where
  "mul_div_u128_checked E x y z =
     (if z = 0 then Some (Inl E_DIVIDE_BY_ZERO)
      else Option.bind (ui_mul (ethnum E) (ucast x) (ucast y)) (\<lambda>prod.
           Option.bind (ui_div (ethnum E) prod (ucast z)) (\<lambda>result_256.
           Some (narrow_u128 result_256))))"

definition mul_div_u128_round_checked ::
  "wide_ops \<Rightarrow> u128 \<Rightarrow> u128 \<Rightarrow> u128 \<Rightarrow> bool \<Rightarrow> (u64 + u128) option" where
  "mul_div_u128_round_checked E x y z round_up =
     (if z = 0 then Some (Inl E_DIVIDE_BY_ZERO)
      else Option.bind (ui_mul (ethnum E) (ucast x) (ucast y)) (\<lambda>prod_256.
           Option.bind (ui_div_mod (ethnum E) prod_256 (ucast z)) (\<lambda>(q, r).
           Option.bind (if round_up \<and> r \<noteq> 0 then ui_add (ethnum E) q 1 else Some q) (\<lambda>result_256.
           Some (narrow_u128 result_256)))))"

definition mul_add_u128_checked :: "wide_ops \<Rightarrow> u128 \<Rightarrow> u128 \<Rightarrow> u128 \<Rightarrow> (u64 + u128) option" where
  "mul_add_u128_checked E x y z =
     Option.bind (ui_mul (ethnum E) (ucast x) (ucast y)) (\<lambda>prod.
     Option.bind (ui_add (ethnum E) prod (ucast z)) (\<lambda>result_256.
     Some (narrow_u128 result_256)))"

definition average_u64 :: "u64 \<Rightarrow> u64 \<Rightarrow> u64" where
  "average_u64 a b = (a AND b) + drop_bit 1 (a XOR b)"

definition average_u128 :: "u128 \<Rightarrow> u128 \<Rightarrow> u128" where
  "average_u128 a b = (a AND b) + drop_bit 1 (a XOR b)"

definition clamp_u64 :: "u64 \<Rightarrow> u64 \<Rightarrow> u64 \<Rightarrow> u64 + u64" where
  "clamp_u64 x lo hi = (if lo > hi then Inl E_INVALID_ARG else Inr (ord_clamp x lo hi))"

definition clamp_u128 :: "u128 \<Rightarrow> u128 \<Rightarrow> u128 \<Rightarrow> u64 + u128" where
  "clamp_u128 x lo hi = (if lo > hi then Inl E_INVALID_ARG else Inr (ord_clamp x lo hi))"

definition log2_u64_checked :: "u64 \<Rightarrow> u64 + u64" where
  "log2_u64_checked x = (if x = 0 then Inl E_INVALID_ARG else Inr (63 - of_nat (leading_zeros x)))"

definition log2_u128_checked :: "u128 \<Rightarrow> u64 + u128" where
  "log2_u128_checked x = (if x = 0 then Inl E_INVALID_ARG else Inr (127 - of_nat (leading_zeros x)))"

definition pow_gas_cost :: "u64 \<Rightarrow> u64 \<Rightarrow> u64 \<Rightarrow> u64" where
  "pow_gas_cost gbase per_exponent exponent =
     saturating_add gbase (saturating_mul per_exponent exponent)"

definition sqrt_u256_gas_cost :: "u64 \<Rightarrow> u64 \<Rightarrow> u64 \<Rightarrow> u64" where
  "sqrt_u256_gas_cost gbase per_bit bits = saturating_add gbase (saturating_mul per_bit bits)"

text \<open>A Move \<^verbatim>\<open>U256\<close> wraps the one of \<^verbatim>\<open>primitive-types\<close>; the conversions go through its bytes.\<close>

definition m2p :: "wide_ops \<Rightarrow> u256 \<Rightarrow> u256" where
  "m2p E x = ui_from_little_endian (p256 E) (ui_to_little_endian (p256 E) x)"

definition p2m :: "wide_ops \<Rightarrow> u256 \<Rightarrow> u256" where
  "p2m E v = ui_from_little_endian (p256 E) (ui_to_little_endian (p256 E) v)"

definition fit_u256 :: "wide_ops \<Rightarrow> u512 \<Rightarrow> u64 + u256" where
  "fit_u256 E v =
     (if ucast (- 1 :: u256) < v then Inl E_OVERFLOW
      else Inr (ui_from_little_endian (p256 E) (take 32 (ui_to_little_endian (p512 E) v))))"

definition mul_div_u256_checked :: "wide_ops \<Rightarrow> u256 \<Rightarrow> u256 \<Rightarrow> u256 \<Rightarrow> (u64 + u256) option" where
  "mul_div_u256_checked E x y z =
     (if z = 0 then Some (Inl E_DIVIDE_BY_ZERO)
      else Option.bind (ui_mul (p512 E) (ucast (m2p E x)) (ucast (m2p E y))) (\<lambda>prod.
           Option.bind (ui_div (p512 E) prod (ucast (m2p E z))) (\<lambda>result.
           Some (fit_u256 E result))))"

definition mul_div_u256_round_checked ::
  "wide_ops \<Rightarrow> u256 \<Rightarrow> u256 \<Rightarrow> u256 \<Rightarrow> bool \<Rightarrow> (u64 + u256) option" where
  "mul_div_u256_round_checked E x y z round_up =
     (if z = 0 then Some (Inl E_DIVIDE_BY_ZERO)
      else Option.bind (ui_mul (p512 E) (ucast (m2p E x)) (ucast (m2p E y))) (\<lambda>prod.
           Option.bind (ui_div_mod (p512 E) prod (ucast (m2p E z))) (\<lambda>(q, r).
           Some (if round_up \<and> r \<noteq> 0 then
                   (case ui_checked_add (p512 E) q 1 of
                      Some v \<Rightarrow> fit_u256 E v
                    | None \<Rightarrow> Inl E_OVERFLOW)
                 else fit_u256 E q))))"

definition mul_add_u256_checked :: "wide_ops \<Rightarrow> u256 \<Rightarrow> u256 \<Rightarrow> u256 \<Rightarrow> (u64 + u256) option" where
  "mul_add_u256_checked E x y z =
     Option.bind (ui_mul (p512 E) (ucast (m2p E x)) (ucast (m2p E y))) (\<lambda>prod.
     Option.bind (ui_add (p512 E) prod (ucast (m2p E z))) (\<lambda>result.
     Some (fit_u256 E result)))"

text \<open>The loop of \<^verbatim>\<open>pow_u256_checked\<close>; \<^term>\<open>None\<close> is its overflow answer.\<close>

function pow_loop :: "wide_ops \<Rightarrow> u256 \<Rightarrow> u256 \<Rightarrow> u32 \<Rightarrow> u256 option" where
  "pow_loop E result b e =
     (if e > 0 then
        Option.bind (if e AND 1 = 1 then ui_checked_mul (p256 E) result b else Some result) (\<lambda>result.
        let e' = drop_bit 1 e in
        Option.bind (if e' > 0 then ui_checked_mul (p256 E) b b else Some b) (\<lambda>b.
        pow_loop E result b e'))
      else Some result)"
  by pat_completeness auto

lemma unat_drop_bit_1: "unat (drop_bit (Suc 0) e) = unat e div 2" for e :: "'a::len word"
  by (simp add: unsigned_drop_bit_eq drop_bit_nat_def take_bit_nat_eq_self)

lemma drop_bit_1_less: "0 < e \<Longrightarrow> unat (drop_bit (Suc 0) e) < unat e" for e :: "'a::len word"
  by (simp add: unat_drop_bit_1 unat_gt_0 word_neq_0_conv [symmetric])

termination pow_loop
  by (relation "measure (\<lambda>(_, _, _, e). unat e)") (auto simp: drop_bit_1_less)

declare pow_loop.simps [simp del]

definition pow_u256_checked :: "wide_ops \<Rightarrow> u256 \<Rightarrow> u32 \<Rightarrow> u256 option" where
  "pow_u256_checked E b exponent = pow_loop E 1 b exponent"

text \<open>
  The binary search of \<^verbatim>\<open>isqrt_u256\<close>. The fuel bounds the number of iterations; \<^term>\<open>None\<close> is a panic or
  fuel that ran out. The gap \<open>hi - lo\<close> at least halves, so 256 iterations are enough for 256 bits.
\<close>

fun isqrt_loop :: "wide_ops \<Rightarrow> nat \<Rightarrow> u256 \<Rightarrow> u256 \<Rightarrow> u256 \<Rightarrow> u256 option" where
  "isqrt_loop E 0 n lo hi = (if lo < hi then None else Some lo)"
| "isqrt_loop E (Suc fuel) n lo hi =
     (if lo < hi then
        Option.bind (ui_sub (p256 E) hi lo) (\<lambda>gap.
        Option.bind (ui_add (p256 E) gap 1) (\<lambda>gap1.
        Option.bind (ui_div (p256 E) gap1 2) (\<lambda>half.
        Option.bind (ui_add (p256 E) lo half) (\<lambda>mid.
        Option.bind (ui_div (p256 E) n mid) (\<lambda>quot.
        if mid \<le> quot then isqrt_loop E fuel n mid hi
        else Option.bind (ui_sub (p256 E) mid 1) (\<lambda>hi. isqrt_loop E fuel n lo hi))))))
      else Some lo)"

definition isqrt_u256 :: "wide_ops \<Rightarrow> u256 \<Rightarrow> u256 option" where
  "isqrt_u256 E n =
     (if n \<le> 1 then Some n
      else Option.bind (ui_div (p256 E) n 2) (\<lambda>half.
           Option.bind (ui_add (p256 E) half 1) (\<lambda>hi.
           isqrt_loop E 256 n 1 hi)))"

definition average_u256 :: "wide_ops \<Rightarrow> u256 \<Rightarrow> u256 \<Rightarrow> u256 option" where
  "average_u256 E a b =
     Option.bind (ui_div (p256 E) (ui_xor (p256 E) a b) 2) (\<lambda>half.
     ui_add (p256 E) (ui_and (p256 E) a b) half)"

definition clamp_u256 :: "u256 \<Rightarrow> u256 \<Rightarrow> u256 \<Rightarrow> u64 + u256" where
  "clamp_u256 x lo hi = (if lo > hi then Inl E_INVALID_ARG else Inr (ord_clamp x lo hi))"

definition log2_u256_checked :: "wide_ops \<Rightarrow> u256 \<Rightarrow> u64 + u256" where
  "log2_u256_checked E x =
     (if x = 0 then Inl E_INVALID_ARG
      else Inr (ucast (of_nat (ui_bits (p256 E) (m2p E x)) - 1 :: u64)))"

definition ceil_div_u64 :: "u64 \<Rightarrow> u64 \<Rightarrow> u64 + u64" where
  "ceil_div_u64 a b =
     (if b = 0 then Inl E_DIVIDE_BY_ZERO
      else let q = a div b; r = a mod b in Inr (if r = 0 then q else q + 1))"

definition ceil_div_u128 :: "u128 \<Rightarrow> u128 \<Rightarrow> u64 + u128" where
  "ceil_div_u128 a b =
     (if b = 0 then Inl E_DIVIDE_BY_ZERO
      else let q = a div b; r = a mod b in Inr (if r = 0 then q else q + 1))"

definition ceil_div_u256 :: "wide_ops \<Rightarrow> u256 \<Rightarrow> u256 \<Rightarrow> (u64 + u256) option" where
  "ceil_div_u256 E a b =
     (if b = 0 then Some (Inl E_DIVIDE_BY_ZERO)
      else Option.bind (ui_div (p256 E) a b) (\<lambda>q.
           Option.bind (ui_rem (p256 E) a b) (\<lambda>r.
           if r = 0 then Some (Inr q) else map_option Inr (ui_add (p256 E) q 1))))"

section \<open>Natives and the VM\<close>

text \<open>The values a native receives; \<open>VOther\<close> stands for every kind no math native takes.\<close>

datatype vm_value =
  VU8 u8 | VU16 u16 | VU32 u32 | VU64 u64 | VU128 u128 | VU256 u256 | VBool bool | VOther nat

datatype status_code =
  NUMBER_OF_ARGUMENTS_MISMATCH | NUMBER_OF_TYPE_ARGUMENTS_MISMATCH
| UNKNOWN_INVARIANT_VIOLATION_ERROR | INTERNAL_TYPE_ERROR

definition NFE_OUT_OF_GAS :: u64 where "NFE_OUT_OF_GAS = 1"

record native_context =
  gas_left :: u64
  gas_budget :: u64

record native_result =
  nr_cost :: u64
  nr_result :: "u64 + vm_value list"

type_synonym native_outcome = "(status_code + native_result) option"

definition native_context_new :: "u64 \<Rightarrow> native_context" where
  "native_context_new budget = \<lparr>gas_left = budget, gas_budget = budget\<rparr>"

definition charge_gas :: "u64 \<Rightarrow> native_context \<Rightarrow> bool \<times> native_context" where
  "charge_gas amount ctx =
     (if amount \<le> gas_left ctx then (True, ctx\<lparr>gas_left := gas_left ctx - amount\<rparr>) else (False, ctx))"

definition native_gas_used :: "native_context \<Rightarrow> u64" where
  "native_gas_used ctx = saturating_sub (gas_budget ctx) (gas_left ctx)"

definition nr_ok :: "u64 \<Rightarrow> vm_value list \<Rightarrow> native_outcome" where
  "nr_ok spent vs = Some (Inr \<lparr>nr_cost = spent, nr_result = Inr vs\<rparr>)"

definition nr_err :: "u64 \<Rightarrow> u64 \<Rightarrow> native_outcome" where
  "nr_err spent abort_code = Some (Inr \<lparr>nr_cost = spent, nr_result = Inl abort_code\<rparr>)"

definition native_charge_gas_early_exit ::
  "native_context \<Rightarrow> u64 \<Rightarrow> (native_context \<Rightarrow> native_outcome) \<Rightarrow> native_outcome" where
  "native_charge_gas_early_exit ctx amount continue =
     (case charge_gas amount ctx of (charged, ctx) \<Rightarrow>
        if \<not> charged then nr_err (gas_budget ctx) NFE_OUT_OF_GAS else continue ctx)"

definition pop_arg ::
  "(vm_value \<Rightarrow> status_code + 'v) \<Rightarrow> vm_value list \<Rightarrow> ('v \<Rightarrow> vm_value list \<Rightarrow> native_outcome) \<Rightarrow> native_outcome" where
  "pop_arg value_as arguments continue =
     (if arguments = [] then Some (Inl UNKNOWN_INVARIANT_VIOLATION_ERROR)
      else case value_as (last arguments) of
             Inl e \<Rightarrow> Some (Inl e)
           | Inr v \<Rightarrow> continue v (butlast arguments))"

definition as_u8 :: "vm_value \<Rightarrow> status_code + u8" where
  "as_u8 v = (case v of VU8 x \<Rightarrow> Inr x | _ \<Rightarrow> Inl INTERNAL_TYPE_ERROR)"

definition as_u32 :: "vm_value \<Rightarrow> status_code + u32" where
  "as_u32 v = (case v of VU32 x \<Rightarrow> Inr x | _ \<Rightarrow> Inl INTERNAL_TYPE_ERROR)"

definition as_u64 :: "vm_value \<Rightarrow> status_code + u64" where
  "as_u64 v = (case v of VU64 x \<Rightarrow> Inr x | _ \<Rightarrow> Inl INTERNAL_TYPE_ERROR)"

definition as_u128 :: "vm_value \<Rightarrow> status_code + u128" where
  "as_u128 v = (case v of VU128 x \<Rightarrow> Inr x | _ \<Rightarrow> Inl INTERNAL_TYPE_ERROR)"

definition as_u256 :: "vm_value \<Rightarrow> status_code + u256" where
  "as_u256 v = (case v of VU256 x \<Rightarrow> Inr x | _ \<Rightarrow> Inl INTERNAL_TYPE_ERROR)"

definition as_bool :: "vm_value \<Rightarrow> status_code + bool" where
  "as_bool v = (case v of VBool x \<Rightarrow> Inr x | _ \<Rightarrow> Inl INTERNAL_TYPE_ERROR)"

definition expect_native_args :: "nat \<Rightarrow> nat \<Rightarrow> status_code + unit" where
  "expect_native_args actual expected =
     (if actual = expected then Inr () else Inl NUMBER_OF_ARGUMENTS_MISMATCH)"

definition expect_type_args :: "nat \<Rightarrow> nat \<Rightarrow> status_code + unit" where
  "expect_type_args actual expected =
     (if actual = expected then Inr () else Inl NUMBER_OF_TYPE_ARGUMENTS_MISMATCH)"

definition expect_native_signature :: "nat \<Rightarrow> nat \<Rightarrow> nat \<Rightarrow> nat \<Rightarrow> status_code + unit" where
  "expect_native_signature actual_args expected_args actual_type_args expected_type_args =
     (case expect_native_args actual_args expected_args of
        Inl e \<Rightarrow> Inl e
      | Inr _ \<Rightarrow> expect_type_args actual_type_args expected_type_args)"

text \<open>The operator \<^verbatim>\<open>?\<close>, and the two ways a native ends once it has a result.\<close>

definition vm_try :: "status_code + 'a \<Rightarrow> ('a \<Rightarrow> native_outcome) \<Rightarrow> native_outcome" where
  "vm_try r continue = (case r of Inl e \<Rightarrow> Some (Inl e) | Inr x \<Rightarrow> continue x)"

definition or_abort :: "native_context \<Rightarrow> ('v \<Rightarrow> vm_value) \<Rightarrow> u64 + 'v \<Rightarrow> native_outcome" where
  "or_abort ctx mk r =
     (case r of Inr v \<Rightarrow> nr_ok (native_gas_used ctx) [mk v] | Inl code \<Rightarrow> nr_err (native_gas_used ctx) code)"

definition or_false :: "native_context \<Rightarrow> ('v::zero \<Rightarrow> vm_value) \<Rightarrow> 'v option \<Rightarrow> native_outcome" where
  "or_false ctx mk r =
     (case r of
        Some v \<Rightarrow> nr_ok (native_gas_used ctx) [VBool True, mk v]
      | None \<Rightarrow> nr_ok (native_gas_used ctx) [VBool False, mk 0])"

definition result_ok :: "'e + 'v \<Rightarrow> 'v option" where
  "result_ok r = (case r of Inr v \<Rightarrow> Some v | Inl _ \<Rightarrow> None)"

definition overflow_error :: "'v option \<Rightarrow> u64 + 'v" where
  "overflow_error r = (case r of Some v \<Rightarrow> Inr v | None \<Rightarrow> Inl E_OVERFLOW)"

section \<open>Gas parameters\<close>

record base_gas =
  gp_base :: u64

record pow_gas = base_gas +
  gp_per_exponent :: u64

record bits_gas = base_gas +
  gp_per_bit :: u64

record math_gas =
  mg_sqrt_u128 :: base_gas
  mg_sqrt_u64 :: base_gas
  mg_sqrt_u256 :: bits_gas
  mg_pow_u64 :: pow_gas
  mg_pow_u128 :: pow_gas
  mg_pow_u256 :: pow_gas
  mg_try_pow_u64 :: pow_gas
  mg_try_pow_u128 :: pow_gas
  mg_try_pow_u256 :: pow_gas
  mg_mul_div_u128 :: base_gas
  mg_mul_div_round_u128 :: base_gas
  mg_try_mul_div_u128 :: base_gas
  mg_mul_add_u128 :: base_gas
  mg_mul_div_u256 :: base_gas
  mg_mul_div_round_u256 :: base_gas
  mg_try_mul_div_u256 :: base_gas
  mg_mul_add_u256 :: base_gas
  mg_min_u128 :: base_gas
  mg_max_u128 :: base_gas
  mg_min_u256 :: base_gas
  mg_max_u256 :: base_gas
  mg_average_u64 :: base_gas
  mg_average_u128 :: base_gas
  mg_average_u256 :: base_gas
  mg_clamp_u64 :: base_gas
  mg_clamp_u128 :: base_gas
  mg_clamp_u256 :: base_gas
  mg_log2_u64 :: base_gas
  mg_log2_u128 :: base_gas
  mg_log2_u256 :: base_gas
  mg_ceil_div_u64 :: base_gas
  mg_ceil_div_u128 :: base_gas
  mg_ceil_div_u256 :: base_gas

definition math_gas_zeros :: math_gas where
  "math_gas_zeros =
     \<lparr>mg_sqrt_u128 = \<lparr>gp_base = 0\<rparr>,
      mg_sqrt_u64 = \<lparr>gp_base = 0\<rparr>,
      mg_sqrt_u256 = \<lparr>gp_base = 0, gp_per_bit = 0\<rparr>,
      mg_pow_u64 = \<lparr>gp_base = 0, gp_per_exponent = 0\<rparr>,
      mg_pow_u128 = \<lparr>gp_base = 0, gp_per_exponent = 0\<rparr>,
      mg_pow_u256 = \<lparr>gp_base = 0, gp_per_exponent = 0\<rparr>,
      mg_try_pow_u64 = \<lparr>gp_base = 0, gp_per_exponent = 0\<rparr>,
      mg_try_pow_u128 = \<lparr>gp_base = 0, gp_per_exponent = 0\<rparr>,
      mg_try_pow_u256 = \<lparr>gp_base = 0, gp_per_exponent = 0\<rparr>,
      mg_mul_div_u128 = \<lparr>gp_base = 0\<rparr>,
      mg_mul_div_round_u128 = \<lparr>gp_base = 0\<rparr>,
      mg_try_mul_div_u128 = \<lparr>gp_base = 0\<rparr>,
      mg_mul_add_u128 = \<lparr>gp_base = 0\<rparr>,
      mg_mul_div_u256 = \<lparr>gp_base = 0\<rparr>,
      mg_mul_div_round_u256 = \<lparr>gp_base = 0\<rparr>,
      mg_try_mul_div_u256 = \<lparr>gp_base = 0\<rparr>,
      mg_mul_add_u256 = \<lparr>gp_base = 0\<rparr>,
      mg_min_u128 = \<lparr>gp_base = 0\<rparr>,
      mg_max_u128 = \<lparr>gp_base = 0\<rparr>,
      mg_min_u256 = \<lparr>gp_base = 0\<rparr>,
      mg_max_u256 = \<lparr>gp_base = 0\<rparr>,
      mg_average_u64 = \<lparr>gp_base = 0\<rparr>,
      mg_average_u128 = \<lparr>gp_base = 0\<rparr>,
      mg_average_u256 = \<lparr>gp_base = 0\<rparr>,
      mg_clamp_u64 = \<lparr>gp_base = 0\<rparr>,
      mg_clamp_u128 = \<lparr>gp_base = 0\<rparr>,
      mg_clamp_u256 = \<lparr>gp_base = 0\<rparr>,
      mg_log2_u64 = \<lparr>gp_base = 0\<rparr>,
      mg_log2_u128 = \<lparr>gp_base = 0\<rparr>,
      mg_log2_u256 = \<lparr>gp_base = 0\<rparr>,
      mg_ceil_div_u64 = \<lparr>gp_base = 0\<rparr>,
      mg_ceil_div_u128 = \<lparr>gp_base = 0\<rparr>,
      mg_ceil_div_u256 = \<lparr>gp_base = 0\<rparr>\<rparr>"

definition math_gas_production :: math_gas where
  "math_gas_production =
     \<lparr>mg_sqrt_u128 = \<lparr>gp_base = 2000\<rparr>,
      mg_sqrt_u64 = \<lparr>gp_base = 250\<rparr>,
      mg_sqrt_u256 = \<lparr>gp_base = 3000, gp_per_bit = 5000\<rparr>,
      mg_pow_u64 = \<lparr>gp_base = 150, gp_per_exponent = 10\<rparr>,
      mg_pow_u128 = \<lparr>gp_base = 900, gp_per_exponent = 10\<rparr>,
      mg_pow_u256 = \<lparr>gp_base = 2000, gp_per_exponent = 50\<rparr>,
      mg_try_pow_u64 = \<lparr>gp_base = 150, gp_per_exponent = 10\<rparr>,
      mg_try_pow_u128 = \<lparr>gp_base = 900, gp_per_exponent = 10\<rparr>,
      mg_try_pow_u256 = \<lparr>gp_base = 2000, gp_per_exponent = 50\<rparr>,
      mg_mul_div_u128 = \<lparr>gp_base = 4000\<rparr>,
      mg_mul_div_round_u128 = \<lparr>gp_base = 4000\<rparr>,
      mg_try_mul_div_u128 = \<lparr>gp_base = 4000\<rparr>,
      mg_mul_add_u128 = \<lparr>gp_base = 200\<rparr>,
      mg_mul_div_u256 = \<lparr>gp_base = 10000\<rparr>,
      mg_mul_div_round_u256 = \<lparr>gp_base = 10000\<rparr>,
      mg_try_mul_div_u256 = \<lparr>gp_base = 10000\<rparr>,
      mg_mul_add_u256 = \<lparr>gp_base = 4500\<rparr>,
      mg_min_u128 = \<lparr>gp_base = 100\<rparr>,
      mg_max_u128 = \<lparr>gp_base = 100\<rparr>,
      mg_min_u256 = \<lparr>gp_base = 700\<rparr>,
      mg_max_u256 = \<lparr>gp_base = 700\<rparr>,
      mg_average_u64 = \<lparr>gp_base = 100\<rparr>,
      mg_average_u128 = \<lparr>gp_base = 100\<rparr>,
      mg_average_u256 = \<lparr>gp_base = 2500\<rparr>,
      mg_clamp_u64 = \<lparr>gp_base = 100\<rparr>,
      mg_clamp_u128 = \<lparr>gp_base = 100\<rparr>,
      mg_clamp_u256 = \<lparr>gp_base = 1000\<rparr>,
      mg_log2_u64 = \<lparr>gp_base = 100\<rparr>,
      mg_log2_u128 = \<lparr>gp_base = 100\<rparr>,
      mg_log2_u256 = \<lparr>gp_base = 500\<rparr>,
      mg_ceil_div_u64 = \<lparr>gp_base = 120\<rparr>,
      mg_ceil_div_u128 = \<lparr>gp_base = 180\<rparr>,
      mg_ceil_div_u256 = \<lparr>gp_base = 700\<rparr>\<rparr>"

section \<open>The natives\<close>

definition native_sqrt_u128 ::
  "wide_ops \<Rightarrow> base_gas \<Rightarrow> native_context \<Rightarrow> 'ty list \<Rightarrow> vm_value list \<Rightarrow> native_outcome" where
  "native_sqrt_u128 E gas_params ctx ty_args args =
     vm_try (expect_native_signature (length args) 1 (length ty_args) 0) (\<lambda>_.
     native_charge_gas_early_exit ctx (gp_base gas_params) (\<lambda>ctx.
     pop_arg as_u128 args (\<lambda>x args.
     nr_ok (native_gas_used ctx) [VU128 (roots_u128 E x)])))"

definition native_sqrt_u64 ::
  "wide_ops \<Rightarrow> base_gas \<Rightarrow> native_context \<Rightarrow> 'ty list \<Rightarrow> vm_value list \<Rightarrow> native_outcome" where
  "native_sqrt_u64 E gas_params ctx ty_args args =
     vm_try (expect_native_signature (length args) 1 (length ty_args) 0) (\<lambda>_.
     native_charge_gas_early_exit ctx (gp_base gas_params) (\<lambda>ctx.
     pop_arg as_u64 args (\<lambda>x args.
     nr_ok (native_gas_used ctx) [VU64 (roots_u64 E x)])))"

definition native_sqrt_u256 ::
  "wide_ops \<Rightarrow> bits_gas \<Rightarrow> native_context \<Rightarrow> 'ty list \<Rightarrow> vm_value list \<Rightarrow> native_outcome" where
  "native_sqrt_u256 E gas_params ctx ty_args args =
     vm_try (expect_native_signature (length args) 1 (length ty_args) 0) (\<lambda>_.
     pop_arg as_u256 args (\<lambda>x args.
     let px = m2p E x in
     native_charge_gas_early_exit ctx (sqrt_u256_gas_cost (gp_base gas_params) (gp_per_bit gas_params) (of_nat (ui_bits (p256 E) px))) (\<lambda>ctx.
     Option.bind (isqrt_u256 E px) (\<lambda>v.
     nr_ok (native_gas_used ctx) [VU256 (p2m E v)]))))"

definition native_pow_u64 ::
  "wide_ops \<Rightarrow> pow_gas \<Rightarrow> native_context \<Rightarrow> 'ty list \<Rightarrow> vm_value list \<Rightarrow> native_outcome" where
  "native_pow_u64 E gas_params ctx ty_args args =
     vm_try (expect_native_signature (length args) 2 (length ty_args) 0) (\<lambda>_.
     pop_arg as_u8 args (\<lambda>exponent args.
     pop_arg as_u64 args (\<lambda>gbase args.
     native_charge_gas_early_exit ctx (pow_gas_cost (gp_base gas_params) (gp_per_exponent gas_params) (ucast exponent)) (\<lambda>ctx.
     or_abort ctx VU64 (overflow_error (checked_pow gbase (unat exponent)))))))"

definition native_pow_u128 ::
  "wide_ops \<Rightarrow> pow_gas \<Rightarrow> native_context \<Rightarrow> 'ty list \<Rightarrow> vm_value list \<Rightarrow> native_outcome" where
  "native_pow_u128 E gas_params ctx ty_args args =
     vm_try (expect_native_signature (length args) 2 (length ty_args) 0) (\<lambda>_.
     pop_arg as_u32 args (\<lambda>exponent args.
     pop_arg as_u128 args (\<lambda>gbase args.
     native_charge_gas_early_exit ctx (pow_gas_cost (gp_base gas_params) (gp_per_exponent gas_params) (ucast exponent)) (\<lambda>ctx.
     or_abort ctx VU128 (overflow_error (checked_pow gbase (unat exponent)))))))"

definition native_pow_u256 ::
  "wide_ops \<Rightarrow> pow_gas \<Rightarrow> native_context \<Rightarrow> 'ty list \<Rightarrow> vm_value list \<Rightarrow> native_outcome" where
  "native_pow_u256 E gas_params ctx ty_args args =
     vm_try (expect_native_signature (length args) 2 (length ty_args) 0) (\<lambda>_.
     pop_arg as_u32 args (\<lambda>exponent args.
     pop_arg as_u256 args (\<lambda>gbase args.
     native_charge_gas_early_exit ctx (pow_gas_cost (gp_base gas_params) (gp_per_exponent gas_params) (ucast exponent)) (\<lambda>ctx.
     or_abort ctx VU256 (overflow_error (map_option (p2m E) (pow_u256_checked E (m2p E gbase) exponent)))))))"

definition native_try_pow_u64 ::
  "wide_ops \<Rightarrow> pow_gas \<Rightarrow> native_context \<Rightarrow> 'ty list \<Rightarrow> vm_value list \<Rightarrow> native_outcome" where
  "native_try_pow_u64 E gas_params ctx ty_args args =
     vm_try (expect_native_signature (length args) 2 (length ty_args) 0) (\<lambda>_.
     pop_arg as_u8 args (\<lambda>exponent args.
     pop_arg as_u64 args (\<lambda>gbase args.
     native_charge_gas_early_exit ctx (pow_gas_cost (gp_base gas_params) (gp_per_exponent gas_params) (ucast exponent)) (\<lambda>ctx.
     or_false ctx VU64 (checked_pow gbase (unat exponent))))))"

definition native_try_pow_u128 ::
  "wide_ops \<Rightarrow> pow_gas \<Rightarrow> native_context \<Rightarrow> 'ty list \<Rightarrow> vm_value list \<Rightarrow> native_outcome" where
  "native_try_pow_u128 E gas_params ctx ty_args args =
     vm_try (expect_native_signature (length args) 2 (length ty_args) 0) (\<lambda>_.
     pop_arg as_u32 args (\<lambda>exponent args.
     pop_arg as_u128 args (\<lambda>gbase args.
     native_charge_gas_early_exit ctx (pow_gas_cost (gp_base gas_params) (gp_per_exponent gas_params) (ucast exponent)) (\<lambda>ctx.
     or_false ctx VU128 (checked_pow gbase (unat exponent))))))"

definition native_try_pow_u256 ::
  "wide_ops \<Rightarrow> pow_gas \<Rightarrow> native_context \<Rightarrow> 'ty list \<Rightarrow> vm_value list \<Rightarrow> native_outcome" where
  "native_try_pow_u256 E gas_params ctx ty_args args =
     vm_try (expect_native_signature (length args) 2 (length ty_args) 0) (\<lambda>_.
     pop_arg as_u32 args (\<lambda>exponent args.
     pop_arg as_u256 args (\<lambda>gbase args.
     native_charge_gas_early_exit ctx (pow_gas_cost (gp_base gas_params) (gp_per_exponent gas_params) (ucast exponent)) (\<lambda>ctx.
     or_false ctx VU256 (map_option (p2m E) (pow_u256_checked E (m2p E gbase) exponent))))))"

definition native_mul_div_u128 ::
  "wide_ops \<Rightarrow> base_gas \<Rightarrow> native_context \<Rightarrow> 'ty list \<Rightarrow> vm_value list \<Rightarrow> native_outcome" where
  "native_mul_div_u128 E gas_params ctx ty_args args =
     vm_try (expect_native_signature (length args) 3 (length ty_args) 0) (\<lambda>_.
     native_charge_gas_early_exit ctx (gp_base gas_params) (\<lambda>ctx.
     pop_arg as_u128 args (\<lambda>z args.
     pop_arg as_u128 args (\<lambda>y args.
     pop_arg as_u128 args (\<lambda>x args.
     Option.bind (mul_div_u128_checked E x y z) (or_abort ctx VU128))))))"

definition native_mul_div_round_u128 ::
  "wide_ops \<Rightarrow> base_gas \<Rightarrow> native_context \<Rightarrow> 'ty list \<Rightarrow> vm_value list \<Rightarrow> native_outcome" where
  "native_mul_div_round_u128 E gas_params ctx ty_args args =
     vm_try (expect_native_signature (length args) 4 (length ty_args) 0) (\<lambda>_.
     native_charge_gas_early_exit ctx (gp_base gas_params) (\<lambda>ctx.
     pop_arg as_bool args (\<lambda>round_up args.
     pop_arg as_u128 args (\<lambda>z args.
     pop_arg as_u128 args (\<lambda>y args.
     pop_arg as_u128 args (\<lambda>x args.
     Option.bind (mul_div_u128_round_checked E x y z round_up) (or_abort ctx VU128)))))))"

definition native_try_mul_div_u128 ::
  "wide_ops \<Rightarrow> base_gas \<Rightarrow> native_context \<Rightarrow> 'ty list \<Rightarrow> vm_value list \<Rightarrow> native_outcome" where
  "native_try_mul_div_u128 E gas_params ctx ty_args args =
     vm_try (expect_native_signature (length args) 3 (length ty_args) 0) (\<lambda>_.
     native_charge_gas_early_exit ctx (gp_base gas_params) (\<lambda>ctx.
     pop_arg as_u128 args (\<lambda>z args.
     pop_arg as_u128 args (\<lambda>y args.
     pop_arg as_u128 args (\<lambda>x args.
     Option.bind (mul_div_u128_checked E x y z) (\<lambda>r. or_false ctx VU128 (result_ok r)))))))"

definition native_mul_add_u128 ::
  "wide_ops \<Rightarrow> base_gas \<Rightarrow> native_context \<Rightarrow> 'ty list \<Rightarrow> vm_value list \<Rightarrow> native_outcome" where
  "native_mul_add_u128 E gas_params ctx ty_args args =
     vm_try (expect_native_signature (length args) 3 (length ty_args) 0) (\<lambda>_.
     native_charge_gas_early_exit ctx (gp_base gas_params) (\<lambda>ctx.
     pop_arg as_u128 args (\<lambda>z args.
     pop_arg as_u128 args (\<lambda>y args.
     pop_arg as_u128 args (\<lambda>x args.
     Option.bind (mul_add_u128_checked E x y z) (or_abort ctx VU128))))))"

definition native_mul_div_u256 ::
  "wide_ops \<Rightarrow> base_gas \<Rightarrow> native_context \<Rightarrow> 'ty list \<Rightarrow> vm_value list \<Rightarrow> native_outcome" where
  "native_mul_div_u256 E gas_params ctx ty_args args =
     vm_try (expect_native_signature (length args) 3 (length ty_args) 0) (\<lambda>_.
     native_charge_gas_early_exit ctx (gp_base gas_params) (\<lambda>ctx.
     pop_arg as_u256 args (\<lambda>z args.
     pop_arg as_u256 args (\<lambda>y args.
     pop_arg as_u256 args (\<lambda>x args.
     Option.bind (mul_div_u256_checked E x y z) (or_abort ctx VU256))))))"

definition native_mul_div_round_u256 ::
  "wide_ops \<Rightarrow> base_gas \<Rightarrow> native_context \<Rightarrow> 'ty list \<Rightarrow> vm_value list \<Rightarrow> native_outcome" where
  "native_mul_div_round_u256 E gas_params ctx ty_args args =
     vm_try (expect_native_signature (length args) 4 (length ty_args) 0) (\<lambda>_.
     native_charge_gas_early_exit ctx (gp_base gas_params) (\<lambda>ctx.
     pop_arg as_bool args (\<lambda>round_up args.
     pop_arg as_u256 args (\<lambda>z args.
     pop_arg as_u256 args (\<lambda>y args.
     pop_arg as_u256 args (\<lambda>x args.
     Option.bind (mul_div_u256_round_checked E x y z round_up) (or_abort ctx VU256)))))))"

definition native_try_mul_div_u256 ::
  "wide_ops \<Rightarrow> base_gas \<Rightarrow> native_context \<Rightarrow> 'ty list \<Rightarrow> vm_value list \<Rightarrow> native_outcome" where
  "native_try_mul_div_u256 E gas_params ctx ty_args args =
     vm_try (expect_native_signature (length args) 3 (length ty_args) 0) (\<lambda>_.
     native_charge_gas_early_exit ctx (gp_base gas_params) (\<lambda>ctx.
     pop_arg as_u256 args (\<lambda>z args.
     pop_arg as_u256 args (\<lambda>y args.
     pop_arg as_u256 args (\<lambda>x args.
     Option.bind (mul_div_u256_checked E x y z) (\<lambda>r. or_false ctx VU256 (result_ok r)))))))"

definition native_mul_add_u256 ::
  "wide_ops \<Rightarrow> base_gas \<Rightarrow> native_context \<Rightarrow> 'ty list \<Rightarrow> vm_value list \<Rightarrow> native_outcome" where
  "native_mul_add_u256 E gas_params ctx ty_args args =
     vm_try (expect_native_signature (length args) 3 (length ty_args) 0) (\<lambda>_.
     native_charge_gas_early_exit ctx (gp_base gas_params) (\<lambda>ctx.
     pop_arg as_u256 args (\<lambda>z args.
     pop_arg as_u256 args (\<lambda>y args.
     pop_arg as_u256 args (\<lambda>x args.
     Option.bind (mul_add_u256_checked E x y z) (or_abort ctx VU256))))))"

definition native_min_u128 ::
  "wide_ops \<Rightarrow> base_gas \<Rightarrow> native_context \<Rightarrow> 'ty list \<Rightarrow> vm_value list \<Rightarrow> native_outcome" where
  "native_min_u128 E gas_params ctx ty_args args =
     vm_try (expect_native_signature (length args) 2 (length ty_args) 0) (\<lambda>_.
     native_charge_gas_early_exit ctx (gp_base gas_params) (\<lambda>ctx.
     pop_arg as_u128 args (\<lambda>b args.
     pop_arg as_u128 args (\<lambda>a args.
     nr_ok (native_gas_used ctx) [VU128 (min a b)]))))"

definition native_max_u128 ::
  "wide_ops \<Rightarrow> base_gas \<Rightarrow> native_context \<Rightarrow> 'ty list \<Rightarrow> vm_value list \<Rightarrow> native_outcome" where
  "native_max_u128 E gas_params ctx ty_args args =
     vm_try (expect_native_signature (length args) 2 (length ty_args) 0) (\<lambda>_.
     native_charge_gas_early_exit ctx (gp_base gas_params) (\<lambda>ctx.
     pop_arg as_u128 args (\<lambda>b args.
     pop_arg as_u128 args (\<lambda>a args.
     nr_ok (native_gas_used ctx) [VU128 (max a b)]))))"

definition native_min_u256 ::
  "wide_ops \<Rightarrow> base_gas \<Rightarrow> native_context \<Rightarrow> 'ty list \<Rightarrow> vm_value list \<Rightarrow> native_outcome" where
  "native_min_u256 E gas_params ctx ty_args args =
     vm_try (expect_native_signature (length args) 2 (length ty_args) 0) (\<lambda>_.
     native_charge_gas_early_exit ctx (gp_base gas_params) (\<lambda>ctx.
     pop_arg as_u256 args (\<lambda>b args.
     pop_arg as_u256 args (\<lambda>a args.
     nr_ok (native_gas_used ctx) [VU256 (p2m E (min (m2p E a) (m2p E b)))]))))"

definition native_max_u256 ::
  "wide_ops \<Rightarrow> base_gas \<Rightarrow> native_context \<Rightarrow> 'ty list \<Rightarrow> vm_value list \<Rightarrow> native_outcome" where
  "native_max_u256 E gas_params ctx ty_args args =
     vm_try (expect_native_signature (length args) 2 (length ty_args) 0) (\<lambda>_.
     native_charge_gas_early_exit ctx (gp_base gas_params) (\<lambda>ctx.
     pop_arg as_u256 args (\<lambda>b args.
     pop_arg as_u256 args (\<lambda>a args.
     nr_ok (native_gas_used ctx) [VU256 (p2m E (max (m2p E a) (m2p E b)))]))))"

definition native_average_u64 ::
  "wide_ops \<Rightarrow> base_gas \<Rightarrow> native_context \<Rightarrow> 'ty list \<Rightarrow> vm_value list \<Rightarrow> native_outcome" where
  "native_average_u64 E gas_params ctx ty_args args =
     vm_try (expect_native_signature (length args) 2 (length ty_args) 0) (\<lambda>_.
     native_charge_gas_early_exit ctx (gp_base gas_params) (\<lambda>ctx.
     pop_arg as_u64 args (\<lambda>b args.
     pop_arg as_u64 args (\<lambda>a args.
     nr_ok (native_gas_used ctx) [VU64 (average_u64 a b)]))))"

definition native_average_u128 ::
  "wide_ops \<Rightarrow> base_gas \<Rightarrow> native_context \<Rightarrow> 'ty list \<Rightarrow> vm_value list \<Rightarrow> native_outcome" where
  "native_average_u128 E gas_params ctx ty_args args =
     vm_try (expect_native_signature (length args) 2 (length ty_args) 0) (\<lambda>_.
     native_charge_gas_early_exit ctx (gp_base gas_params) (\<lambda>ctx.
     pop_arg as_u128 args (\<lambda>b args.
     pop_arg as_u128 args (\<lambda>a args.
     nr_ok (native_gas_used ctx) [VU128 (average_u128 a b)]))))"

definition native_average_u256 ::
  "wide_ops \<Rightarrow> base_gas \<Rightarrow> native_context \<Rightarrow> 'ty list \<Rightarrow> vm_value list \<Rightarrow> native_outcome" where
  "native_average_u256 E gas_params ctx ty_args args =
     vm_try (expect_native_signature (length args) 2 (length ty_args) 0) (\<lambda>_.
     native_charge_gas_early_exit ctx (gp_base gas_params) (\<lambda>ctx.
     pop_arg as_u256 args (\<lambda>b args.
     pop_arg as_u256 args (\<lambda>a args.
     Option.bind (average_u256 E (m2p E a) (m2p E b)) (\<lambda>v.
     nr_ok (native_gas_used ctx) [VU256 (p2m E v)])))))"

definition native_clamp_u64 ::
  "wide_ops \<Rightarrow> base_gas \<Rightarrow> native_context \<Rightarrow> 'ty list \<Rightarrow> vm_value list \<Rightarrow> native_outcome" where
  "native_clamp_u64 E gas_params ctx ty_args args =
     vm_try (expect_native_signature (length args) 3 (length ty_args) 0) (\<lambda>_.
     native_charge_gas_early_exit ctx (gp_base gas_params) (\<lambda>ctx.
     pop_arg as_u64 args (\<lambda>hi args.
     pop_arg as_u64 args (\<lambda>lo args.
     pop_arg as_u64 args (\<lambda>x args.
     or_abort ctx VU64 (clamp_u64 x lo hi))))))"

definition native_clamp_u128 ::
  "wide_ops \<Rightarrow> base_gas \<Rightarrow> native_context \<Rightarrow> 'ty list \<Rightarrow> vm_value list \<Rightarrow> native_outcome" where
  "native_clamp_u128 E gas_params ctx ty_args args =
     vm_try (expect_native_signature (length args) 3 (length ty_args) 0) (\<lambda>_.
     native_charge_gas_early_exit ctx (gp_base gas_params) (\<lambda>ctx.
     pop_arg as_u128 args (\<lambda>hi args.
     pop_arg as_u128 args (\<lambda>lo args.
     pop_arg as_u128 args (\<lambda>x args.
     or_abort ctx VU128 (clamp_u128 x lo hi))))))"

definition native_clamp_u256 ::
  "wide_ops \<Rightarrow> base_gas \<Rightarrow> native_context \<Rightarrow> 'ty list \<Rightarrow> vm_value list \<Rightarrow> native_outcome" where
  "native_clamp_u256 E gas_params ctx ty_args args =
     vm_try (expect_native_signature (length args) 3 (length ty_args) 0) (\<lambda>_.
     native_charge_gas_early_exit ctx (gp_base gas_params) (\<lambda>ctx.
     pop_arg as_u256 args (\<lambda>hi args.
     pop_arg as_u256 args (\<lambda>lo args.
     pop_arg as_u256 args (\<lambda>x args.
     or_abort ctx VU256 (map_sum id (p2m E) (clamp_u256 (m2p E x) (m2p E lo) (m2p E hi))))))))"

definition native_log2_u64 ::
  "wide_ops \<Rightarrow> base_gas \<Rightarrow> native_context \<Rightarrow> 'ty list \<Rightarrow> vm_value list \<Rightarrow> native_outcome" where
  "native_log2_u64 E gas_params ctx ty_args args =
     vm_try (expect_native_signature (length args) 1 (length ty_args) 0) (\<lambda>_.
     native_charge_gas_early_exit ctx (gp_base gas_params) (\<lambda>ctx.
     pop_arg as_u64 args (\<lambda>x args.
     or_abort ctx VU64 (log2_u64_checked x))))"

definition native_log2_u128 ::
  "wide_ops \<Rightarrow> base_gas \<Rightarrow> native_context \<Rightarrow> 'ty list \<Rightarrow> vm_value list \<Rightarrow> native_outcome" where
  "native_log2_u128 E gas_params ctx ty_args args =
     vm_try (expect_native_signature (length args) 1 (length ty_args) 0) (\<lambda>_.
     native_charge_gas_early_exit ctx (gp_base gas_params) (\<lambda>ctx.
     pop_arg as_u128 args (\<lambda>x args.
     or_abort ctx VU128 (log2_u128_checked x))))"

definition native_log2_u256 ::
  "wide_ops \<Rightarrow> base_gas \<Rightarrow> native_context \<Rightarrow> 'ty list \<Rightarrow> vm_value list \<Rightarrow> native_outcome" where
  "native_log2_u256 E gas_params ctx ty_args args =
     vm_try (expect_native_signature (length args) 1 (length ty_args) 0) (\<lambda>_.
     native_charge_gas_early_exit ctx (gp_base gas_params) (\<lambda>ctx.
     pop_arg as_u256 args (\<lambda>x args.
     or_abort ctx VU256 (map_sum id (p2m E) (log2_u256_checked E x)))))"

definition native_ceil_div_u64 ::
  "wide_ops \<Rightarrow> base_gas \<Rightarrow> native_context \<Rightarrow> 'ty list \<Rightarrow> vm_value list \<Rightarrow> native_outcome" where
  "native_ceil_div_u64 E gas_params ctx ty_args args =
     vm_try (expect_native_signature (length args) 2 (length ty_args) 0) (\<lambda>_.
     native_charge_gas_early_exit ctx (gp_base gas_params) (\<lambda>ctx.
     pop_arg as_u64 args (\<lambda>b args.
     pop_arg as_u64 args (\<lambda>a args.
     or_abort ctx VU64 (ceil_div_u64 a b)))))"

definition native_ceil_div_u128 ::
  "wide_ops \<Rightarrow> base_gas \<Rightarrow> native_context \<Rightarrow> 'ty list \<Rightarrow> vm_value list \<Rightarrow> native_outcome" where
  "native_ceil_div_u128 E gas_params ctx ty_args args =
     vm_try (expect_native_signature (length args) 2 (length ty_args) 0) (\<lambda>_.
     native_charge_gas_early_exit ctx (gp_base gas_params) (\<lambda>ctx.
     pop_arg as_u128 args (\<lambda>b args.
     pop_arg as_u128 args (\<lambda>a args.
     or_abort ctx VU128 (ceil_div_u128 a b)))))"

definition native_ceil_div_u256 ::
  "wide_ops \<Rightarrow> base_gas \<Rightarrow> native_context \<Rightarrow> 'ty list \<Rightarrow> vm_value list \<Rightarrow> native_outcome" where
  "native_ceil_div_u256 E gas_params ctx ty_args args =
     vm_try (expect_native_signature (length args) 2 (length ty_args) 0) (\<lambda>_.
     native_charge_gas_early_exit ctx (gp_base gas_params) (\<lambda>ctx.
     pop_arg as_u256 args (\<lambda>b args.
     pop_arg as_u256 args (\<lambda>a args.
     Option.bind (ceil_div_u256 E (m2p E a) (m2p E b)) (\<lambda>r.
     or_abort ctx VU256 (map_sum id (p2m E) r))))))"

text \<open>The table \<^verbatim>\<open>make_all\<close> registers.\<close>

definition math_make_all ::
  "wide_ops \<Rightarrow> math_gas \<Rightarrow> (string \<times> (native_context \<Rightarrow> 'ty list \<Rightarrow> vm_value list \<Rightarrow> native_outcome)) list" where
  "math_make_all E gas_params =
     [(''sqrt_u128'', native_sqrt_u128 E (mg_sqrt_u128 gas_params)),
      (''sqrt_u64'', native_sqrt_u64 E (mg_sqrt_u64 gas_params)),
      (''sqrt_u256'', native_sqrt_u256 E (mg_sqrt_u256 gas_params)),
      (''pow_u64'', native_pow_u64 E (mg_pow_u64 gas_params)),
      (''pow_u128'', native_pow_u128 E (mg_pow_u128 gas_params)),
      (''pow_u256'', native_pow_u256 E (mg_pow_u256 gas_params)),
      (''try_pow_u64'', native_try_pow_u64 E (mg_try_pow_u64 gas_params)),
      (''try_pow_u128'', native_try_pow_u128 E (mg_try_pow_u128 gas_params)),
      (''try_pow_u256'', native_try_pow_u256 E (mg_try_pow_u256 gas_params)),
      (''mul_div_u128'', native_mul_div_u128 E (mg_mul_div_u128 gas_params)),
      (''mul_div_round_u128'', native_mul_div_round_u128 E (mg_mul_div_round_u128 gas_params)),
      (''try_mul_div_u128'', native_try_mul_div_u128 E (mg_try_mul_div_u128 gas_params)),
      (''mul_add_u128'', native_mul_add_u128 E (mg_mul_add_u128 gas_params)),
      (''mul_div_u256'', native_mul_div_u256 E (mg_mul_div_u256 gas_params)),
      (''mul_div_round_u256'', native_mul_div_round_u256 E (mg_mul_div_round_u256 gas_params)),
      (''try_mul_div_u256'', native_try_mul_div_u256 E (mg_try_mul_div_u256 gas_params)),
      (''mul_add_u256'', native_mul_add_u256 E (mg_mul_add_u256 gas_params)),
      (''min_u128'', native_min_u128 E (mg_min_u128 gas_params)),
      (''max_u128'', native_max_u128 E (mg_max_u128 gas_params)),
      (''min_u256'', native_min_u256 E (mg_min_u256 gas_params)),
      (''max_u256'', native_max_u256 E (mg_max_u256 gas_params)),
      (''average_u64'', native_average_u64 E (mg_average_u64 gas_params)),
      (''average_u128'', native_average_u128 E (mg_average_u128 gas_params)),
      (''average_u256'', native_average_u256 E (mg_average_u256 gas_params)),
      (''clamp_u64'', native_clamp_u64 E (mg_clamp_u64 gas_params)),
      (''clamp_u128'', native_clamp_u128 E (mg_clamp_u128 gas_params)),
      (''clamp_u256'', native_clamp_u256 E (mg_clamp_u256 gas_params)),
      (''log2_u64'', native_log2_u64 E (mg_log2_u64 gas_params)),
      (''log2_u128'', native_log2_u128 E (mg_log2_u128 gas_params)),
      (''log2_u256'', native_log2_u256 E (mg_log2_u256 gas_params)),
      (''ceil_div_u64'', native_ceil_div_u64 E (mg_ceil_div_u64 gas_params)),
      (''ceil_div_u128'', native_ceil_div_u128 E (mg_ceil_div_u128 gas_params)),
      (''ceil_div_u256'', native_ceil_div_u256 E (mg_ceil_div_u256 gas_params))]"

end
