(* ===== verification/Math_Natives_Correct.thy ===== *)
theory Math_Natives_Correct
  imports Math_Natives
begin

text \<open>
  Correctness of the math natives. \<open>uint_laws\<close> and \<open>wide_laws\<close> state what the wide integer packages document; the
  checked helpers then compute the exact result on natural numbers, the two loops (powers by squaring and the
  binary search of the square root) end with it, and \<open>math_contract\<close> lists what each of the 33 registered natives
  takes, charges and answers. \<open>uint_model\<close> and \<open>wide_model\<close> show that the hypotheses can hold.
\<close>

section \<open>What the wide integers promise\<close>

fun le_bytes :: "nat \<Rightarrow> nat \<Rightarrow> bytes" where
  "le_bytes 0 n = []"
| "le_bytes (Suc k) n = of_nat n # le_bytes k (n div 256)"

fun of_le_bytes :: "bytes \<Rightarrow> nat" where
  "of_le_bytes [] = 0"
| "of_le_bytes (b # bs) = unat b + 256 * of_le_bytes bs"

definition uint_laws :: "'a::len word uint_ops \<Rightarrow> bool" where
  "uint_laws ops \<longleftrightarrow>
     (\<forall>a b. unat a + unat b < 2 ^ LENGTH('a) \<longrightarrow> ui_add ops a b = Some (a + b)) \<and>
     (\<forall>a b. b \<le> a \<longrightarrow> ui_sub ops a b = Some (a - b)) \<and>
     (\<forall>a b. unat a * unat b < 2 ^ LENGTH('a) \<longrightarrow> ui_mul ops a b = Some (a * b)) \<and>
     (\<forall>a b. b \<noteq> 0 \<longrightarrow> ui_div ops a b = Some (a div b) \<and> ui_rem ops a b = Some (a mod b) \<and>
        ui_div_mod ops a b = Some (a div b, a mod b)) \<and>
     (\<forall>a b. ui_and ops a b = a AND b \<and> ui_xor ops a b = a XOR b) \<and>
     (\<forall>a b. ui_checked_add ops a b = checked_add a b) \<and>
     (\<forall>a b. ui_checked_mul ops a b = (if unat a * unat b < 2 ^ LENGTH('a) then Some (a * b) else None)) \<and>
     (\<forall>a. ui_bits ops a = bit_length (unat a)) \<and>
     (\<forall>a. ui_to_little_endian ops a = le_bytes (LENGTH('a) div 8) (unat a)) \<and>
     (\<forall>bs. length bs = LENGTH('a) div 8 \<longrightarrow> ui_from_little_endian ops bs = of_nat (of_le_bytes bs))"

definition floor_root :: "nat \<Rightarrow> nat \<Rightarrow> bool" where
  "floor_root n r \<longleftrightarrow> r * r \<le> n \<and> n < Suc r * Suc r"

definition wide_laws :: "wide_ops \<Rightarrow> bool" where
  "wide_laws E \<longleftrightarrow> uint_laws (ethnum E) \<and> uint_laws (p256 E) \<and> uint_laws (p512 E) \<and>
     (\<forall>x. floor_root (unat x) (unat (roots_u64 E x))) \<and> (\<forall>x. floor_root (unat x) (unat (roots_u128 E x)))"

lemma uint_lawsD:
  fixes ops :: "'a::len word uint_ops"
  assumes "uint_laws ops"
  shows "unat a + unat b < 2 ^ LENGTH('a) \<Longrightarrow> ui_add ops a b = Some (a + b)"
    and "b \<le> a \<Longrightarrow> ui_sub ops a b = Some (a - b)"
    and "unat a * unat b < 2 ^ LENGTH('a) \<Longrightarrow> ui_mul ops a b = Some (a * b)"
    and "b \<noteq> 0 \<Longrightarrow> ui_div ops a b = Some (a div b)"
    and "b \<noteq> 0 \<Longrightarrow> ui_rem ops a b = Some (a mod b)"
    and "b \<noteq> 0 \<Longrightarrow> ui_div_mod ops a b = Some (a div b, a mod b)"
    and "ui_and ops a b = a AND b"
    and "ui_xor ops a b = a XOR b"
    and "ui_checked_add ops a b = checked_add a b"
    and "ui_checked_mul ops a b = (if unat a * unat b < 2 ^ LENGTH('a) then Some (a * b) else None)"
    and "ui_bits ops a = bit_length (unat a)"
    and "ui_to_little_endian ops a = le_bytes (LENGTH('a) div 8) (unat a)"
    and "length bs = LENGTH('a) div 8 \<Longrightarrow> ui_from_little_endian ops bs = of_nat (of_le_bytes bs)"
  using assms unfolding uint_laws_def by blast+

lemma wide_lawsD:
  assumes "wide_laws E"
  shows "uint_laws (ethnum E)" and "uint_laws (p256 E)" and "uint_laws (p512 E)"
    and "floor_root (unat x) (unat (roots_u64 E x))" and "floor_root (unat y) (unat (roots_u128 E y))"
  using assms unfolding wide_laws_def by blast+

lemmas ethnum_ops = uint_lawsD [OF wide_lawsD(1)]
lemmas p256_ops = uint_lawsD [OF wide_lawsD(2)]
lemmas p512_ops = uint_lawsD [OF wide_lawsD(3)]

lemma length_le_bytes [simp]: "length (le_bytes k n) = k"
  by (induction k arbitrary: n) auto

lemma of_le_bytes_le_bytes: "of_le_bytes (le_bytes k n) = n mod 256 ^ k"
proof (induction k arbitrary: n)
  case (Suc k)
  have "unat (of_nat n :: byte) = n mod 256" by (simp add: unat_of_nat)
  then show ?case by (simp add: Suc mod_mult2_eq)
qed simp

lemma take_le_bytes: "k \<le> l \<Longrightarrow> take k (le_bytes l n) = le_bytes k n"
proof (induction k arbitrary: l n)
  case (Suc k)
  then show ?case by (cases l) auto
qed simp

lemma pow_256: "(256 :: nat) ^ 32 = 2 ^ 256"
  by simp

lemma unat_u256_less: "unat (x :: u256) < 256 ^ 32"
  using unat_lt_size [of x] by simp

lemma m2p_id: "wide_laws E \<Longrightarrow> m2p E x = x"
  by (simp add: m2p_def p256_ops of_le_bytes_le_bytes unat_u256_less del: power_numeral)

lemma p2m_id: "wide_laws E \<Longrightarrow> p2m E x = x"
  by (simp add: p2m_def p256_ops of_le_bytes_le_bytes unat_u256_less del: power_numeral)

lemma p2m_id_fun: "wide_laws E \<Longrightarrow> p2m E = id"
  by (auto simp: p2m_id)

section \<open>Multiplication and division\<close>

definition fits :: "nat \<Rightarrow> u64 + 'a::len word" where
  "fits n = (if n < 2 ^ LENGTH('a) then Inr (of_nat n) else Inl E_OVERFLOW)"

definition nat_ceil_div :: "nat \<Rightarrow> nat \<Rightarrow> nat" where
  "nat_ceil_div a b = (a + b - 1) div b"

lemma nat_ceil_div_eq: "0 < b \<Longrightarrow> nat_ceil_div a b = (if a mod b = 0 then a div b else Suc (a div b))"
proof -
  assume b: "0 < b"
  have "(b * (a div b) + (a mod b + b - 1)) div b = a div b + (a mod b + b - 1) div b"
    by (rule div_mult_self4) (use b in simp)
  moreover have "a + b - 1 = b * (a div b) + (a mod b + b - 1)"
    using b mult_div_mod_eq [of b a] by linarith
  moreover have "(a mod b + b - 1) div b = (if a mod b = 0 then 0 else 1)"
  proof (cases "a mod b = 0")
    case False
    then obtain k where k: "a mod b = Suc k" using not0_implies_Suc by blast
    then have "k < b" using mod_less_divisor [OF b, of a] by linarith
    then have "(k + b) div b = 1" using b by (simp add: div_add_self2)
    then show ?thesis using k by simp
  qed (use b in simp)
  ultimately show "nat_ceil_div a b = (if a mod b = 0 then a div b else Suc (a div b))"
    unfolding nat_ceil_div_def by simp
qed

lemma unat_widen: "LENGTH('a::len) \<le> LENGTH('b::len) \<Longrightarrow> unat (ucast (x :: 'a word) :: 'b word) = unat x"
  by (simp add: unsigned_ucast_eq take_bit_nat_eq_self_iff order_less_le_trans [OF unsigned_less])

lemma unat_top: "unat (- 1 :: 'a::len word) = 2 ^ LENGTH('a) - 1"
  by (rule unat_max_word)

lemma fits_narrow:
  assumes "LENGTH('a::len) \<le> LENGTH('b::len)"
  shows "(if (ucast (- 1 :: 'a word) :: 'b word) < v then Inl E_OVERFLOW else Inr (ucast v)) = (fits (unat v) :: u64 + 'a word)"
proof -
  have "(ucast (- 1 :: 'a word) :: 'b word) < v \<longleftrightarrow> 2 ^ LENGTH('a) \<le> unat v"
    unfolding word_less_nat_alt unat_widen [OF assms] unat_top by (simp add: Suc_le_eq [symmetric])
  moreover have "ucast v = (of_nat (unat v) :: 'a word)" by (simp add: word_unat_eq_iff unsigned_ucast_eq unsigned_of_nat)
  ultimately show ?thesis by (simp add: fits_def)
qed

lemma narrow_u128_fits: "narrow_u128 r = fits (unat r)"
  unfolding narrow_u128_def by (rule fits_narrow) simp

lemma fit_u256_fits:
  assumes "wide_laws E"
  shows "fit_u256 E v = fits (unat v)"
proof -
  have "of_nat (of_le_bytes (le_bytes 32 (unat v))) = (ucast v :: u256)"
    unfolding of_le_bytes_le_bytes pow_256
    by (simp add: word_unat_eq_iff unsigned_ucast_eq unsigned_of_nat take_bit_eq_mod)
  then have "fit_u256 E v = (if (ucast (- 1 :: u256) :: u512) < v then Inl E_OVERFLOW else Inr (ucast v))"
    unfolding fit_u256_def by (simp add: p256_ops [OF assms] p512_ops [OF assms] take_le_bytes)
  also have "\<dots> = fits (unat v)" by (rule fits_narrow) simp
  finally show ?thesis .
qed

lemma widen:
  fixes x y z :: "'a::len word"
  assumes L: "LENGTH('b::len) = 2 * LENGTH('a)"
  defines "x' \<equiv> ucast x :: 'b word" and "y' \<equiv> ucast y :: 'b word" and "z' \<equiv> ucast z :: 'b word"
  shows "unat x' * unat y' < 2 ^ LENGTH('b)" and "unat (x' * y') = unat x * unat y"
    and "unat (x' * y') + unat z' < 2 ^ LENGTH('b)" and "unat (x' * y' + z') = unat x * unat y + unat z"
    and "unat (x' * y' div z') = unat x * unat y div unat z"
    and "unat (x' * y' mod z') = unat x * unat y mod unat z"
    and "z' = 0 \<longleftrightarrow> z = 0"
proof -
  have w: "unat x' = unat x" "unat y' = unat y" "unat z' = unat z"
    unfolding x'_def y'_def z'_def by (simp_all add: unat_widen L)
  have "unat x * unat y + unat z < unat x * 2 ^ LENGTH('a) + 2 ^ LENGTH('a)"
    using unsigned_less [of y] unsigned_less [of z] by (intro add_le_less_mono mult_le_mono) (simp_all add: less_imp_le)
  also have "\<dots> = Suc (unat x) * 2 ^ LENGTH('a)" by simp
  also have "\<dots> \<le> 2 ^ LENGTH('a) * 2 ^ LENGTH('a)"
    using unat_lt_size [of x] by (intro mult_le_mono1) (simp only: Suc_le_eq)
  also have "\<dots> = 2 ^ LENGTH('b)" by (simp add: L mult_2 power_add)
  finally have b: "unat x * unat y + unat z < 2 ^ LENGTH('b)" .
  then show p: "unat x' * unat y' < 2 ^ LENGTH('b)" by (simp add: w)
  then show q: "unat (x' * y') = unat x * unat y" by (simp only: unat_mult_no_wrap w)
  show r: "unat (x' * y') + unat z' < 2 ^ LENGTH('b)" using b by (simp only: q w)
  then show "unat (x' * y' + z') = unat x * unat y + unat z" by (simp only: unat_add_no_wrap q w)
  show "unat (x' * y' div z') = unat x * unat y div unat z" by (simp only: unat_div_distrib q w)
  show "unat (x' * y' mod z') = unat x * unat y mod unat z" by (simp only: unat_mod_distrib q w)
  show "z' = 0 \<longleftrightarrow> z = 0" using w(3) by (simp add: word_unat_eq_iff)
qed

lemma widen_facts:
  fixes x y z :: "'a::len word"
  assumes "LENGTH('b::len) = 2 * LENGTH('a)"
  shows "unat (ucast x :: 'b word) * unat (ucast y :: 'b word) < 2 ^ LENGTH('b) \<and>
    unat (ucast x * ucast y :: 'b word) = unat x * unat y \<and>
    unat (ucast x * ucast y :: 'b word) + unat (ucast z :: 'b word) < 2 ^ LENGTH('b) \<and>
    unat (ucast x * ucast y + ucast z :: 'b word) = unat x * unat y + unat z \<and>
    unat (ucast x * ucast y div ucast z :: 'b word) = unat x * unat y div unat z \<and>
    unat (ucast x * ucast y mod ucast z :: 'b word) = unat x * unat y mod unat z \<and>
    ((ucast z :: 'b word) = 0 \<longleftrightarrow> z = 0)"
  using widen [OF assms] by blast

lemma widen_round:
  fixes x y z :: "'a::len word"
  assumes L: "LENGTH('b::len) = 2 * LENGTH('a)" and z: "z \<noteq> 0"
  defines "q \<equiv> (ucast x * ucast y div ucast z) :: 'b word" and "r \<equiv> (ucast x * ucast y mod ucast z) :: 'b word"
  shows "r = 0 \<longleftrightarrow> unat x * unat y mod unat z = 0"
    and "r \<noteq> 0 \<Longrightarrow> unat q + 1 < 2 ^ LENGTH('b)"
    and "r \<noteq> 0 \<Longrightarrow> unat (q + 1) = nat_ceil_div (unat x * unat y) (unat z)"
    and "r = 0 \<Longrightarrow> unat q = nat_ceil_div (unat x * unat y) (unat z)"
proof -
  note W = widen [where 'b = 'b, OF L]
  have zp: "0 < unat z" using z by (simp add: unat_gt_0)
  show r0: "r = 0 \<longleftrightarrow> unat x * unat y mod unat z = 0"
    unfolding r_def word_unat_eq_iff [of _ "0 :: 'b word"] by (simp add: W(6))
  show "r = 0 \<Longrightarrow> unat q = nat_ceil_div (unat x * unat y) (unat z)"
    unfolding r0 q_def by (simp add: W(5) nat_ceil_div_eq zp)
  assume r: "r \<noteq> 0"
  have "unat z * (unat x * unat y div unat z) + unat x * unat y mod unat z < 2 ^ LENGTH('b)"
    using unat_lt_size [of "ucast x * ucast y :: 'b word"] by (simp only: W(2) mult_div_mod_eq)
  moreover have "0 < unat x * unat y mod unat z" using r unfolding r0 by simp
  moreover have "1 * (unat x * unat y div unat z) \<le> unat z * (unat x * unat y div unat z)"
    using zp by (intro mult_le_mono1) simp
  ultimately show b: "unat q + 1 < 2 ^ LENGTH('b)" unfolding q_def W(5) by linarith
  then have "unat (q + 1) = unat q + 1" using unat_add_no_wrap [of q 1] by simp
  then show "unat (q + 1) = nat_ceil_div (unat x * unat y) (unat z)"
    using r unfolding r0 q_def by (simp add: W(5) nat_ceil_div_eq zp)
qed

lemma round_facts:
  fixes x y z :: "'a::len word"
  assumes "LENGTH('b::len) = 2 * LENGTH('a)" and "z \<noteq> 0"
  shows "((ucast x * ucast y mod ucast z :: 'b word) = 0 \<longrightarrow>
      unat (ucast x * ucast y div ucast z :: 'b word) = nat_ceil_div (unat x * unat y) (unat z)) \<and>
    ((ucast x * ucast y mod ucast z :: 'b word) \<noteq> 0 \<longrightarrow>
      unat (ucast x * ucast y div ucast z :: 'b word) + 1 < 2 ^ LENGTH('b) \<and>
      unat (ucast x * ucast y div ucast z + 1 :: 'b word) = nat_ceil_div (unat x * unat y) (unat z))"
  by (intro conjI impI widen_round [OF assms])

text \<open>The answers of the checked operations: exact, or the error code of the branch taken.\<close>

definition mul_div_spec :: "nat \<Rightarrow> nat \<Rightarrow> nat \<Rightarrow> bool \<Rightarrow> u64 + 'a::len word" where
  "mul_div_spec x y z round_up =
     (if z = 0 then Inl E_DIVIDE_BY_ZERO
      else fits (if round_up then nat_ceil_div (x * y) z else x * y div z))"

lemma unat_zero_iff: "unat z = 0 \<longleftrightarrow> z = 0" for z :: "'a::len word"
  by (simp add: word_unat_eq_iff)

lemma mul_div_u128_spec:
  assumes E: "wide_laws E"
  shows "mul_div_u128_checked E x y z = Some (mul_div_spec (unat x) (unat y) (unat z) False)"
  using widen_facts [where 'a = 128 and 'b = 256, of x y z]
  by (simp add: mul_div_u128_checked_def mul_div_spec_def ethnum_ops [OF E] narrow_u128_fits unat_zero_iff)

lemma mul_div_u256_spec:
  assumes E: "wide_laws E"
  shows "mul_div_u256_checked E x y z = Some (mul_div_spec (unat x) (unat y) (unat z) False)"
  using widen_facts [where 'a = 256 and 'b = 512, of x y z]
  by (simp add: mul_div_u256_checked_def mul_div_spec_def p512_ops [OF E] fit_u256_fits [OF E] m2p_id [OF E]
      unat_zero_iff)

lemma mul_add_u128_spec:
  assumes E: "wide_laws E"
  shows "mul_add_u128_checked E x y z = Some (fits (unat x * unat y + unat z))"
  using widen_facts [where 'a = 128 and 'b = 256, of x y z]
  by (simp add: mul_add_u128_checked_def ethnum_ops [OF E] narrow_u128_fits)

lemma mul_add_u256_spec:
  assumes E: "wide_laws E"
  shows "mul_add_u256_checked E x y z = Some (fits (unat x * unat y + unat z))"
  using widen_facts [where 'a = 256 and 'b = 512, of x y z]
  by (simp add: mul_add_u256_checked_def p512_ops [OF E] fit_u256_fits [OF E] m2p_id [OF E])

lemma mul_div_u128_round_spec:
  assumes E: "wide_laws E"
  shows "mul_div_u128_round_checked E x y z up = Some (mul_div_spec (unat x) (unat y) (unat z) up)"
proof (cases "z = 0")
  case False
  then show ?thesis
    using widen_facts [where 'a = 128 and 'b = 256, of x y z] round_facts [where 'a = 128 and 'b = 256, of z x y]
    by (cases up; cases "(ucast x * ucast y mod ucast z :: u256) = 0")
      (simp_all add: mul_div_u128_round_checked_def mul_div_spec_def ethnum_ops [OF E] narrow_u128_fits unat_zero_iff)
qed (simp add: mul_div_u128_round_checked_def mul_div_spec_def)

lemma mul_div_u256_round_spec:
  assumes E: "wide_laws E"
  shows "mul_div_u256_round_checked E x y z up = Some (mul_div_spec (unat x) (unat y) (unat z) up)"
proof (cases "z = 0")
  case False
  then show ?thesis
    using widen_facts [where 'a = 256 and 'b = 512, of x y z] round_facts [where 'a = 256 and 'b = 512, of z x y]
    by (cases up; cases "(ucast x * ucast y mod ucast z :: u512) = 0")
      (simp_all add: mul_div_u256_round_checked_def mul_div_spec_def p512_ops [OF E] fit_u256_fits [OF E]
        m2p_id [OF E] unat_zero_iff checked_add_def)
qed (simp add: mul_div_u256_round_checked_def mul_div_spec_def)


section \<open>Averages, clamping, logarithms and round-up division\<close>

lemma add_xor_and: "m + n = (m XOR n) + 2 * (m AND n)" for m n :: nat
proof (induction m arbitrary: n rule: less_induct)
  case (less m)
  show ?case
  proof (cases "m = 0")
    case False
    then have IH: "m div 2 + n div 2 = (m div 2 XOR n div 2) + 2 * (m div 2 AND n div 2)"
      by (intro less) simp
    have "m + n = 2 * (m div 2 + n div 2) + m mod 2 + n mod 2"
      by presburger
    then show ?thesis
      unfolding xor_nat_rec [of m n] and_nat_rec [of m n] IH
      by (cases "even m"; cases "even n") (simp_all add: odd_iff_mod_2_eq_one)
  qed simp
qed

lemma average_parts:
  fixes a b :: "'a::len word"
  shows "unat (a AND b) + unat (drop_bit 1 (a XOR b)) = (unat a + unat b) div 2"
    and "(unat a + unat b) div 2 < 2 ^ LENGTH('a)"
proof -
  have "unat (drop_bit (Suc 0) (a XOR b)) = (unat a XOR unat b) div 2"
    unfolding unat_drop_bit_1 unsigned_xor_eq ..
  then show "unat (a AND b) + unat (drop_bit 1 (a XOR b)) = (unat a + unat b) div 2"
    unfolding add_xor_and [of "unat a" "unat b"] One_nat_def unsigned_and_eq by simp
  show "(unat a + unat b) div 2 < 2 ^ LENGTH('a)"
    using unat_lt_size [of a] unat_lt_size [of b] by linarith
qed

lemma average_of_nat:
  fixes a b :: "'a::len word"
  shows "(a AND b) + drop_bit 1 (a XOR b) = of_nat ((unat a + unat b) div 2)"
  unfolding average_parts(1) [symmetric] of_nat_add of_nat_unat ucast_id ..

lemma average_u256_spec:
  assumes E: "wide_laws E"
  shows "average_u256 E a b = Some (of_nat ((unat a + unat b) div 2))"
proof -
  have "(a XOR b) div 2 = drop_bit 1 (a XOR b)" unfolding drop_bit_eq_div by simp
  then have "average_u256 E a b = ui_add (p256 E) (a AND b) (drop_bit 1 (a XOR b))"
    by (simp only: average_u256_def p256_ops [OF E] bind.bind_lunit) (simp add: p256_ops [OF E])
  also have "\<dots> = Some ((a AND b) + drop_bit 1 (a XOR b))"
    using average_parts [of a b] by (intro p256_ops [OF E]) simp
  finally show ?thesis unfolding average_of_nat .
qed

definition floor_log2 :: "nat \<Rightarrow> nat" where
  "floor_log2 n = Max {k. 2 ^ k \<le> n}"

definition floor_sqrt :: "nat \<Rightarrow> nat" where
  "floor_sqrt n = Max {r. r * r \<le> n}"

lemma bit_length_bounds: "0 < n \<Longrightarrow> 0 < bit_length n \<and> 2 ^ (bit_length n - 1) \<le> n \<and> n < 2 ^ bit_length n"
proof (induction n rule: bit_length.induct)
  case (1 n)
  show ?case
  proof (cases "n div 2 = 0")
    case True
    then have "n = 1" using "1.prems" by auto
    then show ?thesis by (simp add: bit_length.simps [of "Suc 0"] bit_length.simps [of 0])
  next
    case False
    let ?k = "bit_length (n div 2)"
    have k: "0 < ?k" "2 ^ (?k - 1) \<le> n div 2" "n div 2 < 2 ^ ?k" using "1.IH" "1.prems" False by simp_all
    have "(2 :: nat) ^ ?k = 2 * 2 ^ (?k - 1)" using k(1) by (cases ?k) auto
    then have "2 ^ ?k \<le> n" "n < 2 * 2 ^ ?k" using k(2,3) by linarith+
    moreover have "bit_length n = Suc ?k" using "1.prems" by (simp add: bit_length.simps [of n])
    ultimately show ?thesis by simp
  qed
qed

lemma floor_log2_bit_length: "0 < n \<Longrightarrow> floor_log2 n = bit_length n - 1"
proof -
  assume n: "0 < n"
  note b = bit_length_bounds [OF n]
  have le: "k \<le> bit_length n - 1" if "2 ^ k \<le> n" for k
  proof -
    have "(2 :: nat) ^ k < 2 ^ bit_length n" using that b by linarith
    then have "k < bit_length n" by (simp add: power_strict_increasing_iff)
    then show ?thesis by simp
  qed
  have "finite {k. 2 ^ k \<le> n}" by (rule finite_subset [of _ "{..bit_length n - 1}"]) (use le in auto)
  then show ?thesis unfolding floor_log2_def using b le by (intro Max_eqI) auto
qed

lemma floor_sqrtI: "floor_root n r \<Longrightarrow> floor_sqrt n = r"
proof -
  assume r: "floor_root n r"
  have le: "k \<le> r" if "k * k \<le> n" for k
  proof (rule ccontr)
    assume "\<not> k \<le> r"
    then have "Suc r * Suc r \<le> k * k" by (intro mult_le_mono) simp_all
    then show False using that r unfolding floor_root_def by linarith
  qed
  have "finite {k. k * k \<le> n}" by (rule finite_subset [of _ "{..r}"]) (use le in auto)
  then show ?thesis unfolding floor_sqrt_def using r le by (intro Max_eqI) (auto simp: floor_root_def)
qed

lemma bit_length_word: "bit_length (unat x) \<le> LENGTH('a)" for x :: "'a::len word"
proof (cases "unat x = 0")
  case False
  then have "2 ^ (bit_length (unat x) - 1) < (2 :: nat) ^ LENGTH('a)" "0 < bit_length (unat x)"
    using bit_length_bounds [of "unat x"] unat_lt_size [of x] by linarith+
  then show ?thesis by (simp add: power_strict_increasing_iff)
qed (simp add: bit_length.simps)

lemma leading_zeros_log2:
  fixes x :: "'a::len word"
  assumes "x \<noteq> 0"
  shows "LENGTH('a) - 1 - leading_zeros x = floor_log2 (unat x)" and "leading_zeros x \<le> LENGTH('a) - 1"
  using assms bit_length_word [of x] bit_length_bounds [of "unat x"]
  by (simp_all add: leading_zeros_def floor_log2_bit_length unat_gt_0)

lemma log2_u64_spec:
  "log2_u64_checked x = (if x = 0 then Inl E_INVALID_ARG else Inr (of_nat (floor_log2 (unat x))))"
  using leading_zeros_log2 [of x] by (simp add: log2_u64_checked_def of_nat_diff flip: leading_zeros_log2(1))

lemma log2_u128_spec:
  "log2_u128_checked x = (if x = 0 then Inl E_INVALID_ARG else Inr (of_nat (floor_log2 (unat x))))"
  using leading_zeros_log2 [of x] by (simp add: log2_u128_checked_def of_nat_diff flip: leading_zeros_log2(1))

lemma log2_u256_spec:
  assumes E: "wide_laws E"
  shows "log2_u256_checked E x = (if x = 0 then Inl E_INVALID_ARG else Inr (of_nat (floor_log2 (unat x))))"
proof (cases "x = 0")
  case False
  let ?k = "bit_length (unat x)"
  have k: "0 < ?k" "?k \<le> 256" using False bit_length_bounds [of "unat x"] bit_length_word [of x] by (simp_all add: unat_gt_0)
  then have "of_nat ?k - 1 = (of_nat (?k - 1) :: u64)" by (simp add: of_nat_diff)
  moreover have "unat (of_nat (?k - 1) :: u64) = ?k - 1" using k by (subst unat_of_nat) simp
  then have "(ucast (of_nat (?k - 1) :: u64) :: u256) = of_nat (?k - 1)" using k
    by (simp add: word_unat_eq_iff unat_widen unat_of_nat del: of_nat_diff)
  ultimately show ?thesis using False
    by (simp add: log2_u256_checked_def p256_ops [OF E] m2p_id [OF E] floor_log2_bit_length unat_gt_0)
qed (simp add: log2_u256_checked_def)

lemma ceil_div_word:
  fixes a b :: "'a::len word"
  assumes b: "b \<noteq> 0"
  shows "(if a mod b = 0 then a div b else a div b + 1) = of_nat (nat_ceil_div (unat a) (unat b))"
    and "a mod b \<noteq> 0 \<Longrightarrow> unat (a div b) + 1 < 2 ^ LENGTH('a)"
proof -
  have bp: "0 < unat b" using b by (simp add: unat_gt_0)
  have m: "a mod b = 0 \<longleftrightarrow> unat a mod unat b = 0" by (simp add: word_unat_eq_iff unat_mod_distrib)
  show "(if a mod b = 0 then a div b else a div b + 1) = of_nat (nat_ceil_div (unat a) (unat b))"
    unfolding nat_ceil_div_eq [OF bp] m by (simp flip: unat_div_distrib)
  assume "a mod b \<noteq> 0"
  then have "0 < unat a mod unat b" unfolding m by simp
  moreover have "1 * (unat a div unat b) \<le> unat b * (unat a div unat b)" using bp by (intro mult_le_mono1) simp
  moreover have "unat b * (unat a div unat b) + unat a mod unat b < 2 ^ LENGTH('a)" by simp
  ultimately show "unat (a div b) + 1 < 2 ^ LENGTH('a)" unfolding unat_div_distrib by linarith
qed

lemma ceil_div_u256_spec:
  assumes E: "wide_laws E"
  shows "ceil_div_u256 E a b =
    Some (if b = 0 then Inl E_DIVIDE_BY_ZERO else Inr (of_nat (nat_ceil_div (unat a) (unat b))))"
  using ceil_div_word [of b a]
  by (cases "b = 0"; cases "a mod b = 0") (simp_all add: ceil_div_u256_def p256_ops [OF E])


section \<open>Powers\<close>

lemma unat_power_no_wrap: "unat b ^ e < 2 ^ LENGTH('a) \<Longrightarrow> unat (b ^ e) = unat b ^ e" for b :: "'a::len word"
proof -
  assume "unat b ^ e < 2 ^ LENGTH('a)"
  then show ?thesis using unat_of_nat [where 'a = 'a, of "unat b ^ e"] by simp
qed

lemma and_one_odd: "e AND 1 = 1 \<longleftrightarrow> odd (unat e)" for e :: "'a::len word"
proof -
  have "unat (e AND 1) = unat e mod 2" unfolding unsigned_and_eq by (simp only: unsigned_1 and_one_eq)
  then show ?thesis by (simp add: word_unat_eq_iff odd_iff_mod_2_eq_one)
qed

lemma power_half: "R * B ^ n = (if odd n then R * B else R) * (B * B) ^ (n div 2)" for R B :: "'a::comm_semiring_1"
proof (cases "odd n")
  case True
  then obtain k where "n = 2 * k + 1" by (rule oddE)
  then show ?thesis by (simp add: power_mult power2_eq_square algebra_simps)
next
  case False
  then obtain k where "n = 2 * k" by (auto elim: evenE)
  then show ?thesis by (simp add: power_mult power2_eq_square)
qed

lemma pow_loop_spec:
  assumes E: "wide_laws E"
  shows "(0 < unat b \<longrightarrow> 0 < unat r) \<Longrightarrow> pow_loop E r b e =
    (if unat r * unat b ^ unat e < 2 ^ LENGTH(256) then Some (r * b ^ unat e) else None)"
proof (induction "unat e" arbitrary: r b e rule: less_induct)
  case less
  define lim where "lim = (2 :: nat) ^ LENGTH(256)"
  show ?case
  proof (cases "e = 0")
    case True
    then show ?thesis using unat_lt_size [of r] by (simp add: pow_loop.simps [of E r b 0])
  next
    case e: False
    let ?k = "drop_bit (Suc 0) e"
    have k: "unat ?k = unat e div 2" by (rule unat_drop_bit_1)
    define R where "R = (if odd (unat e) then unat r * unat b else unat r)"
    define r' where "r' = (if odd (unat e) then r * b else r)"
    define X where "X = (unat b * unat b) ^ unat ?k"
    have goal: "unat r * unat b ^ unat e = R * X" "r * b ^ unat e = r' * (b * b) ^ unat ?k"
      unfolding R_def r'_def X_def k by (rule power_half)+
    have loop: "pow_loop E r b e = (if R < lim then
        (if ?k = 0 then Some r' else if unat b * unat b < lim then pow_loop E r' (b * b) ?k else None) else None)"
      using e unat_lt_size [of r] unfolding pow_loop.simps [of E r b e] R_def r'_def lim_def
      by (simp add: p256_ops [OF E] and_one_odd word_neq_0_conv [symmetric] pow_loop.simps [of E _ _ 0] Let_def)
    have R0: "0 < unat b \<longrightarrow> 0 < R" using less.prems unfolding R_def by simp
    have r': "unat r' = R" if "R < lim"
      using that unat_mult_no_wrap [of r b] unfolding R_def r'_def lim_def by (cases "odd (unat e)") simp_all
    consider (over) "\<not> R < lim" | (finish) "R < lim" "?k = 0" | (more) "R < lim" "?k \<noteq> 0" "unat b * unat b < lim"
      | (big) "R < lim" "?k \<noteq> 0" "\<not> unat b * unat b < lim" by blast
    then show ?thesis
    proof cases
      case over
      have "unat b \<noteq> 0"
      proof
        assume "unat b = 0"
        then have "R \<le> unat r" unfolding R_def by simp
        then show False using over unat_lt_size [of r] unfolding lim_def by simp
      qed
      then have "R \<le> R * X" unfolding X_def by simp
      then have "\<not> R * X < lim" using over by linarith
      then show ?thesis using over unfolding loop goal lim_def by simp
    next
      case finish
      then show ?thesis unfolding loop goal lim_def X_def by simp
    next
      case more
      have bb: "unat (b * b) = unat b * unat b" using more(3) unfolding lim_def by (rule unat_mult_no_wrap)
      have "unat ?k < unat e" using e by (intro drop_bit_1_less) (simp add: word_neq_0_conv [symmetric])
      then have "pow_loop E r' (b * b) ?k =
          (if unat r' * unat (b * b) ^ unat ?k < 2 ^ LENGTH(256) then Some (r' * (b * b) ^ unat ?k) else None)"
        using R0 r' [OF more(1)] by (intro less.hyps) (simp_all add: bb)
      then show ?thesis using more unfolding loop goal bb r' [OF more(1)] X_def by simp
    next
      case big
      then have B: "0 < unat b" by (cases "unat b = 0") (auto simp: lim_def)
      have "1 \<le> unat b * unat b" using B by simp
      then have "unat b * unat b \<le> X" unfolding X_def using big(2) by (intro self_le_power) (simp_all add: unat_gt_0)
      also have "X \<le> R * X" using R0 B by simp
      finally have "\<not> R * X < lim" using big(3) by linarith
      then show ?thesis using big unfolding loop goal lim_def by simp
    qed
  qed
qed

lemma pow_u256_spec: "wide_laws E \<Longrightarrow> pow_u256_checked E b e = checked_pow b (unat e)"
  by (simp add: pow_u256_checked_def pow_loop_spec checked_pow_def)

section \<open>The square root\<close>

lemma isqrt_loop_spec:
  assumes E: "wide_laws E"
  shows "\<lbrakk>1 \<le> unat lo; unat lo \<le> unat hi; unat lo * unat lo \<le> unat n; unat n < Suc (unat hi) * Suc (unat hi);
    unat hi - unat lo < 2 ^ fuel\<rbrakk> \<Longrightarrow> \<exists>r. isqrt_loop E fuel n lo hi = Some r \<and> floor_root (unat n) (unat r)"
proof (induction fuel arbitrary: lo hi)
  case 0
  then have "unat lo = unat hi" by simp
  with 0 show ?case by (simp add: floor_root_def word_less_nat_alt)
next
  case (Suc fuel)
  show ?case
  proof (cases "lo < hi")
    case False
    then have "unat lo = unat hi" using Suc.prems(2) by (simp add: word_less_nat_alt)
    with Suc.prems False show ?thesis by (simp add: floor_root_def)
  next
    case True
    define L H N M where "L = unat lo" and "H = unat hi" and "N = unat n" and "M = unat lo + (unat hi - unat lo + 1) div 2"
    have LH: "L < H" using True by (simp add: word_less_nat_alt L_def H_def)
    have Hb: "H < 2 ^ 256" unfolding H_def using unat_lt_size [of hi] by simp
    have gap: "unat (hi - lo) = H - L"
      unfolding H_def L_def using True by (simp add: unat_sub_if' word_less_nat_alt)
    define gap1 where "gap1 = hi - lo + 1"
    have gap1: "unat gap1 = H - L + 1" unfolding gap1_def
      using unat_add_no_wrap [of "hi - lo" 1] gap LH Hb Suc.prems(1) by (simp add: L_def)
    define mid where "mid = lo + gap1 div 2"
    have Mb: "L < M" "M \<le> H" using LH unfolding M_def L_def H_def by linarith+
    have half: "unat (gap1 div 2) = (H - L + 1) div 2" by (simp add: unat_div_distrib gap1)
    have add: "unat lo + unat (gap1 div 2) < 2 ^ 256"
      using Mb Hb unfolding half M_def by (simp add: L_def H_def)
    then have mid: "unat mid = M" unfolding mid_def using unat_add_no_wrap [of lo "gap1 div 2"]
      by (simp add: half M_def L_def H_def)
    then have mid0: "mid \<noteq> 0" using Mb by auto
    have q: "mid \<le> n div mid \<longleftrightarrow> M * M \<le> N"
      unfolding word_le_nat_alt unat_div_distrib mid using Mb
      by (simp add: less_eq_div_iff_mult_less_eq N_def)
    have step: "isqrt_loop E (Suc fuel) n lo hi =
        (if mid \<le> n div mid then isqrt_loop E fuel n mid hi else isqrt_loop E fuel n lo (mid - 1))"
    proof -
      have "unat (hi - lo) + unat (1 :: u256) < 2 ^ LENGTH(256)" using gap LH Hb Suc.prems(1) by (simp add: L_def)
      moreover have "1 \<le> mid" using mid Mb by (simp add: word_le_nat_alt)
      ultimately show ?thesis using True add mid0
        by (simp add: p256_ops [OF E] flip: gap1_def mid_def)
    qed
    have small: "H - M < 2 ^ fuel" "M - 1 - L < 2 ^ fuel"
      using Suc.prems(5) Mb unfolding M_def L_def [symmetric] H_def [symmetric] by simp_all
    show ?thesis
    proof (cases "mid \<le> n div mid")
      case True
      then show ?thesis unfolding step using Suc.IH [of mid hi] Suc.prems(4) small Mb q
        by (simp add: mid N_def flip: H_def)
    next
      case False
      have "unat (mid - 1) = M - 1" using mid mid0 by (simp add: unat_minus_one)
      then show ?thesis unfolding step using Suc.IH [of lo "mid - 1"] Suc.prems(1,3) small Mb q False
        by (simp add: N_def flip: L_def)
    qed
  qed
qed


lemma isqrt_u256_spec:
  assumes E: "wide_laws E"
  shows "\<exists>r. isqrt_u256 E n = Some r \<and> floor_root (unat n) (unat r) \<and>
    (1 < n \<longrightarrow> (\<forall>fuel \<ge> bit_length (unat n) - 1. isqrt_loop E fuel n 1 (n div 2 + 1) = Some r))"
proof (cases "n \<le> 1")
  case True
  then have "unat n = 0 \<or> unat n = 1" by (auto simp: word_le_nat_alt)
  then show ?thesis using True by (auto simp: isqrt_u256_def floor_root_def)
next
  case False
  let ?hi = "n div 2 + 1" and ?b = "bit_length (unat n)"
  have n: "2 \<le> unat n" using False by (simp add: word_le_nat_alt)
  have half: "unat (n div 2) = unat n div 2" by (simp add: unat_div_distrib)
  have fit: "unat (n div 2) + unat (1 :: u256) < 2 ^ LENGTH(256)"
    using unat_lt_size [of n] unfolding half by simp
  then have hi: "unat ?hi = unat n div 2 + 1" using unat_add_no_wrap [of "n div 2" 1] by (simp add: half)
  have b: "0 < ?b" "unat n < 2 ^ ?b" "?b \<le> 256"
    using bit_length_bounds [of "unat n"] bit_length_word [of n] n by simp_all
  have gap: "unat ?hi - unat (1 :: u256) < 2 ^ (?b - 1)"
  proof -
    have "(2 :: nat) ^ ?b = 2 * 2 ^ (?b - 1)" using b(1) by (cases ?b) auto
    then show ?thesis using b(2) by (simp add: hi)
  qed
  have sq: "unat n < Suc (unat ?hi) * Suc (unat ?hi)"
  proof -
    have "unat n < 2 * Suc (unat ?hi)" by (simp add: hi)
    also have "\<dots> \<le> Suc (unat ?hi) * Suc (unat ?hi)" by (intro mult_le_mono1) (simp add: hi)
    finally show ?thesis .
  qed
  have run: "\<exists>r. isqrt_loop E fuel n 1 ?hi = Some r \<and> floor_root (unat n) (unat r)" if "?b - 1 \<le> fuel" for fuel
  proof (rule isqrt_loop_spec [OF E _ _ _ sq])
    show "unat ?hi - unat (1 :: u256) < 2 ^ fuel"
      using gap power_increasing [OF that, of "2 :: nat"] by linarith
  qed (use n hi in simp_all)
  have "?b - 1 \<le> 256" using b(3) by simp
  then obtain r where r: "isqrt_loop E 256 n 1 ?hi = Some r" "floor_root (unat n) (unat r)"
    using run by blast
  have "isqrt_loop E fuel n 1 ?hi = Some r" if f: "?b - 1 \<le> fuel" for fuel
  proof -
    obtain r' where "isqrt_loop E fuel n 1 ?hi = Some r'" "floor_root (unat n) (unat r')" using run [OF f] by blast
    then show ?thesis using floor_sqrtI [OF r(2)] floor_sqrtI [of "unat n" "unat r'"] by (simp add: word_unat_eq_iff)
  qed
  moreover have "isqrt_u256 E n = isqrt_loop E 256 n 1 ?hi"
    using False fit by (simp add: isqrt_u256_def p256_ops [OF E])
  ultimately show ?thesis using r by auto
qed

lemma isqrt_u256_eq: "wide_laws E \<Longrightarrow> isqrt_u256 E n = Some (of_nat (floor_sqrt (unat n)))"
  using isqrt_u256_spec [of E n] floor_sqrtI [of "unat n"] by (auto simp: word_unat_eq_iff)
section \<open>The contract of the natives\<close>

datatype vm_type = TU8 | TU16 | TU32 | TU64 | TU128 | TU256 | TBool | TOther

fun type_of_value :: "vm_value \<Rightarrow> vm_type" where
  "type_of_value (VU8 _) = TU8"
| "type_of_value (VU16 _) = TU16"
| "type_of_value (VU32 _) = TU32"
| "type_of_value (VU64 _) = TU64"
| "type_of_value (VU128 _) = TU128"
| "type_of_value (VU256 _) = TU256"
| "type_of_value (VBool _) = TBool"
| "type_of_value (VOther _) = TOther"

fun nat_of_value :: "vm_value \<Rightarrow> nat" where
  "nat_of_value (VU8 x) = unat x"
| "nat_of_value (VU16 x) = unat x"
| "nat_of_value (VU32 x) = unat x"
| "nat_of_value (VU64 x) = unat x"
| "nat_of_value (VU128 x) = unat x"
| "nat_of_value (VU256 x) = unat x"
| "nat_of_value (VBool b) = of_bool b"
| "nat_of_value (VOther _) = 0"

lemma type_of_value_iff:
  "type_of_value v = TU8 \<longleftrightarrow> (\<exists>x. v = VU8 x)" "type_of_value v = TU32 \<longleftrightarrow> (\<exists>x. v = VU32 x)"
  "type_of_value v = TU64 \<longleftrightarrow> (\<exists>x. v = VU64 x)" "type_of_value v = TU128 \<longleftrightarrow> (\<exists>x. v = VU128 x)"
  "type_of_value v = TU256 \<longleftrightarrow> (\<exists>x. v = VU256 x)" "type_of_value v = TBool \<longleftrightarrow> (\<exists>x. v = VBool x)"
  by (cases v; simp)+

text \<open>A call with a budget that covers the charge costs exactly the charge; any other takes the whole budget.\<close>

definition charged :: "u64 \<Rightarrow> u64 \<Rightarrow> u64 + vm_value list \<Rightarrow> native_outcome" where
  "charged g amount answer =
     Some (Inr (if amount \<le> g then \<lparr>nr_cost = amount, nr_result = answer\<rparr>
                else \<lparr>nr_cost = g, nr_result = Inl NFE_OUT_OF_GAS\<rparr>))"

definition native_meets ::
  "(native_context \<Rightarrow> 'ty list \<Rightarrow> vm_value list \<Rightarrow> native_outcome) \<Rightarrow> vm_type list \<Rightarrow>
     ((nat \<Rightarrow> nat) \<Rightarrow> u64) \<Rightarrow> ((nat \<Rightarrow> nat) \<Rightarrow> u64 + vm_value list) \<Rightarrow> bool" where
  "native_meets native signature amount answer \<longleftrightarrow>
     (\<forall>ctx ty_args args. length args \<noteq> length signature \<longrightarrow>
        native ctx ty_args args = Some (Inl NUMBER_OF_ARGUMENTS_MISMATCH)) \<and>
     (\<forall>ctx ty_args args. length args = length signature \<and> ty_args \<noteq> [] \<longrightarrow>
        native ctx ty_args args = Some (Inl NUMBER_OF_TYPE_ARGUMENTS_MISMATCH)) \<and>
     (\<forall>g args. map type_of_value args = signature \<longrightarrow>
        native (native_context_new g) [] args =
          charged g (amount (\<lambda>i. nat_of_value (args ! i))) (answer (\<lambda>i. nat_of_value (args ! i))))"

definition aborts :: "('a::len word \<Rightarrow> vm_value) \<Rightarrow> u64 + 'a word \<Rightarrow> u64 + vm_value list" where
  "aborts mk r = map_sum id (\<lambda>w. [mk w]) r"

definition tries :: "('a::len word \<Rightarrow> vm_value) \<Rightarrow> u64 + 'a word \<Rightarrow> u64 + vm_value list" where
  "tries mk r = (case r of Inr w \<Rightarrow> Inr [VBool True, mk w] | Inl _ \<Rightarrow> Inr [VBool False, mk 0])"

definition guarded :: "bool \<Rightarrow> u64 \<Rightarrow> nat \<Rightarrow> u64 + 'a::len word" where
  "guarded ok code n = (if ok then Inr (of_nat n) else Inl code)"

definition scaled_cost :: "u64 \<Rightarrow> u64 \<Rightarrow> nat \<Rightarrow> u64" where
  "scaled_cost gbase per_unit units = saturating_add gbase (saturating_mul per_unit (of_nat units))"

lemma charge_fresh: "amount \<le> g \<Longrightarrow> native_gas_used (native_context_new g\<lparr>gas_left := g - amount\<rparr>) = amount"
  by (simp add: native_gas_used_def native_context_new_def saturating_sub_def word_sub_le)

lemma native_charge:
  "native_charge_gas_early_exit (native_context_new g) amount k =
    (if amount \<le> g then k (native_context_new g\<lparr>gas_left := g - amount\<rparr>) else nr_err g NFE_OUT_OF_GAS)"
  by (simp add: native_charge_gas_early_exit_def charge_gas_def native_context_new_def)

lemma or_abort_charged:
  "amount \<le> g \<Longrightarrow> or_abort (native_context_new g\<lparr>gas_left := g - amount\<rparr>) mk r =
    Some (Inr \<lparr>nr_cost = amount, nr_result = aborts mk r\<rparr>)"
  by (simp add: or_abort_def charge_fresh nr_ok_def nr_err_def aborts_def split: sum.split)

lemma or_false_charged:
  "amount \<le> g \<Longrightarrow> or_false (native_context_new g\<lparr>gas_left := g - amount\<rparr>) mk (result_ok r) =
    Some (Inr \<lparr>nr_cost = amount, nr_result = tries mk r\<rparr>)"
  by (simp add: or_false_def charge_fresh nr_ok_def tries_def result_ok_def split: sum.split)

lemma nr_ok_charged:
  "amount \<le> g \<Longrightarrow> nr_ok (native_gas_used (native_context_new g\<lparr>gas_left := g - amount\<rparr>)) [mk (of_nat n)] =
    Some (Inr \<lparr>nr_cost = amount, nr_result = aborts mk (guarded True 0 n)\<rparr>)"
  by (simp add: charge_fresh nr_ok_def aborts_def guarded_def)

lemmas native_errors = vm_try_def expect_native_signature_def expect_native_args_def expect_type_args_def

lemmas native_calls = native_errors native_charge pop_arg_def as_u8_def as_u32_def as_u64_def
  as_u128_def as_u256_def as_bool_def or_abort_charged or_false_charged nr_ok_charged charged_def nr_err_def

lemma native_meetsI:
  assumes "\<And>ctx ty_args args. length args \<noteq> length signature \<Longrightarrow>
      native ctx ty_args args = Some (Inl NUMBER_OF_ARGUMENTS_MISMATCH)"
    and "\<And>ctx ty_args args. length args = length signature \<Longrightarrow> ty_args \<noteq> [] \<Longrightarrow>
      native ctx ty_args args = Some (Inl NUMBER_OF_TYPE_ARGUMENTS_MISMATCH)"
    and "\<And>g args. map type_of_value args = signature \<Longrightarrow> native (native_context_new g) [] args =
      charged g (amount (\<lambda>i. nat_of_value (args ! i))) (answer (\<lambda>i. nat_of_value (args ! i)))"
  shows "native_meets native signature amount answer"
  unfolding native_meets_def using assms by blast

subsection \<open>The helpers in the terms of the contract\<close>

lemma of_nat_min_max:
  "min a b = of_nat (min (unat a) (unat b))" "max a b = of_nat (max (unat a) (unat b))" for a b :: "'a::len word"
  by (simp_all add: min_def max_def word_le_nat_alt)

lemma average_specs:
  "average_u64 a b = of_nat ((unat a + unat b) div 2)" "average_u128 c d = of_nat ((unat c + unat d) div 2)"
  by (simp_all only: average_u64_def average_u128_def average_of_nat)

lemma clamp_guarded:
  "(if hi < lo then Inl E_INVALID_ARG else Inr (ord_clamp x lo hi)) =
    guarded (unat lo \<le> unat hi) E_INVALID_ARG (max (unat lo) (min (unat x) (unat hi)))"
  for x lo hi :: "'a::len word"
  by (auto simp: guarded_def ord_clamp_def word_less_nat_alt word_le_nat_alt min_def max_def)

lemma clamp_specs:
  "clamp_u64 x lo hi = guarded (unat lo \<le> unat hi) E_INVALID_ARG (max (unat lo) (min (unat x) (unat hi)))"
  "clamp_u128 y l h = guarded (unat l \<le> unat h) E_INVALID_ARG (max (unat l) (min (unat y) (unat h)))"
  "clamp_u256 z l' h' = guarded (unat l' \<le> unat h') E_INVALID_ARG (max (unat l') (min (unat z) (unat h')))"
  by (simp_all only: clamp_u64_def clamp_u128_def clamp_u256_def clamp_guarded)

lemma log2_specs:
  "log2_u64_checked x = guarded (0 < unat x) E_INVALID_ARG (floor_log2 (unat x))"
  "log2_u128_checked y = guarded (0 < unat y) E_INVALID_ARG (floor_log2 (unat y))"
  "wide_laws E \<Longrightarrow> log2_u256_checked E z = guarded (0 < unat z) E_INVALID_ARG (floor_log2 (unat z))"
  by (simp_all add: log2_u64_spec log2_u128_spec log2_u256_spec guarded_def unat_gt_0)

lemma ceil_div_specs:
  "ceil_div_u64 a b = guarded (0 < unat b) E_DIVIDE_BY_ZERO (nat_ceil_div (unat a) (unat b))"
  "ceil_div_u128 c d = guarded (0 < unat d) E_DIVIDE_BY_ZERO (nat_ceil_div (unat c) (unat d))"
  "wide_laws E \<Longrightarrow> ceil_div_u256 E e f =
    Some (guarded (0 < unat f) E_DIVIDE_BY_ZERO (nat_ceil_div (unat e) (unat f)))"
  using ceil_div_word(1) [of b a] ceil_div_word(1) [of d c]
  by (simp_all add: ceil_div_u64_def ceil_div_u128_def ceil_div_u256_spec guarded_def unat_gt_0 Let_def)

lemma checked_pow_fits: "checked_pow b e = result_ok (fits (unat b ^ e))"
  by (simp add: checked_pow_def fits_def result_ok_def)

lemma pow_u256_fits: "wide_laws E \<Longrightarrow> pow_u256_checked E b e = result_ok (fits (unat b ^ unat e))"
  by (simp only: pow_u256_spec checked_pow_fits)

lemma overflow_fits: "overflow_error (result_ok (fits n)) = fits n"
  by (simp add: overflow_error_def result_ok_def fits_def)

lemma roots_of_nat:
  assumes "wide_laws E"
  shows "roots_u64 E x = of_nat (floor_sqrt (unat x))" and "roots_u128 E y = of_nat (floor_sqrt (unat y))"
  using wide_lawsD(4,5) [OF assms, THEN floor_sqrtI] by simp_all

lemma map_p2m: "wide_laws E \<Longrightarrow> map_sum id (p2m E) r = r" "wide_laws E \<Longrightarrow> map_option (p2m E) q = q"
  by (simp_all add: p2m_id_fun sum.map_id option.map_id)

lemma cost_specs:
  "pow_gas_cost b p (ucast e) = scaled_cost b p (unat e)"
  "sqrt_u256_gas_cost b p (of_nat n) = scaled_cost b p n"
  by (simp_all add: pow_gas_cost_def sqrt_u256_gas_cost_def scaled_cost_def)

lemmas math_specs = mul_div_u128_spec mul_div_u256_spec mul_div_u128_round_spec mul_div_u256_round_spec
  mul_add_u128_spec mul_add_u256_spec of_nat_min_max average_specs average_u256_spec clamp_specs log2_specs
  ceil_div_specs checked_pow_fits pow_u256_fits overflow_fits roots_of_nat map_p2m m2p_id p2m_id isqrt_u256_eq
  cost_specs p256_ops(11)

text \<open>The whole table in arithmetic on natural numbers: name, argument types, charge and answer.\<close>

definition math_contract ::
  "math_gas \<Rightarrow> (string \<times> vm_type list \<times> ((nat \<Rightarrow> nat) \<Rightarrow> u64) \<times> ((nat \<Rightarrow> nat) \<Rightarrow> u64 + vm_value list)) list" where
  "math_contract gp =
     [(''sqrt_u128'', [TU128], \<lambda>a. gp_base (mg_sqrt_u128 gp),
        \<lambda>a. aborts VU128 (guarded True 0 (floor_sqrt (a 0)))),
      (''sqrt_u64'', [TU64], \<lambda>a. gp_base (mg_sqrt_u64 gp),
        \<lambda>a. aborts VU64 (guarded True 0 (floor_sqrt (a 0)))),
      (''sqrt_u256'', [TU256], \<lambda>a. scaled_cost (gp_base (mg_sqrt_u256 gp)) (gp_per_bit (mg_sqrt_u256 gp)) (bit_length (a 0)),
        \<lambda>a. aborts VU256 (guarded True 0 (floor_sqrt (a 0)))),
      (''pow_u64'', [TU64, TU8], \<lambda>a. scaled_cost (gp_base (mg_pow_u64 gp)) (gp_per_exponent (mg_pow_u64 gp)) (a 1),
        \<lambda>a. aborts VU64 (fits (a 0 ^ a 1))),
      (''pow_u128'', [TU128, TU32], \<lambda>a. scaled_cost (gp_base (mg_pow_u128 gp)) (gp_per_exponent (mg_pow_u128 gp)) (a 1),
        \<lambda>a. aborts VU128 (fits (a 0 ^ a 1))),
      (''pow_u256'', [TU256, TU32], \<lambda>a. scaled_cost (gp_base (mg_pow_u256 gp)) (gp_per_exponent (mg_pow_u256 gp)) (a 1),
        \<lambda>a. aborts VU256 (fits (a 0 ^ a 1))),
      (''try_pow_u64'', [TU64, TU8], \<lambda>a. scaled_cost (gp_base (mg_try_pow_u64 gp)) (gp_per_exponent (mg_try_pow_u64 gp)) (a 1),
        \<lambda>a. tries VU64 (fits (a 0 ^ a 1))),
      (''try_pow_u128'', [TU128, TU32], \<lambda>a. scaled_cost (gp_base (mg_try_pow_u128 gp)) (gp_per_exponent (mg_try_pow_u128 gp)) (a 1),
        \<lambda>a. tries VU128 (fits (a 0 ^ a 1))),
      (''try_pow_u256'', [TU256, TU32], \<lambda>a. scaled_cost (gp_base (mg_try_pow_u256 gp)) (gp_per_exponent (mg_try_pow_u256 gp)) (a 1),
        \<lambda>a. tries VU256 (fits (a 0 ^ a 1))),
      (''mul_div_u128'', [TU128, TU128, TU128], \<lambda>a. gp_base (mg_mul_div_u128 gp),
        \<lambda>a. aborts VU128 (mul_div_spec (a 0) (a 1) (a 2) False)),
      (''mul_div_round_u128'', [TU128, TU128, TU128, TBool], \<lambda>a. gp_base (mg_mul_div_round_u128 gp),
        \<lambda>a. aborts VU128 (mul_div_spec (a 0) (a 1) (a 2) (a 3 = 1))),
      (''try_mul_div_u128'', [TU128, TU128, TU128], \<lambda>a. gp_base (mg_try_mul_div_u128 gp),
        \<lambda>a. tries VU128 (mul_div_spec (a 0) (a 1) (a 2) False)),
      (''mul_add_u128'', [TU128, TU128, TU128], \<lambda>a. gp_base (mg_mul_add_u128 gp),
        \<lambda>a. aborts VU128 (fits (a 0 * a 1 + a 2))),
      (''mul_div_u256'', [TU256, TU256, TU256], \<lambda>a. gp_base (mg_mul_div_u256 gp),
        \<lambda>a. aborts VU256 (mul_div_spec (a 0) (a 1) (a 2) False)),
      (''mul_div_round_u256'', [TU256, TU256, TU256, TBool], \<lambda>a. gp_base (mg_mul_div_round_u256 gp),
        \<lambda>a. aborts VU256 (mul_div_spec (a 0) (a 1) (a 2) (a 3 = 1))),
      (''try_mul_div_u256'', [TU256, TU256, TU256], \<lambda>a. gp_base (mg_try_mul_div_u256 gp),
        \<lambda>a. tries VU256 (mul_div_spec (a 0) (a 1) (a 2) False)),
      (''mul_add_u256'', [TU256, TU256, TU256], \<lambda>a. gp_base (mg_mul_add_u256 gp),
        \<lambda>a. aborts VU256 (fits (a 0 * a 1 + a 2))),
      (''min_u128'', [TU128, TU128], \<lambda>a. gp_base (mg_min_u128 gp),
        \<lambda>a. aborts VU128 (guarded True 0 (min (a 0) (a 1)))),
      (''max_u128'', [TU128, TU128], \<lambda>a. gp_base (mg_max_u128 gp),
        \<lambda>a. aborts VU128 (guarded True 0 (max (a 0) (a 1)))),
      (''min_u256'', [TU256, TU256], \<lambda>a. gp_base (mg_min_u256 gp),
        \<lambda>a. aborts VU256 (guarded True 0 (min (a 0) (a 1)))),
      (''max_u256'', [TU256, TU256], \<lambda>a. gp_base (mg_max_u256 gp),
        \<lambda>a. aborts VU256 (guarded True 0 (max (a 0) (a 1)))),
      (''average_u64'', [TU64, TU64], \<lambda>a. gp_base (mg_average_u64 gp),
        \<lambda>a. aborts VU64 (guarded True 0 ((a 0 + a 1) div 2))),
      (''average_u128'', [TU128, TU128], \<lambda>a. gp_base (mg_average_u128 gp),
        \<lambda>a. aborts VU128 (guarded True 0 ((a 0 + a 1) div 2))),
      (''average_u256'', [TU256, TU256], \<lambda>a. gp_base (mg_average_u256 gp),
        \<lambda>a. aborts VU256 (guarded True 0 ((a 0 + a 1) div 2))),
      (''clamp_u64'', [TU64, TU64, TU64], \<lambda>a. gp_base (mg_clamp_u64 gp),
        \<lambda>a. aborts VU64 (guarded (a 1 \<le> a 2) E_INVALID_ARG (max (a 1) (min (a 0) (a 2))))),
      (''clamp_u128'', [TU128, TU128, TU128], \<lambda>a. gp_base (mg_clamp_u128 gp),
        \<lambda>a. aborts VU128 (guarded (a 1 \<le> a 2) E_INVALID_ARG (max (a 1) (min (a 0) (a 2))))),
      (''clamp_u256'', [TU256, TU256, TU256], \<lambda>a. gp_base (mg_clamp_u256 gp),
        \<lambda>a. aborts VU256 (guarded (a 1 \<le> a 2) E_INVALID_ARG (max (a 1) (min (a 0) (a 2))))),
      (''log2_u64'', [TU64], \<lambda>a. gp_base (mg_log2_u64 gp),
        \<lambda>a. aborts VU64 (guarded (0 < a 0) E_INVALID_ARG (floor_log2 (a 0)))),
      (''log2_u128'', [TU128], \<lambda>a. gp_base (mg_log2_u128 gp),
        \<lambda>a. aborts VU128 (guarded (0 < a 0) E_INVALID_ARG (floor_log2 (a 0)))),
      (''log2_u256'', [TU256], \<lambda>a. gp_base (mg_log2_u256 gp),
        \<lambda>a. aborts VU256 (guarded (0 < a 0) E_INVALID_ARG (floor_log2 (a 0)))),
      (''ceil_div_u64'', [TU64, TU64], \<lambda>a. gp_base (mg_ceil_div_u64 gp),
        \<lambda>a. aborts VU64 (guarded (0 < a 1) E_DIVIDE_BY_ZERO (nat_ceil_div (a 0) (a 1)))),
      (''ceil_div_u128'', [TU128, TU128], \<lambda>a. gp_base (mg_ceil_div_u128 gp),
        \<lambda>a. aborts VU128 (guarded (0 < a 1) E_DIVIDE_BY_ZERO (nat_ceil_div (a 0) (a 1)))),
      (''ceil_div_u256'', [TU256, TU256], \<lambda>a. gp_base (mg_ceil_div_u256 gp),
        \<lambda>a. aborts VU256 (guarded (0 < a 1) E_DIVIDE_BY_ZERO (nat_ceil_div (a 0) (a 1))))]"
lemmas math_native_defs =
  native_sqrt_u128_def native_sqrt_u64_def native_sqrt_u256_def native_pow_u64_def native_pow_u128_def
  native_pow_u256_def native_try_pow_u64_def native_try_pow_u128_def native_try_pow_u256_def
  native_mul_div_u128_def native_mul_div_round_u128_def native_try_mul_div_u128_def native_mul_add_u128_def
  native_mul_div_u256_def native_mul_div_round_u256_def native_try_mul_div_u256_def native_mul_add_u256_def
  native_min_u128_def native_max_u128_def native_min_u256_def native_max_u256_def native_average_u64_def
  native_average_u128_def native_average_u256_def native_clamp_u64_def native_clamp_u128_def
  native_clamp_u256_def native_log2_u64_def native_log2_u128_def native_log2_u256_def native_ceil_div_u64_def
  native_ceil_div_u128_def native_ceil_div_u256_def

lemma math_natives_meet:
  assumes "wide_laws E"
  shows "list_all2 (\<lambda>(name, native) (name', signature, amount, answer).
      name = name' \<and> native_meets native signature amount answer) (math_make_all E gp) (math_contract gp)"
  unfolding math_make_all_def math_contract_def list.rel_inject prod.case
  by (insert assms, intro conjI refl native_meetsI list.rel_intros(1);
      simp add: math_native_defs native_errors)
    (clarsimp simp: map_eq_Cons_conv type_of_value_iff math_native_defs native_calls math_specs)+

section \<open>A model of the wide integers\<close>

definition uint_model :: "'a::len word uint_ops" where
  "uint_model =
     \<lparr>ui_add = checked_add,
      ui_sub = (\<lambda>a b. if b \<le> a then Some (a - b) else None),
      ui_mul = (\<lambda>a b. if unat a * unat b < 2 ^ LENGTH('a) then Some (a * b) else None),
      ui_div = (\<lambda>a b. if b = 0 then None else Some (a div b)),
      ui_rem = (\<lambda>a b. if b = 0 then None else Some (a mod b)),
      ui_div_mod = (\<lambda>a b. if b = 0 then None else Some (a div b, a mod b)),
      ui_and = (AND), ui_xor = (XOR),
      ui_checked_add = checked_add,
      ui_checked_mul = (\<lambda>a b. if unat a * unat b < 2 ^ LENGTH('a) then Some (a * b) else None),
      ui_bits = (\<lambda>a. bit_length (unat a)),
      ui_to_little_endian = (\<lambda>a. le_bytes (LENGTH('a) div 8) (unat a)),
      ui_from_little_endian = (\<lambda>bs. of_nat (of_le_bytes bs))\<rparr>"

definition wide_model :: wide_ops where
  "wide_model =
     \<lparr>ethnum = uint_model, p256 = uint_model, p512 = uint_model,
      roots_u64 = (\<lambda>x. of_nat (floor_sqrt (unat x))), roots_u128 = (\<lambda>x. of_nat (floor_sqrt (unat x)))\<rparr>"

lemma uint_model_laws: "uint_laws uint_model"
  by (simp add: uint_laws_def uint_model_def checked_add_def)

lemma floor_root_floor_sqrt: "floor_root n (floor_sqrt n)"
proof -
  define S where "S = {r. r * r \<le> n}"
  have mem: "r \<in> S \<longleftrightarrow> r * r \<le> n" for r by (simp add: S_def)
  have "S \<subseteq> {..n}" unfolding S_def using le_square order_trans by blast
  then have fin: "finite S" by (rule finite_subset) simp
  have "0 \<in> S" by (simp add: mem)
  then have "Max S \<in> S" using Max_in [OF fin] by blast
  moreover have "Suc (Max S) \<notin> S" using Max_ge [OF fin, of "Suc (Max S)"] by linarith
  ultimately show ?thesis unfolding floor_root_def floor_sqrt_def S_def [symmetric] mem by linarith
qed

lemma unat_floor_sqrt: "unat (of_nat (floor_sqrt (unat x)) :: 'a word) = floor_sqrt (unat x)" for x :: "'a::len word"
proof -
  have "floor_sqrt (unat x) \<le> floor_sqrt (unat x) * floor_sqrt (unat x)" by (cases "floor_sqrt (unat x)") simp_all
  also have "\<dots> < 2 ^ LENGTH('a)"
    using floor_root_floor_sqrt [of "unat x"] unat_lt_size [of x] unfolding floor_root_def by linarith
  finally show ?thesis by (simp add: unat_of_nat)
qed

lemma wide_model_laws: "wide_laws wide_model"
  by (simp add: wide_laws_def wide_model_def uint_model_laws unat_floor_sqrt floor_root_floor_sqrt)

section \<open>Properties\<close>

lemma scaled_cost_pos: "0 < b \<Longrightarrow> 0 < scaled_cost b p n"
proof -
  assume "0 < b"
  then have "0 < unat b" by (simp add: unat_gt_0 word_neq_0_conv [symmetric])
  then have "0 < unat (scaled_cost b p n)" unfolding scaled_cost_def unat_saturating_add by simp
  then show ?thesis by (simp add: unat_gt_0 word_neq_0_conv [symmetric])
qed

lemma production_positive: "\<forall>(name, signature, amount, answer) \<in> set (math_contract math_gas_production). \<forall>a. 0 < amount a"
  by (simp add: math_contract_def math_gas_production_def scaled_cost_pos)

text \<open>
  C39: Every math native computes its function of natural numbers exactly. For each entry of the table
  \<^verbatim>\<open>make_all\<close> registers, with its name, argument types, charge and answer as \<open>math_contract\<close> lists them: a call
  with another number of arguments, or with type arguments, is the matching VM error; a call whose budget is below
  the charge takes the budget and aborts with \<^verbatim>\<open>NFE_OUT_OF_GAS\<close>; every other call costs exactly the charge and
  returns the answer, which is the exact result or the error code of an overflow, a division by zero or an invalid
  argument. No native panics. With the production prices no call is free.
\<close>

theorem math_natives_exact:
  assumes "wide_laws E"
  shows "list_all2 (\<lambda>(name, native) (name', signature, amount, answer).
      name = name' \<and> native_meets native signature amount answer) (math_make_all E gp) (math_contract gp) \<and>
    (\<forall>(name, signature, amount, answer) \<in> set (math_contract math_gas_production). \<forall>a. 0 < amount a)"
  by (intro conjI math_natives_meet [OF assms] production_positive)

theorem math_natives_exact_witness:
  "wide_laws wide_model \<and>
    list_all2 (\<lambda>(name, native) (name', signature, amount, answer).
      name = name' \<and> native_meets native signature amount answer)
      (math_make_all wide_model math_gas_production :: (string \<times> (native_context \<Rightarrow> unit list \<Rightarrow> vm_value list \<Rightarrow> native_outcome)) list)
      (math_contract math_gas_production) \<and>
    native_clamp_u64 wide_model \<lparr>gp_base = 100\<rparr> (native_context_new 500) ([] :: unit list) [VU64 25, VU64 10, VU64 20] =
      Some (Inr \<lparr>nr_cost = 100, nr_result = Inr [VU64 20]\<rparr>)"
proof (intro conjI)
  show "wide_laws wide_model" by (rule wide_model_laws)
  show "native_clamp_u64 wide_model \<lparr>gp_base = 100\<rparr> (native_context_new 500) ([] :: unit list) [VU64 25, VU64 10, VU64 20] =
      Some (Inr \<lparr>nr_cost = 100, nr_result = Inr [VU64 20]\<rparr>)"
    by (simp add: native_clamp_u64_def native_errors native_charge_gas_early_exit_def charge_gas_def pop_arg_def as_u64_def clamp_u64_def ord_clamp_def
        or_abort_def native_gas_used_def native_context_new_def nr_ok_def saturating_sub_def)
qed (rule math_natives_exact [OF wide_model_laws, THEN conjunct1])

text \<open>
  C40: The integer square root of a 256-bit number returns, without a panic, and its result \<open>r\<close> satisfies
  \<open>r * r \<le> n < (r + 1) * (r + 1)\<close>. Its binary search needs at most as many iterations as the input has bits,
  less one, which is the quantity the native charges for: with any larger bound on the iterations the loop gives the
  same result.
\<close>

theorem isqrt_terminates:
  assumes "wide_laws E"
  shows "\<exists>r. isqrt_u256 E n = Some r \<and> unat r * unat r \<le> unat n \<and> unat n < Suc (unat r) * Suc (unat r) \<and>
    (1 < n \<longrightarrow> (\<forall>fuel \<ge> bit_length (unat n) - 1. isqrt_loop E fuel n 1 (n div 2 + 1) = Some r))"
  using isqrt_u256_spec [OF assms, of n] by (simp only: floor_root_def conj_assoc)

theorem isqrt_terminates_witness:
  "wide_laws wide_model \<and> (1 :: u256) < 17 \<and> bit_length (unat (17 :: u256)) - 1 \<le> 4 \<and>
    isqrt_loop wide_model 4 17 1 (17 div 2 + 1) = isqrt_u256 wide_model 17 \<and> isqrt_u256 wide_model 17 \<noteq> None"
proof -
  have "bit_length (unat (17 :: u256)) - 1 \<le> 4" by code_simp
  moreover have "(1 :: u256) < 17" by simp
  moreover obtain r where "isqrt_u256 wide_model 17 = Some r" "1 < (17 :: u256) \<longrightarrow>
      (\<forall>fuel \<ge> bit_length (unat (17 :: u256)) - 1. isqrt_loop wide_model fuel 17 1 (17 div 2 + 1) = Some r)"
    using isqrt_terminates [OF wide_model_laws, of 17] by (elim exE conjE)
  ultimately show ?thesis using wide_model_laws by (simp only: option.distinct not_False_eq_True simp_thms)
qed

end
