(* ===== verification/Dag.thy ===== *)
theory Dag
  imports Hash32
begin

text \<open>
  The DAG under consensus, from \<^verbatim>\<open>crates/mysticeti/crates/dag/src\<close>: authorities and their committee, the stake
  aggregator, blocks and their references, the structural verification of a block, the threshold clock, and the
  block store with its reader. An authority is the index its \<^verbatim>\<open>Authority(u64)\<close> wraps and a round is a natural
  number: a verified block of round \<open>r\<close> includes blocks of round \<open>r - 1\<close>, so a store that reaches round \<open>r\<close> holds at
  least \<open>r\<close> blocks and no round comes near \<open>2 ^ 64\<close>. Stake is kept at its width. The signature check is a parameter;
  \<^term>\<open>None\<close> is a panic. Entries of the store are their blocks: reading one back from the write-ahead log is left out.
\<close>

section \<open>Committee\<close>

type_synonym authority = nat
type_synonym round_number = nat
type_synonym stake = u64

record authority_info =
  ai_stake :: stake
  ai_public_key :: bytes

record committee =
  cm_authorities :: "authority_info list"
  cm_total_stake :: stake

fun add_stakes :: "stake \<Rightarrow> authority_info list \<Rightarrow> stake option" where
  "add_stakes acc [] = Some acc"
| "add_stakes acc (a # as) = Option.bind (checked_add acc (ai_stake a)) (\<lambda>acc. add_stakes acc as)"

definition committee_new :: "authority_info list \<Rightarrow> committee option" where
  "committee_new authorities =
     (if authorities = [] then None
      else if \<not> list_all (\<lambda>a. ai_stake a > 0) authorities then None
      else if \<not> length authorities \<le> 128 then None
      else map_option (\<lambda>t. \<lparr>cm_authorities = authorities, cm_total_stake = t\<rparr>) (add_stakes 0 authorities))"

definition committee_len :: "committee \<Rightarrow> nat" where
  "committee_len c = length (cm_authorities c)"

definition get_stake :: "committee \<Rightarrow> authority \<Rightarrow> stake option" where
  "get_stake c a = (if a < committee_len c then Some (ai_stake (cm_authorities c ! a)) else None)"

definition get_public_key :: "committee \<Rightarrow> authority \<Rightarrow> bytes option" where
  "get_public_key c a = (if a < committee_len c then Some (ai_public_key (cm_authorities c ! a)) else None)"

definition known_authority :: "committee \<Rightarrow> authority \<Rightarrow> bool" where
  "known_authority c a \<longleftrightarrow> a < committee_len c"

text \<open>A set of authorities is a bit mask; a shift takes its amount modulo the width.\<close>

definition authority_set_insert :: "authority \<Rightarrow> 128 word \<Rightarrow> bool \<times> 128 word" where
  "authority_set_insert v s =
     (let b = push_bit (v mod 128) 1 in if s AND b = b then (False, s) else (True, s OR b))"

definition authority_set_present :: "128 word \<Rightarrow> authority list" where
  "authority_set_present s = filter (\<lambda>v. s AND push_bit v 1 \<noteq> 0) [0..<128]"

record stake_aggregator =
  sa_votes :: "128 word"
  sa_stake :: stake
  sa_threshold :: stake

definition sa_new :: "stake \<Rightarrow> stake_aggregator" where
  "sa_new threshold = \<lparr>sa_votes = 0, sa_stake = 0, sa_threshold = threshold\<rparr>"

definition sa_add :: "committee \<Rightarrow> authority \<Rightarrow> stake_aggregator \<Rightarrow> (bool \<times> stake_aggregator) option" where
  "sa_add c vote agg =
     (case get_stake c vote of
        None \<Rightarrow> None
      | Some stake \<Rightarrow>
          (case authority_set_insert vote (sa_votes agg) of (fresh, votes) \<Rightarrow>
             let agg = (if fresh then agg\<lparr>sa_votes := votes, sa_stake := sa_stake agg + stake\<rparr> else agg)
             in Some (sa_threshold agg \<le> sa_stake agg, agg)))"

definition sa_clear :: "stake_aggregator \<Rightarrow> stake_aggregator" where
  "sa_clear agg = agg\<lparr>sa_votes := 0, sa_stake := 0\<rparr>"

definition sa_voters :: "stake_aggregator \<Rightarrow> authority list" where
  "sa_voters agg = authority_set_present (sa_votes agg)"

text \<open>
  The loops that add the authors of the items that satisfy a condition, and stop at the threshold. The condition may
  panic.
\<close>

fun aggregate ::
  "committee \<Rightarrow> ('b \<Rightarrow> bool option) \<Rightarrow> ('b \<Rightarrow> authority) \<Rightarrow> stake_aggregator \<Rightarrow> 'b list \<Rightarrow> bool option" where
  "aggregate c cond auth agg [] = Some False"
| "aggregate c cond auth agg (b # bs) =
     (case cond b of
        None \<Rightarrow> None
      | Some False \<Rightarrow> aggregate c cond auth agg bs
      | Some True \<Rightarrow>
          (case sa_add c (auth b) agg of
             None \<Rightarrow> None
           | Some (reached, agg) \<Rightarrow> if reached then Some True else aggregate c cond auth agg bs))"

section \<open>Blocks\<close>

record block_reference =
  br_authority :: authority
  br_round :: round_number
  br_digest :: hash32

record dag_block =
  db_reference :: block_reference
  db_includes :: "block_reference list"
  db_transactions :: "bytes list"
  db_timestamp_ns :: u64
  db_signature :: bytes

definition GENESIS_ROUND :: round_number where "GENESIS_ROUND = 0"

abbreviation db_author :: "dag_block \<Rightarrow> authority" where
  "db_author b \<equiv> br_authority (db_reference b)"

abbreviation db_round :: "dag_block \<Rightarrow> round_number" where
  "db_round b \<equiv> br_round (db_reference b)"

abbreviation db_digest :: "dag_block \<Rightarrow> hash32" where
  "db_digest b \<equiv> br_digest (db_reference b)"

definition author_round :: "block_reference \<Rightarrow> authority \<times> round_number" where
  "author_round r = (br_authority r, br_round r)"

definition GOLDEN_RATIO_MIXER :: u64 where "GOLDEN_RATIO_MIXER = 0x9E3779B97F4A7C15"

definition digest_synthetic :: "round_number \<Rightarrow> authority \<Rightarrow> hash32" where
  "digest_synthetic round a =
     (let mixed = of_nat round * GOLDEN_RATIO_MIXER XOR of_nat a
      in Hash32 (map (\<lambda>i. ucast (drop_bit (56 - 8 * i) mixed)) [0..<8] @ replicate 24 0))"

definition SIGNATURE_SIZE :: nat where "SIGNATURE_SIZE = 64"

definition block_genesis :: "authority \<Rightarrow> dag_block" where
  "block_genesis a =
     \<lparr>db_reference = \<lparr>br_authority = a, br_round = GENESIS_ROUND, br_digest = digest_synthetic GENESIS_ROUND a\<rparr>,
      db_includes = [], db_transactions = [], db_timestamp_ns = 0, db_signature = replicate SIGNATURE_SIZE 0\<rparr>"

section \<open>The threshold clock\<close>

fun count_previous ::
  "committee \<Rightarrow> round_number \<Rightarrow> bool \<Rightarrow> stake_aggregator \<Rightarrow> block_reference list \<Rightarrow> bool option" where
  "count_previous c round_number is_quorum agg [] = Some is_quorum"
| "count_previous c round_number is_quorum agg (include # includes) =
     (if br_round include = round_number - 1 then
        (case sa_add c (br_authority include) agg of
           None \<Rightarrow> None
         | Some (is_quorum, agg) \<Rightarrow> count_previous c round_number is_quorum agg includes)
      else count_previous c round_number is_quorum agg includes)"

definition threshold_clock_valid_non_genesis :: "committee \<Rightarrow> stake \<Rightarrow> dag_block \<Rightarrow> bool option" where
  "threshold_clock_valid_non_genesis c quorum_threshold b =
     (if db_round b = 0 then None
      else if list_ex (\<lambda>include. br_round include \<ge> db_round b) (db_includes b) then Some False
      else count_previous c (db_round b) False (sa_new quorum_threshold) (db_includes b))"

record threshold_clock =
  tc_aggregator :: stake_aggregator
  tc_quorum_threshold :: stake
  tc_round :: round_number

definition tc_new :: "round_number \<Rightarrow> stake \<Rightarrow> threshold_clock" where
  "tc_new round quorum_threshold =
     \<lparr>tc_aggregator = sa_new quorum_threshold, tc_quorum_threshold = quorum_threshold, tc_round = round\<rparr>"

definition tc_add_block :: "committee \<Rightarrow> block_reference \<Rightarrow> threshold_clock \<Rightarrow> threshold_clock option" where
  "tc_add_block c b tc =
     map_option (\<lambda>tc. if br_round b > tc_round tc then tc\<lparr>tc_round := br_round b\<rparr> else tc)
       (if br_round b < tc_round tc then Some tc
        else if br_round b > tc_round tc then
          map_option (\<lambda>(_, agg). tc\<lparr>tc_aggregator := agg, tc_round := br_round b\<rparr>)
            (sa_add c (br_authority b) (sa_new (tc_quorum_threshold tc)))
        else
          map_option (\<lambda>(reached, agg).
              if reached then tc\<lparr>tc_aggregator := sa_new (tc_quorum_threshold tc), tc_round := br_round b + 1\<rparr>
              else tc\<lparr>tc_aggregator := agg\<rparr>)
            (sa_add c (br_authority b) (tc_aggregator tc)))"

section \<open>Verification of a received block\<close>

datatype block_error =
  GenesisBlock | UnknownAuthor | BadSignature | DigestMismatch | IncludeUnknownAuthority | IncludeRound
| ThresholdClock

fun check_includes :: "committee \<Rightarrow> round_number \<Rightarrow> block_reference list \<Rightarrow> block_error + unit" where
  "check_includes c round [] = Inr ()"
| "check_includes c round (include # includes) =
     (if \<not> known_authority c (br_authority include) then Inl IncludeUnknownAuthority
      else if \<not> br_round include < round then Inl IncludeRound
      else check_includes c round includes)"

text \<open>\<open>crypto\<close> is \<^verbatim>\<open>CryptoVerifier::verify\<close>: the recomputed digest, or no digest when the signature is bad.\<close>

definition block_verify ::
  "(bytes \<Rightarrow> dag_block \<Rightarrow> hash32 option) \<Rightarrow> committee \<Rightarrow> stake \<Rightarrow> dag_block \<Rightarrow> (block_error + unit) option" where
  "block_verify crypto c quorum_threshold b =
     (if db_round b = GENESIS_ROUND then Some (Inl GenesisBlock)
      else case get_public_key c (db_author b) of
        None \<Rightarrow> Some (Inl UnknownAuthor)
      | Some public_key \<Rightarrow>
          (case crypto public_key b of
             None \<Rightarrow> Some (Inl BadSignature)
           | Some expected \<Rightarrow>
               if expected \<noteq> db_digest b then Some (Inl DigestMismatch)
               else case check_includes c (db_round b) (db_includes b) of
                 Inl e \<Rightarrow> Some (Inl e)
               | Inr _ \<Rightarrow>
                   map_option (\<lambda>valid. if valid then Inr () else Inl ThresholdClock)
                     (threshold_clock_valid_non_genesis c quorum_threshold b)))"

section \<open>The block store\<close>

text \<open>
  \<open>bs_index\<close> lists the blocks of the two-level index in the order its hash maps iterate; every result below holds
  for any order.
\<close>

record block_store =
  bs_index :: "dag_block list"
  bs_own_blocks :: "round_number \<rightharpoonup> hash32"
  bs_highest_round :: round_number
  bs_authority :: authority
  bs_last_seen_by_authority :: "round_number list"
  bs_last_own_block :: "block_reference option"

definition store_new :: "authority \<Rightarrow> committee \<Rightarrow> block_store" where
  "store_new a c =
     \<lparr>bs_index = [], bs_own_blocks = Map.empty, bs_highest_round = 0, bs_authority = a,
      bs_last_seen_by_authority = replicate (committee_len c) 0, bs_last_own_block = None\<rparr>"

definition block_exists :: "block_store \<Rightarrow> block_reference \<Rightarrow> bool" where
  "block_exists s r \<longleftrightarrow> list_ex (\<lambda>b. db_reference b = r) (bs_index s)"

definition get_block :: "block_store \<Rightarrow> block_reference \<Rightarrow> dag_block option" where
  "get_block s r = List.find (\<lambda>b. db_reference b = r) (bs_index s)"

definition get_blocks_by_round :: "block_store \<Rightarrow> round_number \<Rightarrow> dag_block list" where
  "get_blocks_by_round s r = filter (\<lambda>b. db_round b = r) (bs_index s)"

definition get_blocks_at_authority_round :: "block_store \<Rightarrow> authority \<Rightarrow> round_number \<Rightarrow> dag_block list" where
  "get_blocks_at_authority_round s a r = filter (\<lambda>b. db_author b = a) (get_blocks_by_round s r)"

definition block_exists_at_authority_round :: "block_store \<Rightarrow> authority \<Rightarrow> round_number \<Rightarrow> bool" where
  "block_exists_at_authority_round s a r \<longleftrightarrow> list_ex (\<lambda>b. db_author b = a) (get_blocks_by_round s r)"

definition all_blocks_exists_at_authority_round :: "block_store \<Rightarrow> authority list \<Rightarrow> round_number \<Rightarrow> bool" where
  "all_blocks_exists_at_authority_round s as r \<longleftrightarrow>
     (if get_blocks_by_round s r = [] then False
      else list_all (\<lambda>a. list_ex (\<lambda>b. db_author b = a) (get_blocks_by_round s r)) as)"

definition add_own_index :: "block_reference \<Rightarrow> block_store \<Rightarrow> block_store" where
  "add_own_index r s =
     (if br_authority r \<noteq> bs_authority s then s
      else
        (let s = (if br_round r > (case bs_last_own_block s of Some own \<Rightarrow> br_round own | None \<Rightarrow> 0)
                  then s\<lparr>bs_last_own_block := Some r\<rparr> else s)
         in case bs_own_blocks s (br_round r) of
              None \<Rightarrow> s\<lparr>bs_own_blocks := (bs_own_blocks s)(br_round r \<mapsto> br_digest r)\<rparr>
            | Some _ \<Rightarrow> s))"

definition update_last_seen_by_authority :: "block_reference \<Rightarrow> block_store \<Rightarrow> block_store option" where
  "update_last_seen_by_authority r s =
     (if br_authority r < length (bs_last_seen_by_authority s) then
        Some (if br_round r > bs_last_seen_by_authority s ! br_authority r
              then s\<lparr>bs_last_seen_by_authority := (bs_last_seen_by_authority s)[br_authority r := br_round r]\<rparr> else s)
      else None)"

definition add_loaded :: "dag_block \<Rightarrow> block_store \<Rightarrow> block_store option" where
  "add_loaded b s =
     map_option (\<lambda>s. s\<lparr>bs_index := b # filter (\<lambda>x. db_reference x \<noteq> db_reference b) (bs_index s)\<rparr>)
       (update_last_seen_by_authority (db_reference b)
         (add_own_index (db_reference b) (s\<lparr>bs_highest_round := max (bs_highest_round s) (db_round b)\<rparr>)))"

text \<open>\<^verbatim>\<open>linked\<close> walks down one round at a time through the blocks the current layer includes.\<close>

definition linked_layer :: "block_store \<Rightarrow> round_number \<Rightarrow> dag_block list \<Rightarrow> dag_block list" where
  "linked_layer s r parents =
     filter (\<lambda>b. list_ex (\<lambda>x. db_reference b \<in> set (db_includes x)) parents) (get_blocks_by_round s r)"

definition linked :: "block_store \<Rightarrow> dag_block \<Rightarrow> dag_block \<Rightarrow> bool" where
  "linked s later_block earlier_block \<longleftrightarrow>
     list_ex (\<lambda>b. db_reference b = db_reference earlier_block)
       (fold (linked_layer s) (rev [db_round earlier_block..<db_round later_block]) [later_block])"

end
