(* ===== verification/Committer.thy ===== *)
theory Committer
  imports Dag
begin

text \<open>
  The commit rule of \<^verbatim>\<open>crates/mysticeti/crates/consensus/src\<close>: waves, leader election, the protocols and their
  quorums, the base committer with its direct and indirect decisions, and the committer that decides a sequence of
  leaders. From \<^verbatim>\<open>dag/src/consensus.rs\<close>: the status of a leader and the linearizer that expands committed leaders
  into sub-dags. A decision function returns \<^term>\<open>None\<close> where the code panics, either because a block of the sub-dag is
  missing or because two blocks of one leader are certified.
\<close>

section \<open>Waves and leaders\<close>

record wave =
  wv_length :: round_number
  wv_round_offset :: round_number
  wv_merged_certificates :: bool

definition wave_number :: "wave \<Rightarrow> round_number \<Rightarrow> nat" where
  "wave_number w round = (round - wv_round_offset w) div wv_length w"

definition leader_round :: "wave \<Rightarrow> nat \<Rightarrow> round_number" where
  "leader_round w n = n * wv_length w + wv_round_offset w"

definition decision_round :: "wave \<Rightarrow> nat \<Rightarrow> round_number" where
  "decision_round w n = leader_round w n + wv_length w - 1"

definition voting_round :: "wave \<Rightarrow> nat \<Rightarrow> round_number" where
  "voting_round w n =
     (let d = decision_round w n
      in if wv_merged_certificates w then d else max (leader_round w n + 1) (d - 1))"

definition is_leader_round :: "wave \<Rightarrow> round_number \<Rightarrow> bool" where
  "is_leader_round w round \<longleftrightarrow> leader_round w (wave_number w round) = round"

definition leader_elector_elect :: "nat \<Rightarrow> round_number \<Rightarrow> authority" where
  "leader_elector_elect committee_length round = round mod committee_length"

section \<open>Protocols\<close>

record fast_path =
  fp_commit_quorum :: stake
  fp_weak_indirect_quorum :: stake

record protocol =
  pr_direct_commit_quorum :: stake
  pr_direct_skip_quorum :: stake
  pr_certificate_quorum :: stake
  pr_quorum_threshold :: stake
  pr_fast_path :: "fast_path option"
  pr_anchor_link_size :: stake
  pr_wave_length :: round_number
  pr_merged_certificates :: bool
  pr_leader_count :: nat
  pr_pipeline :: bool
  pr_leader_wait :: bool
  pr_require_crypto :: bool

datatype protocol_error =
  FaultBoundViolated string stake stake | MahiMahiInvalidWaveLength round_number | LeaderCountExceedsCommittee nat nat

definition cordial_miners_partially_synchronous :: "stake \<Rightarrow> protocol" where
  "cordial_miners_partially_synchronous total_stake =
     (let quorum = 2 * total_stake div 3 + 1 in
     \<lparr>pr_direct_commit_quorum = quorum, pr_direct_skip_quorum = total_stake, pr_certificate_quorum = quorum,
      pr_quorum_threshold = quorum, pr_fast_path = None, pr_anchor_link_size = 1, pr_wave_length = 3,
      pr_merged_certificates = False, pr_leader_count = 1, pr_pipeline = False, pr_leader_wait = True,
      pr_require_crypto = True\<rparr>)"

definition cordial_miners_asynchronous :: "stake \<Rightarrow> protocol" where
  "cordial_miners_asynchronous total_stake =
     (let quorum = 2 * total_stake div 3 + 1 in
     \<lparr>pr_direct_commit_quorum = quorum, pr_direct_skip_quorum = total_stake, pr_certificate_quorum = quorum,
      pr_quorum_threshold = quorum, pr_fast_path = None, pr_anchor_link_size = 1, pr_wave_length = 5,
      pr_merged_certificates = False, pr_leader_count = 1, pr_pipeline = False, pr_leader_wait = False,
      pr_require_crypto = True\<rparr>)"

definition mysticeti :: "stake \<Rightarrow> nat \<Rightarrow> protocol" where
  "mysticeti total_stake leader_count =
     (let quorum = 2 * total_stake div 3 + 1 in
     \<lparr>pr_direct_commit_quorum = quorum, pr_direct_skip_quorum = quorum, pr_certificate_quorum = quorum,
      pr_quorum_threshold = quorum, pr_fast_path = None, pr_anchor_link_size = 1, pr_wave_length = 3,
      pr_merged_certificates = False, pr_leader_count = leader_count, pr_pipeline = True, pr_leader_wait = True,
      pr_require_crypto = True\<rparr>)"

definition blue_bottle_partially_synchronous :: "stake \<Rightarrow> nat \<Rightarrow> protocol" where
  "blue_bottle_partially_synchronous total_stake leader_count =
     (let strong_quorum = 4 * total_stake div 5 + 1; weak_quorum = 2 * total_stake div 5 + 1 in
     \<lparr>pr_direct_commit_quorum = strong_quorum, pr_direct_skip_quorum = strong_quorum,
      pr_certificate_quorum = strong_quorum, pr_quorum_threshold = strong_quorum, pr_fast_path = None,
      pr_anchor_link_size = weak_quorum, pr_wave_length = 2, pr_merged_certificates = True,
      pr_leader_count = leader_count, pr_pipeline = True, pr_leader_wait = True, pr_require_crypto = True\<rparr>)"

definition blue_bottle_asynchronous :: "stake \<Rightarrow> nat \<Rightarrow> protocol" where
  "blue_bottle_asynchronous total_stake leader_count =
     (let strong_quorum = 4 * total_stake div 5 + 1; weak_quorum = 2 * total_stake div 5 + 1 in
     \<lparr>pr_direct_commit_quorum = strong_quorum, pr_direct_skip_quorum = strong_quorum,
      pr_certificate_quorum = strong_quorum, pr_quorum_threshold = strong_quorum, pr_fast_path = None,
      pr_anchor_link_size = weak_quorum, pr_wave_length = 3, pr_merged_certificates = True,
      pr_leader_count = leader_count, pr_pipeline = True, pr_leader_wait = False, pr_require_crypto = True\<rparr>)"

definition orcaella :: "stake \<Rightarrow> stake \<Rightarrow> stake \<Rightarrow> nat \<Rightarrow> protocol_error + protocol" where
  "orcaella total_stake f c leader_count =
     (let min_n = (if f = 0 then 2 * c + 1 else 5 * f + 3 * c + 1)
      in if min_n > total_stake then Inl (FaultBoundViolated ''Orcaella'' total_stake min_n)
         else Inr
           \<lparr>pr_direct_commit_quorum = total_stake - f - c, pr_direct_skip_quorum = 4 * f + 2 * c + 1,
            pr_certificate_quorum = total_stake - f - c, pr_quorum_threshold = total_stake - f - c,
            pr_fast_path = None, pr_anchor_link_size = total_stake - 3 * f - 2 * c, pr_wave_length = 2,
            pr_merged_certificates = True, pr_leader_count = leader_count, pr_pipeline = True,
            pr_leader_wait = True, pr_require_crypto = (f \<noteq> 0)\<rparr>)"

definition mahi_mahi :: "stake \<Rightarrow> nat \<Rightarrow> round_number \<Rightarrow> protocol_error + protocol" where
  "mahi_mahi total_stake leader_count wave_length =
     (if wave_length \<noteq> 4 \<and> wave_length \<noteq> 5 then Inl (MahiMahiInvalidWaveLength wave_length)
      else
        (let quorum = 2 * total_stake div 3 + 1 in Inr
        \<lparr>pr_direct_commit_quorum = quorum, pr_direct_skip_quorum = quorum, pr_certificate_quorum = quorum,
         pr_quorum_threshold = quorum, pr_fast_path = None, pr_anchor_link_size = 1, pr_wave_length = wave_length,
         pr_merged_certificates = False, pr_leader_count = leader_count, pr_pipeline = True, pr_leader_wait = False,
         pr_require_crypto = True\<rparr>))"

definition nemo_nemo :: "stake \<Rightarrow> nat \<Rightarrow> protocol" where
  "nemo_nemo total_stake leader_count =
     (let quorum = total_stake div 2 + 1 in
     \<lparr>pr_direct_commit_quorum = quorum, pr_direct_skip_quorum = total_stake, pr_certificate_quorum = quorum,
      pr_quorum_threshold = quorum, pr_fast_path = None, pr_anchor_link_size = 1, pr_wave_length = 2,
      pr_merged_certificates = True, pr_leader_count = leader_count, pr_pipeline = True, pr_leader_wait = True,
      pr_require_crypto = False\<rparr>)"

text \<open>The arithmetic of this one is widened to 128 bits; \<^term>\<open>None\<close> is a failed assertion.\<close>

definition dag_hydrangea :: "stake \<Rightarrow> stake \<Rightarrow> stake \<Rightarrow> stake \<Rightarrow> nat \<Rightarrow> (protocol_error + protocol) option" where
  "dag_hydrangea total_stake f c k leader_count =
     (let n = ucast total_stake :: 128 word; f = ucast f :: 128 word; c = ucast c :: 128 word; k = ucast k :: 128 word;
          min_n = 3 * f + 2 * c + k + 1
      in if min_n > n then
           Some (Inl (FaultBoundViolated ''DagHydrangea'' total_stake
             (if min_n \<le> ucast (- 1 :: stake) then ucast min_n else - 1)))
         else
           (let p = (c + k) div 2;
                certificate_quorum = (n + f + 2) div 2;
                fp = \<lparr>fp_commit_quorum = ucast (n - p), fp_weak_indirect_quorum = ucast (f + p + 1)\<rparr>
            in if \<not> 2 * certificate_quorum > n + f then None
               else if \<not> ucast (fp_commit_quorum fp) + ucast (fp_weak_indirect_quorum fp) > n + f then None
               else Some (Inr
                 \<lparr>pr_direct_commit_quorum = ucast (2 * f + c + 1), pr_direct_skip_quorum = fp_commit_quorum fp,
                  pr_certificate_quorum = ucast certificate_quorum, pr_quorum_threshold = ucast (n - f - c),
                  pr_fast_path = Some fp, pr_anchor_link_size = 1, pr_wave_length = 3,
                  pr_merged_certificates = False, pr_leader_count = leader_count, pr_pipeline = True,
                  pr_leader_wait = True, pr_require_crypto = (f \<noteq> 0)\<rparr>)))"

datatype consensus_protocol =
  CordialMinersPartiallySynchronous
| CordialMinersAsynchronous
| Mysticeti nat
| BlueBottlePartiallySynchronous nat
| BlueBottleAsynchronous nat
| Orcaella nat stake stake
| MahiMahi nat round_number
| NemoNemo nat
| DagHydrangea nat stake stake stake

fun user_leader_count :: "consensus_protocol \<Rightarrow> nat option" where
  "user_leader_count CordialMinersPartiallySynchronous = None"
| "user_leader_count CordialMinersAsynchronous = None"
| "user_leader_count (Mysticeti l) = Some l"
| "user_leader_count (BlueBottlePartiallySynchronous l) = Some l"
| "user_leader_count (BlueBottleAsynchronous l) = Some l"
| "user_leader_count (Orcaella l _ _) = Some l"
| "user_leader_count (MahiMahi l _) = Some l"
| "user_leader_count (NemoNemo l) = Some l"
| "user_leader_count (DagHydrangea l _ _ _) = Some l"

fun build_protocol :: "stake \<Rightarrow> consensus_protocol \<Rightarrow> (protocol_error + protocol) option" where
  "build_protocol t CordialMinersPartiallySynchronous = Some (Inr (cordial_miners_partially_synchronous t))"
| "build_protocol t CordialMinersAsynchronous = Some (Inr (cordial_miners_asynchronous t))"
| "build_protocol t (Mysticeti l) = Some (Inr (mysticeti t l))"
| "build_protocol t (BlueBottlePartiallySynchronous l) = Some (Inr (blue_bottle_partially_synchronous t l))"
| "build_protocol t (BlueBottleAsynchronous l) = Some (Inr (blue_bottle_asynchronous t l))"
| "build_protocol t (Orcaella l f c) = Some (orcaella t f c l)"
| "build_protocol t (MahiMahi l w) = Some (mahi_mahi t l w)"
| "build_protocol t (NemoNemo l) = Some (Inr (nemo_nemo t l))"
| "build_protocol t (DagHydrangea l f c k) = dag_hydrangea t f c k l"

definition to_protocol :: "consensus_protocol \<Rightarrow> committee \<Rightarrow> (protocol_error + protocol) option" where
  "to_protocol self cm =
     (case user_leader_count self of
        Some l \<Rightarrow>
          if l > committee_len cm then Some (Inl (LeaderCountExceedsCommittee l (committee_len cm)))
          else build_protocol (cm_total_stake cm) self
      | None \<Rightarrow> build_protocol (cm_total_stake cm) self)"

section \<open>Leader status\<close>

datatype direct_commit_path = Fast | Slow

datatype indirect_commit_path = Certificate | WeakQuorum

datatype leader_status =
  DirectCommit dag_block direct_commit_path
| IndirectCommit dag_block indirect_commit_path
| DirectSkip authority round_number
| IndirectSkip authority round_number
| Undecided authority round_number

fun ls_round :: "leader_status \<Rightarrow> round_number" where
  "ls_round (DirectCommit b _) = db_round b"
| "ls_round (IndirectCommit b _) = db_round b"
| "ls_round (DirectSkip _ r) = r"
| "ls_round (IndirectSkip _ r) = r"
| "ls_round (Undecided _ r) = r"

fun ls_authority :: "leader_status \<Rightarrow> authority" where
  "ls_authority (DirectCommit b _) = db_author b"
| "ls_authority (IndirectCommit b _) = db_author b"
| "ls_authority (DirectSkip a _) = a"
| "ls_authority (IndirectSkip a _) = a"
| "ls_authority (Undecided a _) = a"

fun is_decided :: "leader_status \<Rightarrow> bool" where
  "is_decided (Undecided _ _) \<longleftrightarrow> False"
| "is_decided _ \<longleftrightarrow> True"

text \<open>\<^verbatim>\<open>into_decided_block\<close> panics on an undecided leader.\<close>

fun into_decided_block :: "leader_status \<Rightarrow> dag_block option option" where
  "into_decided_block (DirectCommit b _) = Some (Some b)"
| "into_decided_block (IndirectCommit b _) = Some (Some b)"
| "into_decided_block (DirectSkip _ _) = Some None"
| "into_decided_block (IndirectSkip _ _) = Some None"
| "into_decided_block (Undecided _ _) = None"

section \<open>The base committer\<close>

record base_committer =
  bc_committee :: committee
  bc_committee_len :: nat
  bc_direct_commit_quorum :: stake
  bc_direct_skip_quorum :: stake
  bc_certificate_quorum :: stake
  bc_fast_path :: "fast_path option"
  bc_anchor_link_size :: stake
  bc_wave :: wave
  bc_leader_offset :: round_number

definition base_committer_new :: "committee \<Rightarrow> protocol \<Rightarrow> round_number \<Rightarrow> round_number \<Rightarrow> base_committer" where
  "base_committer_new cm p leader_offset round_offset =
     \<lparr>bc_committee = cm, bc_committee_len = committee_len cm,
      bc_direct_commit_quorum = pr_direct_commit_quorum p, bc_direct_skip_quorum = pr_direct_skip_quorum p,
      bc_certificate_quorum = pr_certificate_quorum p, bc_fast_path = pr_fast_path p,
      bc_anchor_link_size = pr_anchor_link_size p,
      bc_wave = \<lparr>wv_length = pr_wave_length p, wv_round_offset = round_offset,
                 wv_merged_certificates = pr_merged_certificates p\<rparr>,
      bc_leader_offset = leader_offset\<rparr>"

definition elect_leader :: "base_committer \<Rightarrow> round_number \<Rightarrow> authority option" where
  "elect_leader bc round =
     (if \<not> is_leader_round (bc_wave bc) round then None
      else Some (leader_elector_elect (bc_committee_len bc) (round + bc_leader_offset bc)))"

text \<open>
  \<^verbatim>\<open>find_support\<close> is recursive; the fuel bounds its depth and running out of it is \<^term>\<open>None\<close>. Includes of verified
  blocks have lower rounds, so the round of the block is enough fuel.
\<close>

fun support_among ::
  "nat \<Rightarrow> block_store \<Rightarrow> authority \<Rightarrow> round_number \<Rightarrow> block_reference list \<Rightarrow> block_reference option option" where
  "support_among fuel s author round [] = Some None"
| "support_among 0 s author round (include # includes) =
     (if br_round include < round then support_among 0 s author round includes
      else if author_round include = (author, round) then Some (Some include)
      else None)"
| "support_among (Suc fuel) s author round (include # includes) =
     (if br_round include < round then support_among (Suc fuel) s author round includes
      else if author_round include = (author, round) then Some (Some include)
      else case get_block s include of
             None \<Rightarrow> None
           | Some from \<Rightarrow>
               (case (if db_round from < round then Some None
                      else support_among fuel s author round (db_includes from)) of
                  None \<Rightarrow> None
                | Some (Some support) \<Rightarrow> Some (Some support)
                | Some None \<Rightarrow> support_among (Suc fuel) s author round includes))"

definition find_support ::
  "block_store \<Rightarrow> authority \<Rightarrow> round_number \<Rightarrow> dag_block \<Rightarrow> block_reference option option" where
  "find_support s author round from =
     (if db_round from < round then Some None
      else support_among (db_round from) s author round (db_includes from))"

definition is_vote :: "block_store \<Rightarrow> dag_block \<Rightarrow> dag_block \<Rightarrow> bool option" where
  "is_vote s potential_vote leader_block =
     map_option (\<lambda>support. support = Some (db_reference leader_block))
       (find_support s (db_author leader_block) (db_round leader_block) potential_vote)"

definition is_certificate ::
  "base_committer \<Rightarrow> block_store \<Rightarrow> dag_block list \<Rightarrow> dag_block \<Rightarrow> stake \<Rightarrow> bool option" where
  "is_certificate bc s votes leader_block quorum =
     aggregate (bc_committee bc) (\<lambda>vote. is_vote s vote leader_block) db_author (sa_new quorum) votes"

text \<open>A block of the store has the author its reference names, so the votes are counted by reference.\<close>

definition carries_certificate :: "base_committer \<Rightarrow> block_store \<Rightarrow> dag_block \<Rightarrow> dag_block \<Rightarrow> bool option" where
  "carries_certificate bc s decision_block leader_block =
     aggregate (bc_committee bc)
       (\<lambda>reference. Option.bind (get_block s reference) (\<lambda>vote. is_vote s vote leader_block))
       br_authority (sa_new (bc_certificate_quorum bc)) (db_includes decision_block)"

fun filter_option :: "('a \<Rightarrow> bool option) \<Rightarrow> 'a list \<Rightarrow> 'a list option" where
  "filter_option f [] = Some []"
| "filter_option f (x # xs) =
     Option.bind (f x) (\<lambda>keep. map_option (\<lambda>ys. if keep then x # ys else ys) (filter_option f xs))"

fun min_by_digest :: "dag_block list \<Rightarrow> dag_block option" where
  "min_by_digest [] = None"
| "min_by_digest (b # bs) =
     (case min_by_digest bs of
        None \<Rightarrow> Some b
      | Some m \<Rightarrow> Some (if db_digest m < db_digest b then m else b))"

definition certified_link ::
  "base_committer \<Rightarrow> block_store \<Rightarrow> dag_block \<Rightarrow> dag_block list \<Rightarrow> dag_block \<Rightarrow> bool option" where
  "certified_link bc s anchor decision_blocks leader_block =
     (if wv_merged_certificates (bc_wave bc) then
        is_certificate bc s (filter (linked s anchor) decision_blocks) leader_block (bc_anchor_link_size bc)
      else
        aggregate (bc_committee bc)
          (\<lambda>b. if linked s anchor b then carries_certificate bc s b leader_block else Some False)
          db_author (sa_new (bc_anchor_link_size bc)) decision_blocks)"

definition weak_link ::
  "base_committer \<Rightarrow> block_store \<Rightarrow> dag_block \<Rightarrow> stake \<Rightarrow> dag_block list \<Rightarrow> dag_block \<Rightarrow> bool option" where
  "weak_link bc s anchor weak_quorum voting_blocks leader_block =
     aggregate (bc_committee bc)
       (\<lambda>b. if linked s anchor b then is_vote s b leader_block else Some False)
       db_author (sa_new weak_quorum) voting_blocks"

definition decide_leader_from_anchor ::
  "base_committer \<Rightarrow> block_store \<Rightarrow> dag_block \<Rightarrow> authority \<Rightarrow> round_number \<Rightarrow> leader_status option" where
  "decide_leader_from_anchor bc s anchor leader lround =
     (let leader_blocks = get_blocks_at_authority_round s leader lround;
          n = wave_number (bc_wave bc) lround;
          decision_blocks = get_blocks_by_round s (decision_round (bc_wave bc) n)
      in Option.bind (filter_option (certified_link bc s anchor decision_blocks) leader_blocks) (\<lambda>certified.
         case min_by_digest certified of
           Some b \<Rightarrow> Some (IndirectCommit b Certificate)
         | None \<Rightarrow>
             (case bc_fast_path bc of
                None \<Rightarrow> Some (IndirectSkip leader lround)
              | Some fp \<Rightarrow>
                  Option.bind
                    (filter_option
                      (weak_link bc s anchor (fp_weak_indirect_quorum fp)
                        (get_blocks_by_round s (voting_round (bc_wave bc) n))) leader_blocks) (\<lambda>weak.
                  case min_by_digest weak of
                    Some b \<Rightarrow> Some (IndirectCommit b WeakQuorum)
                  | None \<Rightarrow> Some (IndirectSkip leader lround)))))"

definition enough_leader_blame ::
  "base_committer \<Rightarrow> block_store \<Rightarrow> dag_block list \<Rightarrow> authority \<Rightarrow> round_number \<Rightarrow> bool option" where
  "enough_leader_blame bc s voting_blocks leader lround =
     aggregate (bc_committee bc) (\<lambda>b. map_option (\<lambda>support. support = None) (find_support s leader lround b))
       db_author (sa_new (bc_direct_skip_quorum bc)) voting_blocks"

definition enough_leader_support ::
  "base_committer \<Rightarrow> block_store \<Rightarrow> round_number \<Rightarrow> dag_block \<Rightarrow> bool option" where
  "enough_leader_support bc s dround leader_block =
     (let decision_blocks = get_blocks_by_round s dround
      in if wv_merged_certificates (bc_wave bc) then
           is_certificate bc s decision_blocks leader_block (bc_direct_commit_quorum bc)
         else
           aggregate (bc_committee bc) (\<lambda>b. carries_certificate bc s b leader_block)
             db_author (sa_new (bc_direct_commit_quorum bc)) decision_blocks)"

definition enough_fast_path_support ::
  "base_committer \<Rightarrow> block_store \<Rightarrow> dag_block list \<Rightarrow> dag_block \<Rightarrow> bool option" where
  "enough_fast_path_support bc s voting_blocks leader_block =
     (case bc_fast_path bc of
        None \<Rightarrow> Some False
      | Some fp \<Rightarrow>
          aggregate (bc_committee bc) (\<lambda>b. is_vote s b leader_block)
            db_author (sa_new (fp_commit_quorum fp)) voting_blocks)"

fun try_indirect_decide ::
  "base_committer \<Rightarrow> block_store \<Rightarrow> authority \<Rightarrow> round_number \<Rightarrow> leader_status list \<Rightarrow> leader_status option" where
  "try_indirect_decide bc s leader lround [] = Some (Undecided leader lround)"
| "try_indirect_decide bc s leader lround (x # leaders) =
     (if \<not> lround + wv_length (bc_wave bc) \<le> ls_round x then try_indirect_decide bc s leader lround leaders
      else case x of
             DirectCommit anchor _ \<Rightarrow> decide_leader_from_anchor bc s anchor leader lround
           | IndirectCommit anchor _ \<Rightarrow> decide_leader_from_anchor bc s anchor leader lround
           | DirectSkip _ _ \<Rightarrow> try_indirect_decide bc s leader lround leaders
           | IndirectSkip _ _ \<Rightarrow> try_indirect_decide bc s leader lround leaders
           | Undecided _ _ \<Rightarrow> Some (Undecided leader lround))"

fun supported_blocks ::
  "(dag_block \<Rightarrow> bool option) \<Rightarrow> (dag_block \<Rightarrow> bool option) \<Rightarrow> dag_block list \<Rightarrow>
     (dag_block \<times> direct_commit_path) list option" where
  "supported_blocks fast slow [] = Some []"
| "supported_blocks fast slow (b # bs) =
     Option.bind (fast b) (\<lambda>f.
     Option.bind (if f then Some False else slow b) (\<lambda>sl.
     map_option (\<lambda>rest. if f then (b, Fast) # rest else if sl then (b, Slow) # rest else rest)
       (supported_blocks fast slow bs)))"

definition try_direct_decide ::
  "base_committer \<Rightarrow> block_store \<Rightarrow> authority \<Rightarrow> round_number \<Rightarrow> leader_status option" where
  "try_direct_decide bc s leader lround =
     (let n = wave_number (bc_wave bc) lround;
          voting_blocks = get_blocks_by_round s (voting_round (bc_wave bc) n)
      in Option.bind (enough_leader_blame bc s voting_blocks leader lround) (\<lambda>blamed.
         if blamed then Some (DirectSkip leader lround)
         else
           Option.bind
             (supported_blocks (enough_fast_path_support bc s voting_blocks)
               (enough_leader_support bc s (decision_round (bc_wave bc) n))
               (get_blocks_at_authority_round s leader lround)) (\<lambda>supported.
           case supported of
             [] \<Rightarrow> Some (Undecided leader lround)
           | [(b, path)] \<Rightarrow> Some (DirectCommit b path)
           | _ \<Rightarrow> None)))"

section \<open>The committer\<close>

record committer =
  co_base_committers :: "base_committer list"
  co_quorum_threshold :: stake
  co_leader_wait :: bool
  co_fast_commit_quorum_above_clock :: "stake option"

definition committer_new :: "committee \<Rightarrow> protocol \<Rightarrow> committer" where
  "committer_new cm p =
     \<lparr>co_base_committers =
        concat (map (\<lambda>round_offset. map (\<lambda>leader_offset. base_committer_new cm p leader_offset round_offset)
          [0..<pr_leader_count p]) [0..<(if pr_pipeline p then pr_wave_length p else 1)]),
      co_quorum_threshold = pr_quorum_threshold p,
      co_leader_wait = pr_leader_wait p,
      co_fast_commit_quorum_above_clock =
        (case pr_fast_path p of
           None \<Rightarrow> None
         | Some fp \<Rightarrow> if fp_commit_quorum fp > pr_quorum_threshold p then Some (fp_commit_quorum fp) else None)\<rparr>"

fun decide_slots ::
  "block_store \<Rightarrow> round_number \<Rightarrow> base_committer list \<Rightarrow> leader_status list \<Rightarrow> leader_status list option" where
  "decide_slots s round [] leaders = Some leaders"
| "decide_slots s round (bc # bcs) leaders =
     (case elect_leader bc round of
        None \<Rightarrow> decide_slots s round bcs leaders
      | Some leader \<Rightarrow>
          Option.bind (try_direct_decide bc s leader round) (\<lambda>status.
          Option.bind (if is_decided status then Some status else try_indirect_decide bc s leader round leaders)
            (\<lambda>status. decide_slots s round bcs (status # leaders))))"

fun decide_rounds ::
  "block_store \<Rightarrow> base_committer list \<Rightarrow> round_number list \<Rightarrow> leader_status list \<Rightarrow> leader_status list option" where
  "decide_rounds s bcs [] leaders = Some leaders"
| "decide_rounds s bcs (round # rounds) leaders =
     Option.bind (decide_slots s round (rev bcs) leaders) (decide_rounds s bcs rounds)"

definition committer_try_commit ::
  "committer \<Rightarrow> block_store \<Rightarrow> (round_number \<times> authority) option \<Rightarrow> leader_status list option" where
  "committer_try_commit co s last_decided =
     (let last_decided_round = (case last_decided of Some (round, _) \<Rightarrow> round | None \<Rightarrow> 0)
      in map_option (\<lambda>leaders.
           takeWhile is_decided
             (filter (\<lambda>x. ls_round x > 0)
               (case last_decided of
                  Some slot \<Rightarrow> drop 1 (dropWhile (\<lambda>x. (ls_round x, ls_authority x) \<noteq> slot) leaders)
                | None \<Rightarrow> leaders)))
           (decide_rounds s (co_base_committers co) (rev [last_decided_round..<Suc (bs_highest_round s)]) []))"

definition get_leaders :: "committer \<Rightarrow> round_number \<Rightarrow> authority list option" where
  "get_leaders co round =
     (if co_leader_wait co then Some (List.map_filter (\<lambda>bc. elect_leader bc round) (co_base_committers co)) else None)"

text \<open>\<^verbatim>\<open>Core::try_commit\<close>: the blocks of the newly decided leaders and the new cursor.\<close>

definition core_try_commit ::
  "committer \<Rightarrow> block_store \<Rightarrow> (round_number \<times> authority) option \<Rightarrow>
     ((round_number \<times> authority) option \<times> dag_block list) option" where
  "core_try_commit co s last_decided =
     Option.bind (committer_try_commit co s last_decided) (\<lambda>decided.
     map_option (\<lambda>blocks.
         (if decided = [] then last_decided else Some (ls_round (last decided), ls_authority (last decided)),
          List.map_filter id blocks))
       (those (map into_decided_block decided)))"

section \<open>The linearizer\<close>

record committed_sub_dag =
  sd_anchor :: block_reference
  sd_blocks :: "dag_block list"

fun push_includes ::
  "block_store \<Rightarrow> block_reference list \<Rightarrow> block_reference set \<Rightarrow> dag_block list \<Rightarrow>
     (block_reference set \<times> dag_block list) option" where
  "push_includes s [] committed buffer = Some (committed, buffer)"
| "push_includes s (r # rs) committed buffer =
     (case get_block s r of
        None \<Rightarrow> None
      | Some b \<Rightarrow>
          if r \<in> committed then push_includes s rs committed buffer
          else push_includes s rs (insert r committed) (b # buffer))"

lemma get_block_reference: "get_block s r = Some b \<Longrightarrow> db_reference b = r \<and> b \<in> set (bs_index s)"
  by (auto simp: get_block_def find_Some_iff)

lemma push_includes_measure:
  "push_includes s rs committed buffer = Some (committed', buffer') \<Longrightarrow>
    card (db_reference ` set (bs_index s) - committed') + length buffer' =
    card (db_reference ` set (bs_index s) - committed) + length buffer"
proof (induction rs arbitrary: committed buffer)
  case (Cons r rs)
  show ?case
  proof (cases "get_block s r")
    case None
    then show ?thesis using Cons.prems by simp
  next
    case (Some b)
    show ?thesis
    proof (cases "r \<in> committed")
      case True
      then show ?thesis using Cons Some by simp
    next
      case False
      let ?R = "db_reference ` set (bs_index s)"
      have r: "r \<in> ?R - committed" using get_block_reference [OF Some] False by auto
      have "?R - insert r committed = (?R - committed) - {r}" by blast
      then have "Suc (card (?R - insert r committed)) = card (?R - committed)"
        using card_Suc_Diff1 [OF _ r] by (simp only: finite_Diff finite_imageI finite_set)
      then show ?thesis using Cons.IH [of "insert r committed" "b # buffer"] Cons.prems Some False by simp
    qed
  qed
qed simp

function collect_loop ::
  "block_store \<Rightarrow> block_reference set \<Rightarrow> dag_block list \<Rightarrow> dag_block list \<Rightarrow>
     (block_reference set \<times> dag_block list) option" where
  "collect_loop s committed [] to_commit = Some (committed, to_commit)"
| "collect_loop s committed (x # buffer) to_commit =
     (case push_includes s (db_includes x) committed buffer of
        None \<Rightarrow> None
      | Some (committed, buffer) \<Rightarrow> collect_loop s committed buffer (to_commit @ [x]))"
  by pat_completeness auto
termination
proof (relation "measure (\<lambda>(s, committed, buffer, _). card (db_reference ` set (bs_index s) - committed) + length buffer)")
  fix s :: block_store and committed committed' y and x :: dag_block and buffer buffer' to_commit :: "dag_block list"
  assume "push_includes s (db_includes x) committed buffer = Some y" "(committed', buffer') = y"
  then show "((s, committed', buffer', to_commit @ [x]), s, committed, x # buffer, to_commit)
      \<in> measure (\<lambda>(s, committed, buffer, _). card (db_reference ` set (bs_index s) - committed) + length buffer)"
    using push_includes_measure [of s "db_includes x" committed buffer committed' buffer'] by simp
qed simp

definition collect_sub_dag ::
  "block_store \<Rightarrow> dag_block \<Rightarrow> block_reference set \<Rightarrow> (block_reference set \<times> committed_sub_dag) option" where
  "collect_sub_dag s leader_block committed =
     (if db_reference leader_block \<in> committed then None
      else map_option (\<lambda>(committed, to_commit). (committed, \<lparr>sd_anchor = db_reference leader_block, sd_blocks = to_commit\<rparr>))
             (collect_loop s (insert (db_reference leader_block) committed) [leader_block] []))"

definition sub_dag_sort :: "committed_sub_dag \<Rightarrow> committed_sub_dag" where
  "sub_dag_sort d = d\<lparr>sd_blocks := sort_key db_round (sd_blocks d)\<rparr>"

fun handle_commit ::
  "block_store \<Rightarrow> dag_block list \<Rightarrow> block_reference set \<Rightarrow> (block_reference set \<times> committed_sub_dag list) option" where
  "handle_commit s [] committed = Some (committed, [])"
| "handle_commit s (leader_block # leaders) committed =
     Option.bind (collect_sub_dag s leader_block committed) (\<lambda>(committed, sub_dag).
     map_option (\<lambda>(committed, rest). (committed, sub_dag_sort sub_dag # rest)) (handle_commit s leaders committed))"

end
