(* ===== verification/Stake.thy ===== *)
theory Stake
  imports Committer
begin

text \<open>
  Stake as sums of natural numbers: what the committee constructor ensures, the set of voters an aggregator stands
  for, and that the loops over votes compare the stake of a set of authors with the threshold.
\<close>

section \<open>The stake of a set of authorities\<close>

definition stake_at :: "committee \<Rightarrow> authority \<Rightarrow> nat" where
  "stake_at c a = unat (ai_stake (cm_authorities c ! a))"

definition stake_of :: "committee \<Rightarrow> authority set \<Rightarrow> nat" where
  "stake_of c S = (\<Sum>a \<in> S \<inter> {..<committee_len c}. stake_at c a)"

definition committee_ok :: "committee \<Rightarrow> bool" where
  "committee_ok c \<longleftrightarrow> committee_new (cm_authorities c) = Some c"

abbreviation everyone :: "committee \<Rightarrow> authority set" where
  "everyone c \<equiv> {..<committee_len c}"

lemma add_stakes_sum: "add_stakes t as = Some t' \<Longrightarrow> unat t' = unat t + (\<Sum>a\<leftarrow>as. unat (ai_stake a))"
proof (induction as arbitrary: t)
  case (Cons a as)
  then obtain t1 where "checked_add t (ai_stake a) = Some t1" "add_stakes t1 as = Some t'"
    by (auto simp: bind_eq_Some_conv)
  then show ?case using Cons.IH by (simp add: checked_add_Some unat_add_no_wrap)
qed simp

lemma committee_okD:
  assumes "committee_ok c"
  shows "committee_len c \<le> 128" and "0 < committee_len c"
    and "a < committee_len c \<Longrightarrow> 0 < stake_at c a"
    and "unat (cm_total_stake c) = stake_of c (everyone c)"
proof -
  have c: "cm_authorities c \<noteq> []" "list_all (\<lambda>a. ai_stake a > 0) (cm_authorities c)" "length (cm_authorities c) \<le> 128"
    and t: "add_stakes 0 (cm_authorities c) = Some (cm_total_stake c)"
    using assms by (cases c; auto simp: committee_ok_def committee_new_def split: if_splits)+
  show "committee_len c \<le> 128" "0 < committee_len c" using c by (simp_all add: committee_len_def)
  show "0 < stake_at c a" if "a < committee_len c"
    using c(2) that by (auto simp: stake_at_def committee_len_def list_all_length unat_gt_0 word_neq_0_conv [symmetric])
  have "unat (cm_total_stake c) = (\<Sum>i<length (cm_authorities c). unat (ai_stake (cm_authorities c ! i)))"
    using add_stakes_sum [OF t] by (simp add: sum_list_sum_nth atLeast0LessThan)
  then show "unat (cm_total_stake c) = stake_of c (everyone c)"
    by (simp add: stake_of_def stake_at_def committee_len_def)
qed

lemma stake_of_mono: "S \<subseteq> T \<Longrightarrow> stake_of c S \<le> stake_of c T"
  unfolding stake_of_def by (intro sum_mono2) auto

lemma stake_of_empty [simp]: "stake_of c {} = 0"
  by (simp add: stake_of_def)

lemma stake_of_le: "stake_of c S \<le> stake_of c (everyone c)"
  unfolding stake_of_def by (intro sum_mono2) auto

lemma stake_of_disjoint: "S \<inter> T = {} \<Longrightarrow> stake_of c (S \<union> T) = stake_of c S + stake_of c T"
  unfolding stake_of_def Int_Un_distrib2 by (intro sum.union_disjoint) auto

lemma stake_of_insert: "a < committee_len c \<Longrightarrow> a \<notin> S \<Longrightarrow> stake_of c (insert a S) = stake_of c S + stake_at c a"
  using stake_of_disjoint [of "{a}" S c] by (simp add: stake_of_def)

lemma stake_of_positive:
  assumes "committee_ok c" and "S \<inter> everyone c \<noteq> {}"
  shows "0 < stake_of c S"
  unfolding stake_of_def using assms committee_okD(3) [OF assms(1)] by (intro sum_pos) auto

text \<open>Two sets that exceed the whole committee by some stake share members of that stake.\<close>

lemma stake_of_inter: "stake_of c S + stake_of c T \<le> stake_of c (everyone c) + stake_of c (S \<inter> T)"
proof -
  have "stake_of c S = stake_of c (S - T) + stake_of c (S \<inter> T)"
    using stake_of_disjoint [of "S - T" "S \<inter> T" c] by (simp add: Un_Diff_Int Int_commute Diff_Int_distrib2)
  moreover have "stake_of c ((S - T) \<union> T) = stake_of c (S - T) + stake_of c T"
    by (intro stake_of_disjoint) blast
  moreover have "stake_of c ((S - T) \<union> T) \<le> stake_of c (everyone c)" by (rule stake_of_le)
  ultimately show ?thesis by linarith
qed

section \<open>The aggregator\<close>

definition counts :: "committee \<Rightarrow> authority set \<Rightarrow> stake_aggregator \<Rightarrow> bool" where
  "counts c X agg \<longleftrightarrow> X \<subseteq> everyone c \<and> (\<forall>i < 128. bit (sa_votes agg) i \<longleftrightarrow> i \<in> X) \<and>
     unat (sa_stake agg) = stake_of c X"

lemma counts_new: "counts c {} (sa_new q)"
  by (simp add: counts_def sa_new_def)

lemma authority_set_insert_spec:
  assumes "v < 128"
  shows "authority_set_insert v m = (if bit m v then (False, m) else (True, m OR push_bit v 1))"
proof -
  have "m AND push_bit v 1 = push_bit v 1 \<longleftrightarrow> bit m v"
  proof
    assume "m AND push_bit v 1 = push_bit v 1"
    then have "bit (m AND push_bit v 1) v = bit (push_bit v 1 :: 128 word) v" by simp
    then show "bit m v" using assms by (simp add: bit_simps)
  next
    assume "bit m v"
    then show "m AND push_bit v 1 = push_bit v 1" by (intro bit_word_eqI) (auto simp: bit_simps)
  qed
  then show ?thesis using assms by (simp add: authority_set_insert_def Let_def)
qed

lemma sa_add_spec:
  assumes c: "committee_ok c" and X: "counts c X agg" and a: "a < committee_len c"
  shows "\<exists>agg'. sa_add c a agg = Some (unat (sa_threshold agg) \<le> stake_of c (insert a X), agg') \<and>
    counts c (insert a X) agg' \<and> sa_threshold agg' = sa_threshold agg"
proof -
  have a128: "a < 128" using a committee_okD(1) [OF c] by simp
  have st: "get_stake c a = Some (ai_stake (cm_authorities c ! a))" using a by (simp add: get_stake_def)
  show ?thesis
  proof (cases "a \<in> X")
    case True
    then have "bit (sa_votes agg) a" using X a128 by (simp add: counts_def)
    then show ?thesis using X True a128 st
      by (simp add: sa_add_def authority_set_insert_spec insert_absorb counts_def word_le_nat_alt Let_def)
  next
    case False
    have sum: "stake_of c (insert a X) = stake_of c X + unat (ai_stake (cm_authorities c ! a))"
      using stake_of_insert [OF a False] by (simp add: stake_at_def)
    have "stake_of c (insert a X) \<le> unat (cm_total_stake c)"
      using stake_of_le committee_okD(4) [OF c] by metis
    then have "stake_of c (insert a X) < 2 ^ LENGTH(64)" using unat_lt_size [of "cm_total_stake c"] by linarith
    then have fit: "unat (sa_stake agg) + unat (ai_stake (cm_authorities c ! a)) < 2 ^ LENGTH(64)"
      using X unfolding sum by (simp add: counts_def)
    have new: "unat (sa_stake agg + ai_stake (cm_authorities c ! a)) = stake_of c (insert a X)"
      using unat_add_no_wrap [OF fit] X unfolding sum by (simp add: counts_def)
    have b: "\<not> bit (sa_votes agg) a" using X a128 False by (simp add: counts_def)
    define agg' where "agg' = agg\<lparr>sa_votes := sa_votes agg OR push_bit a 1,
      sa_stake := sa_stake agg + ai_stake (cm_authorities c ! a)\<rparr>"
    have "sa_add c a agg = Some (sa_threshold agg \<le> sa_stake agg', agg')"
      using st b a128 by (simp add: sa_add_def authority_set_insert_spec agg'_def Let_def)
    moreover have "counts c (insert a X) agg'"
      using X a new a128 by (auto simp: counts_def agg'_def bit_simps)
    ultimately show ?thesis using new by (auto simp: agg'_def word_le_nat_alt)
  qed
qed

lemma aggregate_from:
  assumes c: "committee_ok c"
  shows "\<lbrakk>counts c X agg; stake_of c X < unat (sa_threshold agg);
    \<And>b. b \<in> set bs \<Longrightarrow> cond b \<noteq> None \<and> (cond b = Some True \<longrightarrow> auth b < committee_len c)\<rbrakk> \<Longrightarrow>
    aggregate c cond auth agg bs =
      Some (unat (sa_threshold agg) \<le> stake_of c (X \<union> auth ` {b \<in> set bs. cond b = Some True}))"
proof (induction bs arbitrary: X agg)
  case Nil
  then show ?case by simp
next
  case (Cons b bs)
  have rest: "\<And>b. b \<in> set bs \<Longrightarrow> cond b \<noteq> None \<and> (cond b = Some True \<longrightarrow> auth b < committee_len c)"
    using Cons.prems(3) by simp
  obtain v where v: "cond b = Some v" using Cons.prems(3) [of b] by auto
  show ?case
  proof (cases v)
    case False
    then have "{x \<in> set (b # bs). cond x = Some True} = {x \<in> set bs. cond x = Some True}" using v by auto
    then show ?thesis using Cons.IH [OF Cons.prems(1,2) rest] v False by simp
  next
    case True
    then have set: "X \<union> auth ` {x \<in> set (b # bs). cond x = Some True} =
        insert (auth b) X \<union> auth ` {x \<in> set bs. cond x = Some True}" using v by auto
    obtain agg' where agg': "sa_add c (auth b) agg = Some (unat (sa_threshold agg) \<le> stake_of c (insert (auth b) X), agg')"
        "counts c (insert (auth b) X) agg'" "sa_threshold agg' = sa_threshold agg"
      using sa_add_spec [OF c Cons.prems(1)] Cons.prems(3) [of b] v True by auto
    show ?thesis
    proof (cases "unat (sa_threshold agg) \<le> stake_of c (insert (auth b) X)")
      case reached: True
      have "stake_of c (insert (auth b) X) \<le> stake_of c (insert (auth b) X \<union> auth ` {x \<in> set bs. cond x = Some True})"
        by (intro stake_of_mono) blast
      then show ?thesis using reached agg'(1) v True unfolding set by simp
    next
      case more: False
      then show ?thesis using Cons.IH [OF agg'(2) _ rest] agg' v True unfolding set by simp
    qed
  qed
qed

lemma aggregate_spec:
  assumes "committee_ok c" and "0 < unat q"
    and "\<And>b. b \<in> set bs \<Longrightarrow> cond b \<noteq> None \<and> (cond b = Some True \<longrightarrow> auth b < committee_len c)"
  shows "aggregate c cond auth (sa_new q) bs = Some (unat q \<le> stake_of c (auth ` {b \<in> set bs. cond b = Some True}))"
  using aggregate_from [OF assms(1) counts_new [of c q], of bs cond auth] assms(2,3) by (simp add: sa_new_def)

end
