(* ===== verification/Dag_Views.thy ===== *)
theory Dag_Views
  imports Stake
begin

text \<open>
  Views of one DAG. \<open>dag_ok\<close> describes a store that holds every block of the system: references identify blocks, each
  block is a genesis block or passes \<^verbatim>\<open>Block::verify\<close>, and an honest authority proposes at most one block per round and
  includes its own previous block first (\<^verbatim>\<open>Core::try_new_block\<close>). A validator's store is a causally closed part of
  it, a \<open>view\<close>. The lemmas show what two views agree on: the block a reference stands for, the support of a block, the
  layers of blocks linked to an anchor, and that every layer below a block carries a quorum.
\<close>

definition closed :: "block_store \<Rightarrow> bool" where
  "closed s \<longleftrightarrow> (\<forall>b \<in> set (bs_index s). \<forall>r \<in> set (db_includes b). block_exists s r)"

definition verified :: "committee \<Rightarrow> stake \<Rightarrow> dag_block \<Rightarrow> bool" where
  "verified c q b \<longleftrightarrow> (\<exists>crypto. block_verify crypto c q b = Some (Inr ()))"

definition genesis_block :: "committee \<Rightarrow> dag_block \<Rightarrow> bool" where
  "genesis_block c b \<longleftrightarrow> db_round b = GENESIS_ROUND \<and> db_includes b = [] \<and> known_authority c (db_author b)"

lemma genesis_block_genesis: "known_authority c a \<Longrightarrow> genesis_block c (block_genesis a)"
  by (simp add: genesis_block_def block_genesis_def)

definition own_chain :: "dag_block set \<Rightarrow> dag_block \<Rightarrow> bool" where
  "own_chain U b \<longleftrightarrow> (\<exists>p \<in> U. \<exists>rest. db_includes b = db_reference p # rest \<and> db_author p = db_author b \<and>
     (\<forall>x \<in> U. db_author x = db_author b \<longrightarrow> db_round x \<le> db_round p \<or> db_round b \<le> db_round x))"

definition dag_ok :: "committee \<Rightarrow> stake \<Rightarrow> authority set \<Rightarrow> block_store \<Rightarrow> bool" where
  "dag_ok c q honest g \<longleftrightarrow> closed g \<and> distinct (bs_index g) \<and>
     (\<forall>b \<in> set (bs_index g). \<forall>b' \<in> set (bs_index g). db_reference b = db_reference b' \<longrightarrow> b = b') \<and>
     (\<forall>b \<in> set (bs_index g). genesis_block c b \<or> verified c q b) \<and>
     (\<forall>b \<in> set (bs_index g). db_author b \<in> honest \<longrightarrow>
        (\<forall>b' \<in> set (bs_index g). author_round (db_reference b') = author_round (db_reference b) \<longrightarrow> b' = b) \<and>
        (db_round b \<noteq> 0 \<longrightarrow> own_chain (set (bs_index g)) b))"

definition view :: "block_store \<Rightarrow> block_store \<Rightarrow> bool" where
  "view g s \<longleftrightarrow> closed s \<and> distinct (bs_index s) \<and> set (bs_index s) \<subseteq> set (bs_index g)"

section \<open>Verified blocks\<close>

lemma stake_of_voter:
  assumes "0 < unat (q :: stake)" and "unat q \<le> stake_of c (f ` {x \<in> S. P x})"
  obtains x where "x \<in> S" and "P x"
proof (cases "{x \<in> S. P x} = {}")
  case True
  then show ?thesis using assms unfolding True by simp
qed (use that in blast)

lemma check_includes_ok:
  "check_includes c round rs = Inr () \<longleftrightarrow> (\<forall>r \<in> set rs. known_authority c (br_authority r) \<and> br_round r < round)"
  by (induction rs) auto

lemma count_previous_spec:
  assumes c: "committee_ok c"
  shows "\<lbrakk>counts c X agg; \<And>r. r \<in> set rs \<Longrightarrow> known_authority c (br_authority r); i \<longrightarrow> unat (sa_threshold agg) \<le> stake_of c X\<rbrakk> \<Longrightarrow>
    count_previous c k i agg rs = Some True \<Longrightarrow>
      unat (sa_threshold agg) \<le> stake_of c (X \<union> br_authority ` {r \<in> set rs. br_round r = k - 1})"
proof (induction rs arbitrary: X agg i)
  case (Cons r rs)
  show ?case
  proof (cases "br_round r = k - 1")
    case True
    obtain agg' where agg': "sa_add c (br_authority r) agg =
          Some (unat (sa_threshold agg) \<le> stake_of c (insert (br_authority r) X), agg')"
        "counts c (insert (br_authority r) X) agg'" "sa_threshold agg' = sa_threshold agg"
      using sa_add_spec [OF c Cons.prems(1)] Cons.prems(2) [of r] by (auto simp: known_authority_def)
    have "unat (sa_threshold agg') \<le> stake_of c (insert (br_authority r) X \<union> br_authority ` {r \<in> set rs. br_round r = k - 1})"
      by (rule Cons.IH [OF agg'(2), where i = "unat (sa_threshold agg) \<le> stake_of c (insert (br_authority r) X)"])
        (use Cons.prems agg' True in auto)
    moreover have "insert (br_authority r) X \<union> br_authority ` {r \<in> set rs. br_round r = k - 1} =
        X \<union> br_authority ` {x \<in> set (r # rs). br_round x = k - 1}" using True by auto
    ultimately show ?thesis using agg'(3) by simp
  next
    case False
    then have "{x \<in> set (r # rs). br_round x = k - 1} = {x \<in> set rs. br_round x = k - 1}" by auto
    then show ?thesis using Cons.IH [OF Cons.prems(1) _ Cons.prems(3)] Cons.prems(2,4) False by simp
  qed
qed simp

lemma verifiedD:
  assumes c: "committee_ok c" and v: "verified c q b" and q: "0 < unat q"
  shows "0 < db_round b" and "db_author b < committee_len c"
    and "\<And>r. r \<in> set (db_includes b) \<Longrightarrow> br_authority r < committee_len c \<and> br_round r < db_round b"
    and "unat q \<le> stake_of c (br_authority ` {r \<in> set (db_includes b). br_round r = db_round b - 1})"
proof -
  obtain crypto where "block_verify crypto c q b = Some (Inr ())" using v by (auto simp: verified_def)
  then have *: "db_round b \<noteq> 0" "get_public_key c (db_author b) \<noteq> None"
      "check_includes c (db_round b) (db_includes b) = Inr ()" "threshold_clock_valid_non_genesis c q b = Some True"
    by (auto simp: block_verify_def GENESIS_ROUND_def split: if_splits option.splits sum.splits)
  show "0 < db_round b" "db_author b < committee_len c"
    using *(1,2) by (simp_all add: get_public_key_def split: if_splits)
  show inc: "\<And>r. r \<in> set (db_includes b) \<Longrightarrow> br_authority r < committee_len c \<and> br_round r < db_round b"
    using *(3) by (auto simp: check_includes_ok known_authority_def)
  have "count_previous c (db_round b) False (sa_new q) (db_includes b) = Some True"
    using *(4) by (auto simp: threshold_clock_valid_non_genesis_def split: if_splits)
  then show "unat q \<le> stake_of c (br_authority ` {r \<in> set (db_includes b). br_round r = db_round b - 1})"
    using count_previous_spec [OF c counts_new [of c q], where i = False and rs = "db_includes b" and k = "db_round b"] inc q
    by (simp add: sa_new_def known_authority_def)
qed

section \<open>What views agree on\<close>

definition good_dag :: "committee \<Rightarrow> stake \<Rightarrow> authority set \<Rightarrow> block_store \<Rightarrow> bool" where
  "good_dag c q honest g \<longleftrightarrow> committee_ok c \<and> 0 < unat q \<and> dag_ok c q honest g"

lemma good_dagD:
  assumes "good_dag c q honest g"
  shows "committee_ok c" and "0 < unat q" and "view g g"
    and "\<lbrakk>b \<in> set (bs_index g); b' \<in> set (bs_index g); db_reference b = db_reference b'\<rbrakk> \<Longrightarrow> b = b'"
    and "\<lbrakk>b \<in> set (bs_index g); db_author b \<in> honest; b' \<in> set (bs_index g);
      db_author b' = db_author b; db_round b' = db_round b\<rbrakk> \<Longrightarrow> b' = b"
    and "\<lbrakk>b \<in> set (bs_index g); db_author b \<in> honest; db_round b \<noteq> 0\<rbrakk> \<Longrightarrow> own_chain (set (bs_index g)) b"
    and "b \<in> set (bs_index g) \<Longrightarrow> genesis_block c b \<or> verified c q b"
  using assms by (auto simp: good_dag_def dag_ok_def view_def author_round_def)

lemma good_dag_block:
  assumes G: "good_dag c q honest g" and b: "b \<in> set (bs_index g)"
  shows "db_author b < committee_len c"
    and "r \<in> set (db_includes b) \<Longrightarrow> br_round r < db_round b \<and> br_authority r < committee_len c"
    and "0 < db_round b \<Longrightarrow>
      unat q \<le> stake_of c (br_authority ` {r \<in> set (db_includes b). br_round r = db_round b - 1})"
  using good_dagD(7) [OF G b] verifiedD [OF good_dagD(1) [OF G] _ good_dagD(2) [OF G], of b]
  by (auto simp: genesis_block_def known_authority_def GENESIS_ROUND_def)

lemma block_exists_iff: "block_exists s r \<longleftrightarrow> (\<exists>b \<in> set (bs_index s). db_reference b = r)"
  by (auto simp: block_exists_def list_ex_iff)

lemma viewD:
  assumes "view g s"
  shows "b \<in> set (bs_index s) \<Longrightarrow> b \<in> set (bs_index g)"
    and "b \<in> set (bs_index s) \<Longrightarrow> r \<in> set (db_includes b) \<Longrightarrow> block_exists s r"
  using assms by (auto simp: view_def closed_def)

lemma get_block_in:
  assumes G: "good_dag c q honest g" and s: "view g s" and b: "b \<in> set (bs_index s)"
  shows "get_block s (db_reference b) = Some b"
proof -
  have "get_block s (db_reference b) \<noteq> None" using b by (auto simp: get_block_def find_None_iff)
  then obtain x where x: "get_block s (db_reference b) = Some x" by blast
  then show ?thesis using good_dagD(4) [OF G, of x b] get_block_reference [OF x] viewD(1) [OF s] b by auto
qed

lemma get_block_exists:
  assumes "good_dag c q honest g" and "view g s" and "block_exists s r"
  obtains b where "get_block s r = Some b" and "b \<in> set (bs_index s)" and "db_reference b = r" and "get_block g r = Some b"
  using assms get_block_in [OF assms(1,2)] get_block_in [OF assms(1) good_dagD(3) [OF assms(1)]] viewD(1) [OF assms(2)]
  by (fastforce simp: block_exists_iff)

section \<open>Support\<close>

lemma support_among_more:
  "support_among fuel s a k rs = Some x \<Longrightarrow> support_among (Suc fuel) s a k rs = Some x"
proof (induction fuel arbitrary: rs x)
  case 0
  then show ?case by (induction rs) (simp_all split: if_splits)
next
  case (Suc fuel)
  note outer = Suc.IH
  show ?case using Suc.prems
  proof (induction rs)
    case (Cons r rs)
    show ?case
    proof (cases "br_round r < k \<or> author_round r = (a, k)")
      case True
      then show ?thesis using Cons by (auto simp del: not_None_eq)
    next
      case False
      then obtain b where b: "get_block s r = Some b" using Cons.prems by (cases "get_block s r") simp_all
      show ?thesis
      proof (cases "db_round b < k")
        case True
        then show ?thesis using Cons False b by simp
      next
        case deep: False
        obtain y where y: "support_among fuel s a k (db_includes b) = Some y"
          using Cons.prems False b deep by (cases "support_among fuel s a k (db_includes b)") simp_all
        then show ?thesis using outer [OF y] Cons False b deep by (cases y) auto
      qed
    qed
  qed simp
qed

lemma support_among_mono:
  "support_among fuel s a k rs = Some x \<Longrightarrow> fuel \<le> fuel' \<Longrightarrow> support_among fuel' s a k rs = Some x"
  by (rule dec_induct [where P = "\<lambda>f. support_among f s a k rs = Some x"]) (auto intro: support_among_more)

lemma support_among_view:
  assumes G: "good_dag c q honest g" and s: "view g s"
  shows "\<lbrakk>\<And>r. r \<in> set rs \<Longrightarrow> block_exists s r \<and> br_round r < fuel\<rbrakk> \<Longrightarrow>
    \<exists>y. support_among fuel s a k rs = Some y \<and> support_among fuel g a k rs = Some y \<and>
      (\<forall>x. y = Some x \<longrightarrow> author_round x = (a, k) \<and> block_exists s x)"
proof (induction fuel arbitrary: rs)
  case 0
  then show ?case by (cases rs) auto
next
  case (Suc fuel)
  note outer = Suc.IH
  show ?case using Suc.prems
  proof (induction rs)
    case (Cons r rs)
    then have r: "block_exists s r" "br_round r < Suc fuel" by auto
    obtain b where b: "get_block s r = Some b" "b \<in> set (bs_index s)" "db_reference b = r" "get_block g r = Some b"
      by (rule get_block_exists [OF G s r(1)])
    have "\<And>x. x \<in> set (db_includes b) \<Longrightarrow> block_exists s x \<and> br_round x < fuel"
      using viewD [OF s] good_dag_block(2) [OF G] b(2,3) r(2) by fastforce
    then obtain y where y: "support_among fuel s a k (db_includes b) = Some y"
        "support_among fuel g a k (db_includes b) = Some y"
        "\<And>x. y = Some x \<Longrightarrow> author_round x = (a, k) \<and> block_exists s x" using outer by blast
    obtain z where z: "support_among (Suc fuel) s a k rs = Some z" "support_among (Suc fuel) g a k rs = Some z"
        "\<And>x. z = Some x \<Longrightarrow> author_round x = (a, k) \<and> block_exists s x"
      using Cons.IH Cons.prems by (metis list.set_intros(2))
    show ?case
    proof (cases "br_round r < k \<or> author_round r = (a, k)")
      case True
      then show ?thesis using z r(1) by auto
    next
      case False
      then show ?thesis using y z b by (cases y) auto
    qed
  qed simp
qed

definition support :: "block_store \<Rightarrow> authority \<Rightarrow> round_number \<Rightarrow> dag_block \<Rightarrow> block_reference option" where
  "support g a k b = the (find_support g a k b)"

lemma find_support_view:
  assumes G: "good_dag c q honest g" and s: "view g s" and b: "b \<in> set (bs_index s)"
  shows "find_support s a k b = Some (support g a k b) \<and>
    (\<forall>x. support g a k b = Some x \<longrightarrow> author_round x = (a, k) \<and> block_exists s x \<and> k < db_round b)"
proof (cases "db_round b < k")
  case True
  then show ?thesis by (simp add: find_support_def support_def)
next
  case False
  have inc: "block_exists s r \<and> br_round r < db_round b" if "r \<in> set (db_includes b)" for r
    using viewD [OF s] good_dag_block(2) [OF G] b that by blast
  have late: "k < db_round b" if "support_among (db_round b) g a k (db_includes b) = Some (Some x)" for x
  proof (rule ccontr)
    assume "\<not> k < db_round b"
    then have "\<And>r. r \<in> set (db_includes b) \<Longrightarrow> br_round r < k" using inc False by auto
    then have "support_among f g a k rs = Some None" if "set rs \<subseteq> set (db_includes b)" for f rs
      using that by (induction rs) (cases f, auto)+
    then show False using that by auto
  qed
  obtain y where "support_among (db_round b) s a k (db_includes b) = Some y"
      "support_among (db_round b) g a k (db_includes b) = Some y"
      "\<forall>x. y = Some x \<longrightarrow> author_round x = (a, k) \<and> block_exists s x"
    using support_among_view [OF G s, of "db_includes b" "db_round b" a k, OF inc] by blast
  then show ?thesis using late False by (simp add: find_support_def support_def)
qed

text \<open>An honest authority keeps supporting the block it supported first.\<close>

lemma support_persists:
  assumes G: "good_dag c q honest g"
    and v: "v \<in> set (bs_index g)" "db_author v \<in> honest" "support g a k v = Some x"
  shows "\<lbrakk>w \<in> set (bs_index g); db_author w = db_author v; db_round v \<le> db_round w\<rbrakk> \<Longrightarrow> support g a k w = Some x"
proof (induction "db_round w" arbitrary: w rule: less_induct)
  case less
  show ?case
  proof (cases "db_round w = db_round v")
    case True
    then have "w = v" using good_dagD(5) [OF G v(1,2)] less.prems by simp
    then show ?thesis using v by simp
  next
    case False
    then have later: "db_round v < db_round w" using less.prems by simp
    then obtain p rest where p: "p \<in> set (bs_index g)" "db_includes w = db_reference p # rest" "db_author p = db_author w"
        "db_round v \<le> db_round p"
      using good_dagD(6) [OF G less.prems(1)] less.prems(2) v(1,2) unfolding own_chain_def by fastforce
    have pw: "db_round p < db_round w" using good_dag_block(2) [OF G less.prems(1)] p(2) by simp
    have sp: "support g a k p = Some x" using less.hyps [OF pw p(1)] p(3,4) less.prems(2) by simp
    note view = good_dagD(3) [OF G]
    have k: "k < db_round p" and "find_support g a k p = Some (Some x)"
      using find_support_view [OF G view p(1), of a k] sp by auto
    then have *: "support_among (db_round p) g a k (db_includes p) = Some (Some x)" by (simp add: find_support_def)
    obtain f where f: "db_round w = Suc f" "db_round p \<le> f" using pw by (cases "db_round w") auto
    show ?thesis
      using support_among_mono [OF * f(2)] get_block_in [OF G view p(1)] k pw f(1) p(2)
      by (simp add: support_def find_support_def author_round_def)
  qed
qed

section \<open>Layers below a block\<close>

definition layer :: "block_store \<Rightarrow> dag_block \<Rightarrow> round_number \<Rightarrow> dag_block set" where
  "layer s anchor k = set (fold (linked_layer s) (rev [k..<db_round anchor]) [anchor])"

lemma layer_top: "db_round anchor \<le> k \<Longrightarrow> layer s anchor k = {anchor}"
  by (simp add: layer_def)

lemma layer_below:
  assumes "k < db_round anchor"
  shows "layer s anchor k =
    {b \<in> set (bs_index s). db_round b = k \<and> (\<exists>x \<in> layer s anchor (Suc k). db_reference b \<in> set (db_includes x))}"
  using assms by (simp add: layer_def upt_conv_Cons linked_layer_def get_blocks_by_round_def list_ex_iff)

lemma layer_view:
  assumes G: "good_dag c q honest g" and s: "view g s" and A: "anchor \<in> set (bs_index s)"
  shows "k \<le> db_round anchor \<Longrightarrow> layer s anchor k = layer g anchor k \<and> layer s anchor k \<subseteq> set (bs_index s) \<and>
    (\<exists>x \<in> layer s anchor k. db_round x = k)"
proof (induction "db_round anchor - k" arbitrary: k)
  case 0
  then show ?case using A by (simp add: layer_top)
next
  case (Suc n)
  then have k: "k < db_round anchor" by simp
  have IH: "layer s anchor (Suc k) = layer g anchor (Suc k) \<and> layer s anchor (Suc k) \<subseteq> set (bs_index s) \<and>
      (\<exists>x \<in> layer s anchor (Suc k). db_round x = Suc k)"
    by (rule Suc.hyps(1)) (use Suc.hyps(2) k in linarith)+
  then have up: "layer s anchor (Suc k) = layer g anchor (Suc k)" "layer s anchor (Suc k) \<subseteq> set (bs_index s)" by blast+
  obtain x where x: "x \<in> layer s anchor (Suc k)" "db_round x = Suc k" using IH by blast
  have "b \<in> set (bs_index s)" if b: "b \<in> set (bs_index g)" and "y \<in> layer s anchor (Suc k)"
    "db_reference b \<in> set (db_includes y)" for b y
  proof -
    have "block_exists s (db_reference b)" using viewD(2) [OF s] up(2) that by blast
    then show ?thesis using good_dagD(4) [OF G _ b] viewD(1) [OF s] by (auto simp: block_exists_iff)
  qed
  then have same: "layer s anchor k = layer g anchor k"
    unfolding layer_below [OF k] up(1) [symmetric] using viewD(1) [OF s] by blast
  have xs: "x \<in> set (bs_index s)" and xg: "x \<in> set (bs_index g)" using x(1) up(2) viewD(1) [OF s] by auto
  have "unat q \<le> stake_of c (br_authority ` {r \<in> set (db_includes x). br_round r = k})"
    using good_dag_block(3) [OF G xg] x(2) by simp
  then obtain r where r: "r \<in> set (db_includes x)" "br_round r = k"
    by (rule stake_of_voter [OF good_dagD(2) [OF G]])
  obtain b where "b \<in> set (bs_index s)" "db_reference b = r"
    using viewD(2) [OF s xs r(1)] by (auto simp: block_exists_iff)
  then have "b \<in> layer s anchor k" "db_round b = k" using layer_below [OF k, of s] x(1) r by auto
  then show ?case using same layer_below [OF k, of s] by auto
qed

lemma layer_quorum:
  assumes G: "good_dag c q honest g" and A: "anchor \<in> set (bs_index g)" and k: "k < db_round anchor"
  shows "unat q \<le> stake_of c (db_author ` layer g anchor k)"
proof -
  note view = good_dagD(3) [OF G]
  obtain x where x: "x \<in> layer g anchor (Suc k)" "db_round x = Suc k" "x \<in> set (bs_index g)"
    using layer_view [OF G view A, of "Suc k"] k by auto
  have "br_authority ` {r \<in> set (db_includes x). br_round r = k} \<subseteq> db_author ` layer g anchor k"
  proof
    fix a assume "a \<in> br_authority ` {r \<in> set (db_includes x). br_round r = k}"
    then obtain r where r: "r \<in> set (db_includes x)" "br_round r = k" "a = br_authority r" by auto
    then obtain b where "b \<in> set (bs_index g)" "db_reference b = r"
      using viewD(2) [OF view x(3)] by (auto simp: block_exists_iff)
    then show "a \<in> db_author ` layer g anchor k" using layer_below [OF k, of g] x(1) r by force
  qed
  from stake_of_mono [OF this] show ?thesis
    using good_dag_block(3) [OF G x(3)] x(2) by (simp add: order_trans)
qed

lemma linked_iff:
  assumes G: "good_dag c q honest g" and s: "view g s" and A: "anchor \<in> set (bs_index s)" and b: "b \<in> set (bs_index s)"
    and le: "db_round b \<le> db_round anchor"
  shows "linked s anchor b \<longleftrightarrow> b \<in> layer g anchor (db_round b)"
proof -
  have "linked s anchor b \<longleftrightarrow> (\<exists>x \<in> layer s anchor (db_round b). db_reference x = db_reference b)"
    by (simp add: linked_def layer_def list_ex_iff)
  then show ?thesis
    using layer_view [OF G s A le] good_dagD(4) [OF G, of _ b] viewD(1) [OF s] b by blast
qed

end
