(* ===== verification/Decisions.thy ===== *)
theory Decisions
  imports Dag_Views
begin

text \<open>
  What a decision of the base committer means. Evidence is a set of authors whose blocks vote for a leader block, or
  whose blocks carry a certificate for it; every decision function of the committer compares the stake of such a set
  with a quorum, and the sets do not depend on the view they are read from. Quorums that satisfy \<open>safe_rule\<close> exclude
  conflicting evidence, so two decisions on one slot, direct or through an anchor, agree.
\<close>

section \<open>Evidence\<close>

definition vote_evidence ::
  "committee \<Rightarrow> block_store \<Rightarrow> authority \<Rightarrow> round_number \<Rightarrow> dag_block set \<Rightarrow> round_number \<Rightarrow> block_reference \<Rightarrow> stake \<Rightarrow> bool"
  where
  "vote_evidence c g a k T r x m \<longleftrightarrow>
     unat m \<le> stake_of c (db_author ` {v \<in> T. db_round v = r \<and> support g a k v = Some x})"

definition certifies ::
  "committee \<Rightarrow> block_store \<Rightarrow> authority \<Rightarrow> round_number \<Rightarrow> stake \<Rightarrow> block_reference \<Rightarrow> dag_block \<Rightarrow> bool" where
  "certifies c g a k m x d \<longleftrightarrow>
     unat m \<le> stake_of c (br_authority ` {r \<in> set (db_includes d).
       \<exists>v. get_block g r = Some v \<and> support g a k v = Some x})"

definition certificate_evidence ::
  "committee \<Rightarrow> block_store \<Rightarrow> authority \<Rightarrow> round_number \<Rightarrow> stake \<Rightarrow> dag_block set \<Rightarrow> round_number \<Rightarrow> block_reference \<Rightarrow>
     stake \<Rightarrow> bool" where
  "certificate_evidence c g a k cq T r x m \<longleftrightarrow>
     unat m \<le> stake_of c (db_author ` {d \<in> T. db_round d = r \<and> certifies c g a k cq x d})"

definition strong_evidence ::
  "base_committer \<Rightarrow> block_store \<Rightarrow> authority \<Rightarrow> round_number \<Rightarrow> dag_block set \<Rightarrow> block_reference \<Rightarrow> stake \<Rightarrow> bool" where
  "strong_evidence bc g a k T x m \<longleftrightarrow>
     (let d = decision_round (bc_wave bc) (wave_number (bc_wave bc) k)
      in if wv_merged_certificates (bc_wave bc) then vote_evidence (bc_committee bc) g a k T d x m
         else certificate_evidence (bc_committee bc) g a k (bc_certificate_quorum bc) T d x m)"

definition weak_evidence ::
  "base_committer \<Rightarrow> block_store \<Rightarrow> authority \<Rightarrow> round_number \<Rightarrow> dag_block set \<Rightarrow> block_reference \<Rightarrow> stake \<Rightarrow> bool" where
  "weak_evidence bc g a k T x m \<longleftrightarrow>
     vote_evidence (bc_committee bc) g a k T (voting_round (bc_wave bc) (wave_number (bc_wave bc) k)) x m"

definition blame_evidence ::
  "base_committer \<Rightarrow> block_store \<Rightarrow> authority \<Rightarrow> round_number \<Rightarrow> dag_block set \<Rightarrow> stake \<Rightarrow> bool" where
  "blame_evidence bc g a k T m \<longleftrightarrow>
     unat m \<le> stake_of (bc_committee bc) (db_author ` {v \<in> T.
       db_round v = voting_round (bc_wave bc) (wave_number (bc_wave bc) k) \<and> support g a k v = None})"

section \<open>The decision functions read evidence\<close>

lemma is_vote_view:
  assumes "good_dag c q honest g" and "view g s" and "v \<in> set (bs_index s)"
  shows "is_vote s v leader = Some (support g (db_author leader) (db_round leader) v = Some (db_reference leader))"
  using find_support_view [OF assms] by (simp add: is_vote_def)

lemma aggregate_view:
  assumes G: "good_dag c q honest g" and s: "view g s" and m: "0 < unat m" and bs: "set bs \<subseteq> set (bs_index s)"
    and f: "\<And>b. b \<in> set bs \<Longrightarrow> f b = Some (P b)" and S: "{b \<in> set bs. P b} = S"
  shows "aggregate c f db_author (sa_new m) bs = Some (unat m \<le> stake_of c (db_author ` S))"
proof -
  have "{b \<in> set bs. f b = Some True} = S" using f S by auto
  moreover have "f b \<noteq> None \<and> (f b = Some True \<longrightarrow> db_author b < committee_len c)" if "b \<in> set bs" for b
    using f [OF that] good_dag_block(1) [OF G] viewD(1) [OF s] bs that by auto
  ultimately show ?thesis using aggregate_spec [OF good_dagD(1) [OF G] m, of bs f db_author] by simp
qed

lemma carries_certificate_view:
  assumes G: "good_dag (bc_committee bc) q honest g" and s: "view g s" and m: "0 < unat (bc_certificate_quorum bc)"
    and d: "d \<in> set (bs_index s)"
  shows "carries_certificate bc s d leader =
    Some (certifies (bc_committee bc) g (db_author leader) (db_round leader) (bc_certificate_quorum bc) (db_reference leader) d)"
proof -
  let ?sup = "\<lambda>v. support g (db_author leader) (db_round leader) v = Some (db_reference leader)"
  let ?f = "\<lambda>reference. Option.bind (get_block s reference) (\<lambda>vote. is_vote s vote leader)"
  have f: "\<exists>v. get_block g r = Some v \<and> ?f r = Some (?sup v)" if "r \<in> set (db_includes d)" for r
    using get_block_exists [OF G s viewD(2) [OF s d that]] is_vote_view [OF G s] by (metis bind.bind_lunit)
  have "{r \<in> set (db_includes d). ?f r = Some True} =
      {r \<in> set (db_includes d). \<exists>v. get_block g r = Some v \<and> ?sup v}" using f by fastforce
  moreover have "?f r \<noteq> None \<and> (?f r = Some True \<longrightarrow> br_authority r < committee_len (bc_committee bc))"
    if "r \<in> set (db_includes d)" for r
    using f [OF that] good_dag_block(2) [OF G viewD(1) [OF s d] that] by auto
  ultimately show ?thesis
    using aggregate_spec [OF good_dagD(1) [OF G] m, of "db_includes d" ?f br_authority]
    unfolding carries_certificate_def certifies_def by simp
qed

lemma set_blocks_by_round: "set (get_blocks_by_round s r) = {b \<in> set (bs_index s). db_round b = r}"
  by (simp add: get_blocks_by_round_def)

lemma set_blocks_at_authority_round:
  "set (get_blocks_at_authority_round s a r) = {b \<in> set (bs_index s). db_author b = a \<and> db_round b = r}"
  by (auto simp: get_blocks_at_authority_round_def get_blocks_by_round_def)

definition positive_rule :: "base_committer \<Rightarrow> bool" where
  "positive_rule bc \<longleftrightarrow> 0 < unat (bc_direct_commit_quorum bc) \<and> 0 < unat (bc_direct_skip_quorum bc) \<and>
     0 < unat (bc_certificate_quorum bc) \<and> 0 < unat (bc_anchor_link_size bc) \<and> 2 \<le> wv_length (bc_wave bc) \<and>
     (\<forall>fp. bc_fast_path bc = Some fp \<longrightarrow> 0 < unat (fp_commit_quorum fp) \<and> 0 < unat (fp_weak_indirect_quorum fp))"

lemma positive_ruleD:
  assumes "positive_rule bc"
  shows "0 < unat (bc_direct_commit_quorum bc)" and "0 < unat (bc_direct_skip_quorum bc)"
    and "0 < unat (bc_certificate_quorum bc)" and "0 < unat (bc_anchor_link_size bc)" and "2 \<le> wv_length (bc_wave bc)"
    and "bc_fast_path bc = Some fp \<Longrightarrow> 0 < unat (fp_commit_quorum fp)"
    and "bc_fast_path bc = Some fp \<Longrightarrow> 0 < unat (fp_weak_indirect_quorum fp)"
  using assms by (simp_all add: positive_rule_def)

lemma enough_leader_blame_view:
  assumes "good_dag (bc_committee bc) q honest g" and "view g s" and "positive_rule bc"
  shows "enough_leader_blame bc s (get_blocks_by_round s (voting_round (bc_wave bc) (wave_number (bc_wave bc) k))) a k =
    Some (blame_evidence bc g a k (set (bs_index s)) (bc_direct_skip_quorum bc))"
  unfolding enough_leader_blame_def blame_evidence_def
  by (rule aggregate_view [OF assms(1,2) positive_ruleD(2) [OF assms(3)], where P = "\<lambda>v. support g a k v = None"])
    (use find_support_view [OF assms(1,2)] in \<open>auto simp: set_blocks_by_round\<close>)

lemma enough_leader_support_view:
  assumes "good_dag (bc_committee bc) q honest g" and "view g s" and "positive_rule bc"
  shows "enough_leader_support bc s (decision_round (bc_wave bc) (wave_number (bc_wave bc) (db_round leader))) leader =
    Some (strong_evidence bc g (db_author leader) (db_round leader) (set (bs_index s)) (db_reference leader)
      (bc_direct_commit_quorum bc))"
proof (cases "wv_merged_certificates (bc_wave bc)")
  case True
  show ?thesis
    unfolding enough_leader_support_def strong_evidence_def vote_evidence_def is_certificate_def Let_def if_P [OF True]
    by (rule aggregate_view [OF assms(1,2) positive_ruleD(1) [OF assms(3)],
          where P = "\<lambda>v. support g (db_author leader) (db_round leader) v = Some (db_reference leader)"])
      (use is_vote_view [OF assms(1,2)] in \<open>auto simp: set_blocks_by_round\<close>)
next
  case False
  show ?thesis
    unfolding enough_leader_support_def strong_evidence_def certificate_evidence_def Let_def if_not_P [OF False]
    by (rule aggregate_view [OF assms(1,2) positive_ruleD(1) [OF assms(3)],
          where P = "certifies (bc_committee bc) g (db_author leader) (db_round leader) (bc_certificate_quorum bc) (db_reference leader)"])
      (use carries_certificate_view [OF assms(1,2) positive_ruleD(3) [OF assms(3)]] in \<open>auto simp: set_blocks_by_round\<close>)
qed

lemma enough_fast_path_support_view:
  assumes "good_dag (bc_committee bc) q honest g" and "view g s" and "positive_rule bc"
  shows "enough_fast_path_support bc s
      (get_blocks_by_round s (voting_round (bc_wave bc) (wave_number (bc_wave bc) (db_round leader)))) leader =
    Some (case bc_fast_path bc of None \<Rightarrow> False
          | Some fp \<Rightarrow> weak_evidence bc g (db_author leader) (db_round leader) (set (bs_index s)) (db_reference leader)
              (fp_commit_quorum fp))"
proof (cases "bc_fast_path bc")
  case (Some fp)
  show ?thesis
    unfolding enough_fast_path_support_def weak_evidence_def vote_evidence_def Some option.case
    by (rule aggregate_view [OF assms(1,2) positive_ruleD(6) [OF assms(3) Some],
          where P = "\<lambda>v. support g (db_author leader) (db_round leader) v = Some (db_reference leader)"])
      (use is_vote_view [OF assms(1,2)] in \<open>auto simp: set_blocks_by_round\<close>)
qed (simp add: enough_fast_path_support_def)

text \<open>Through an anchor, the evidence is read from the layers below the anchor, which every view has in full.\<close>

lemma layer_in_view:
  assumes "good_dag c q honest g" and "view g s" and "anchor \<in> set (bs_index s)" and "r \<le> db_round anchor"
  shows "layer g anchor r \<subseteq> set (bs_index s)"
  using layer_view [OF assms] by metis

lemma linked_blocks:
  assumes "good_dag c q honest g" and "view g s" and "anchor \<in> set (bs_index s)" and "r < db_round anchor"
  shows "{b \<in> set (bs_index s). db_round b = r \<and> linked s anchor b \<and> P b} = {b \<in> layer g anchor r. db_round b = r \<and> P b}"
  using linked_iff [OF assms(1-3)] layer_view [OF assms(1-3), of r] assms(4) by auto

lemma certified_link_view:
  assumes G: "good_dag (bc_committee bc) q honest g" and s: "view g s" and bc: "positive_rule bc"
    and A: "anchor \<in> set (bs_index s)"
    and d: "d = decision_round (bc_wave bc) (wave_number (bc_wave bc) (db_round leader))" "d < db_round anchor"
  shows "certified_link bc s anchor (get_blocks_by_round s d) leader =
    Some (strong_evidence bc g (db_author leader) (db_round leader) (layer g anchor d) (db_reference leader)
      (bc_anchor_link_size bc))"
proof (cases "wv_merged_certificates (bc_wave bc)")
  case True
  let ?P = "\<lambda>v. support g (db_author leader) (db_round leader) v = Some (db_reference leader)"
  show ?thesis
    unfolding certified_link_def strong_evidence_def vote_evidence_def is_certificate_def Let_def if_P [OF True] d(1) [symmetric]
      linked_blocks [OF G s A d(2), of ?P, symmetric]
    by (rule aggregate_view [OF G s positive_ruleD(4) [OF bc], where P = ?P])
      (use is_vote_view [OF G s] in \<open>auto simp: set_blocks_by_round\<close>)
next
  case False
  let ?P = "certifies (bc_committee bc) g (db_author leader) (db_round leader) (bc_certificate_quorum bc) (db_reference leader)"
  show ?thesis
    unfolding certified_link_def strong_evidence_def certificate_evidence_def Let_def if_not_P [OF False] d(1) [symmetric]
      linked_blocks [OF G s A d(2), of ?P, symmetric]
    by (rule aggregate_view [OF G s positive_ruleD(4) [OF bc], where P = "\<lambda>b. linked s anchor b \<and> ?P b"])
      (use carries_certificate_view [OF G s positive_ruleD(3) [OF bc]] in \<open>auto simp: set_blocks_by_round\<close>)
qed

lemma weak_link_view:
  assumes G: "good_dag (bc_committee bc) q honest g" and s: "view g s" and m: "0 < unat m"
    and A: "anchor \<in> set (bs_index s)"
    and v: "v = voting_round (bc_wave bc) (wave_number (bc_wave bc) (db_round leader))" "v < db_round anchor"
  shows "weak_link bc s anchor m (get_blocks_by_round s v) leader =
    Some (weak_evidence bc g (db_author leader) (db_round leader) (layer g anchor v) (db_reference leader) m)"
proof -
  let ?P = "\<lambda>v. support g (db_author leader) (db_round leader) v = Some (db_reference leader)"
  show ?thesis
    unfolding weak_link_def weak_evidence_def vote_evidence_def v(1) [symmetric] linked_blocks [OF G s A v(2), of ?P, symmetric]
    by (rule aggregate_view [OF G s m, where P = "\<lambda>b. linked s anchor b \<and> ?P b"])
      (use is_vote_view [OF G s] in \<open>auto simp: set_blocks_by_round\<close>)
qed

section \<open>The decision of an anchor\<close>

lemma filter_option_Some: "(\<And>x. x \<in> set xs \<Longrightarrow> f x = Some (P x)) \<Longrightarrow> filter_option f xs = Some (filter P xs)"
  by (induction xs) auto

lemma min_by_digest_None [simp]: "min_by_digest bs = None \<longleftrightarrow> bs = []"
  by (cases bs) (auto split: option.splits)

lemma min_by_digest_least:
  "min_by_digest bs = Some m \<Longrightarrow> m \<in> set bs \<and> (\<forall>b \<in> set bs. db_digest m \<le> db_digest b)"
proof (induction bs arbitrary: m)
  case (Cons b bs)
  show ?case
  proof (cases "min_by_digest bs")
    case None
    then show ?thesis using Cons.prems by simp
  next
    case (Some n)
    then show ?thesis using Cons.IH [OF Some] Cons.prems by (auto split: if_splits)
  qed
qed simp

lemma min_by_digest_cong:
  assumes "set xs = set ys" and "inj_on db_digest (set xs)"
  shows "min_by_digest xs = min_by_digest ys"
proof (cases "min_by_digest xs")
  case None
  then show ?thesis using assms(1) by auto
next
  case (Some m)
  then obtain n where n: "min_by_digest ys = Some n" using assms(1) by (cases "min_by_digest ys") auto
  have "db_digest m = db_digest n" "m \<in> set xs" "n \<in> set xs"
    using min_by_digest_least [OF Some] min_by_digest_least [OF n] assms(1) by (auto intro: antisym)
  then show ?thesis using assms(2) Some n by (simp add: inj_on_def)
qed

lemma vote_evidence_block:
  assumes G: "good_dag c q honest g" and s: "view g s" and m: "0 < unat m" and T: "T \<subseteq> set (bs_index s)"
    and e: "vote_evidence c g a k T r x m"
  shows "block_exists s x \<and> author_round x = (a, k)"
proof -
  obtain v where "v \<in> T" "support g a k v = Some x"
    using stake_of_voter [OF m e [unfolded vote_evidence_def]] by blast
  then show ?thesis using find_support_view [OF G s, of v a k] T by auto
qed

lemma certifies_block:
  assumes G: "good_dag c q honest g" and s: "view g s" and m: "0 < unat cq" and d: "d \<in> set (bs_index s)"
    and e: "certifies c g a k cq x d"
  shows "block_exists s x \<and> author_round x = (a, k)"
proof -
  obtain r v where r: "r \<in> set (db_includes d)" "get_block g r = Some v" "support g a k v = Some x"
    using stake_of_voter [OF m e [unfolded certifies_def]] by blast
  then have "v \<in> set (bs_index s)" using get_block_exists [OF G s viewD(2) [OF s d r(1)]] by auto
  then show ?thesis using find_support_view [OF G s, of v a k] r(3) by auto
qed

lemma certificate_evidence_block:
  assumes m: "0 < unat m" and e: "certificate_evidence c g a k cq T r x m"
  obtains d where "d \<in> T" and "db_round d = r" and "certifies c g a k cq x d"
  using stake_of_voter [OF m e [unfolded certificate_evidence_def]] by blast

lemma strong_evidence_block:
  assumes "good_dag (bc_committee bc) q honest g" and "view g s" and "positive_rule bc" and "0 < unat m"
    and "T \<subseteq> set (bs_index s)" and "strong_evidence bc g a k T x m"
  shows "block_exists s x \<and> author_round x = (a, k)"
proof (cases "wv_merged_certificates (bc_wave bc)")
  case True
  then show ?thesis using vote_evidence_block [OF assms(1,2,4,5)] assms(6) by (auto simp: strong_evidence_def Let_def)
next
  case False
  then obtain d where "d \<in> T" "certifies (bc_committee bc) g a k (bc_certificate_quorum bc) x d"
    using certificate_evidence_block [OF assms(4)] assms(6) unfolding strong_evidence_def Let_def by metis
  then show ?thesis using certifies_block [OF assms(1,2) positive_ruleD(3) [OF assms(3)]] assms(5) by blast
qed

definition leader_blocks_with :: "block_store \<Rightarrow> authority \<Rightarrow> round_number \<Rightarrow> (block_reference \<Rightarrow> bool) \<Rightarrow> dag_block list" where
  "leader_blocks_with s a k P = filter (\<lambda>b. P (db_reference b)) (get_blocks_at_authority_round s a k)"

lemma min_leader_view:
  assumes G: "good_dag c q honest g" and s: "view g s" and P: "\<And>x. P x \<Longrightarrow> block_exists s x"
  shows "min_by_digest (leader_blocks_with s a k P) = min_by_digest (leader_blocks_with g a k P)"
proof (rule min_by_digest_cong)
  have "b \<in> set (bs_index s)" if "b \<in> set (bs_index g)" "P (db_reference b)" for b
    using P [OF that(2)] good_dagD(4) [OF G _ that(1)] viewD(1) [OF s] by (auto simp: block_exists_iff)
  then show "set (leader_blocks_with s a k P) = set (leader_blocks_with g a k P)"
    using viewD(1) [OF s] by (auto simp: leader_blocks_with_def set_blocks_at_authority_round)
  show "inj_on db_digest (set (leader_blocks_with s a k P))"
  proof (rule inj_onI)
    fix x y assume xy: "x \<in> set (leader_blocks_with s a k P)" "y \<in> set (leader_blocks_with s a k P)" "db_digest x = db_digest y"
    then have "db_reference x = db_reference y"
      by (auto simp: leader_blocks_with_def set_blocks_at_authority_round intro: block_reference.equality)
    then show "x = y" using xy good_dagD(4) [OF G] viewD(1) [OF s]
      by (auto simp: leader_blocks_with_def set_blocks_at_authority_round)
  qed
qed

definition certified_at :: "base_committer \<Rightarrow> block_store \<Rightarrow> dag_block \<Rightarrow> authority \<Rightarrow> round_number \<Rightarrow> block_reference \<Rightarrow> bool" where
  "certified_at bc g anchor a k x \<longleftrightarrow>
     strong_evidence bc g a k (layer g anchor (decision_round (bc_wave bc) (wave_number (bc_wave bc) k))) x
       (bc_anchor_link_size bc)"

definition weakly_at ::
  "base_committer \<Rightarrow> block_store \<Rightarrow> fast_path \<Rightarrow> dag_block \<Rightarrow> authority \<Rightarrow> round_number \<Rightarrow> block_reference \<Rightarrow> bool" where
  "weakly_at bc g fp anchor a k x \<longleftrightarrow>
     weak_evidence bc g a k (layer g anchor (voting_round (bc_wave bc) (wave_number (bc_wave bc) k))) x
       (fp_weak_indirect_quorum fp)"

definition anchor_decision :: "base_committer \<Rightarrow> block_store \<Rightarrow> dag_block \<Rightarrow> authority \<Rightarrow> round_number \<Rightarrow> leader_status" where
  "anchor_decision bc g anchor a k =
     (case min_by_digest (leader_blocks_with g a k (certified_at bc g anchor a k)) of
        Some b \<Rightarrow> IndirectCommit b Certificate
      | None \<Rightarrow>
          (case bc_fast_path bc of
             None \<Rightarrow> IndirectSkip a k
           | Some fp \<Rightarrow>
               (case min_by_digest (leader_blocks_with g a k (weakly_at bc g fp anchor a k)) of
                  Some b \<Rightarrow> IndirectCommit b WeakQuorum
                | None \<Rightarrow> IndirectSkip a k)))"

lemma wave_rounds:
  assumes "is_leader_round (bc_wave bc) k" and "positive_rule bc"
  defines "n \<equiv> wave_number (bc_wave bc) k"
  shows "decision_round (bc_wave bc) n = k + wv_length (bc_wave bc) - 1"
    and "voting_round (bc_wave bc) n \<le> decision_round (bc_wave bc) n"
    and "decision_round (bc_wave bc) n \<le> Suc (voting_round (bc_wave bc) n)"
    and "wv_merged_certificates (bc_wave bc) \<Longrightarrow> voting_round (bc_wave bc) n = decision_round (bc_wave bc) n"
  using assms positive_ruleD(5) [OF assms(2)]
  by (auto simp: is_leader_round_def decision_round_def voting_round_def Let_def)

lemma decide_leader_from_anchor_view:
  assumes G: "good_dag (bc_committee bc) q honest g" and s: "view g s" and bc: "positive_rule bc" and k: "is_leader_round (bc_wave bc) k"
    and A: "anchor \<in> set (bs_index s)" "k + wv_length (bc_wave bc) \<le> db_round anchor"
  shows "decide_leader_from_anchor bc s anchor a k = Some (anchor_decision bc g anchor a k)"
proof -
  let ?d = "decision_round (bc_wave bc) (wave_number (bc_wave bc) k)"
  let ?v = "voting_round (bc_wave bc) (wave_number (bc_wave bc) k)"
  let ?bs = "get_blocks_at_authority_round s a k"
  have d: "?d < db_round anchor" and v: "?v < db_round anchor"
    using wave_rounds [OF k bc] positive_ruleD(5) [OF bc] A(2) by simp_all
  have sub: "layer g anchor ?d \<subseteq> set (bs_index s)" "layer g anchor ?v \<subseteq> set (bs_index s)"
    using layer_in_view [OF G s A(1)] d v by simp_all
  have 1: "filter_option (certified_link bc s anchor (get_blocks_by_round s ?d)) ?bs =
      Some (leader_blocks_with s a k (certified_at bc g anchor a k))"
    unfolding leader_blocks_with_def certified_at_def
    by (rule filter_option_Some)
      (use certified_link_view [OF G s bc A(1) _ d] in \<open>auto simp: set_blocks_at_authority_round\<close>)
  have 2: "filter_option (weak_link bc s anchor (fp_weak_indirect_quorum fp) (get_blocks_by_round s ?v)) ?bs =
      Some (leader_blocks_with s a k (weakly_at bc g fp anchor a k))" if "bc_fast_path bc = Some fp" for fp
    unfolding leader_blocks_with_def weakly_at_def
    by (rule filter_option_Some)
      (use weak_link_view [OF G s positive_ruleD(7) [OF bc that] A(1) _ v] in \<open>auto simp: set_blocks_at_authority_round\<close>)
  have 3: "min_by_digest (leader_blocks_with s a k (certified_at bc g anchor a k)) =
      min_by_digest (leader_blocks_with g a k (certified_at bc g anchor a k))"
    by (rule min_leader_view [OF G s])
      (use strong_evidence_block [OF G s bc positive_ruleD(4) [OF bc] sub(1)] in \<open>auto simp: certified_at_def\<close>)
  have 4: "min_by_digest (leader_blocks_with s a k (weakly_at bc g fp anchor a k)) =
      min_by_digest (leader_blocks_with g a k (weakly_at bc g fp anchor a k))" if "bc_fast_path bc = Some fp" for fp
    by (rule min_leader_view [OF G s])
      (use vote_evidence_block [OF G s positive_ruleD(7) [OF bc that] sub(2)] in
        \<open>auto simp: weakly_at_def weak_evidence_def\<close>)
  show ?thesis
    unfolding decide_leader_from_anchor_def anchor_decision_def Let_def 1
    using 2 3 4 by (simp split: option.split)
qed

section \<open>Conflicting evidence\<close>

definition voters :: "block_store \<Rightarrow> authority \<Rightarrow> round_number \<Rightarrow> round_number \<Rightarrow> block_reference \<Rightarrow> authority set" where
  "voters g a k r x = db_author ` {v \<in> set (bs_index g). db_round v \<le> r \<and> support g a k v = Some x}"

definition blamers :: "block_store \<Rightarrow> authority \<Rightarrow> round_number \<Rightarrow> round_number \<Rightarrow> authority set" where
  "blamers g a k r = db_author ` {v \<in> set (bs_index g). db_round v = r \<and> support g a k v = None}"

definition faulty_stake :: "committee \<Rightarrow> authority set \<Rightarrow> nat" where
  "faulty_stake c honest = stake_of c (everyone c - honest)"

abbreviation whole_stake :: "committee \<Rightarrow> nat" where
  "whole_stake c \<equiv> stake_of c (everyone c)"

lemma stake_of_clash:
  assumes "S \<inter> T \<inter> honest = {}"
  shows "stake_of c S + stake_of c T \<le> whole_stake c + faulty_stake c honest"
proof -
  have "stake_of c (S \<inter> T) = stake_of c (S \<inter> T \<inter> everyone c)" by (simp add: stake_of_def)
  also have "\<dots> \<le> faulty_stake c honest" unfolding faulty_stake_def by (rule stake_of_mono) (use assms in blast)
  finally show ?thesis using stake_of_inter [of c S T] by linarith
qed

lemma voters_iff:
  "b \<in> voters g a k r x \<longleftrightarrow>
     (\<exists>v \<in> set (bs_index g). db_author v = b \<and> db_round v \<le> r \<and> support g a k v = Some x)"
  by (auto simp: voters_def)

lemma blamers_iff:
  "b \<in> blamers g a k r \<longleftrightarrow> (\<exists>v \<in> set (bs_index g). db_author v = b \<and> db_round v = r \<and> support g a k v = None)"
  by (auto simp: blamers_def)

lemma voters_disjoint:
  assumes G: "good_dag c q honest g" and xy: "x \<noteq> y"
  shows "voters g a k r x \<inter> voters g a k r' y \<inter> honest = {}"
proof (intro equals0I)
  fix b assume "b \<in> voters g a k r x \<inter> voters g a k r' y \<inter> honest"
  then have b: "b \<in> honest" "b \<in> voters g a k r x" "b \<in> voters g a k r' y" by simp_all
  obtain v where v: "v \<in> set (bs_index g)" "db_author v = b" "support g a k v = Some x" using b(2) by (auto simp only: voters_iff)
  obtain w where w: "w \<in> set (bs_index g)" "db_author w = b" "support g a k w = Some y" using b(3) by (auto simp only: voters_iff)
  have h: "db_author v \<in> honest" "db_author w \<in> honest" using b(1) v(2) w(2) by simp_all
  have vw: "db_author w = db_author v" using v(2) w(2) by simp
  have "Some x = Some y"
  proof (cases "db_round v \<le> db_round w")
    case True
    show ?thesis using support_persists [OF G v(1) h(1) v(3) w(1) vw True] w(3) by (rule trans [OF sym])
  next
    case False
    then have "db_round w \<le> db_round v" by simp
    from support_persists [OF G w(1) h(2) w(3) v(1) vw [symmetric] this] v(3) show ?thesis by (rule trans [OF sym, THEN sym])
  qed
  then show False using xy by simp
qed

lemma blamers_disjoint:
  assumes G: "good_dag c q honest g"
  shows "voters g a k r x \<inter> blamers g a k r \<inter> honest = {}"
proof (intro equals0I)
  fix b assume "b \<in> voters g a k r x \<inter> blamers g a k r \<inter> honest"
  then have b: "b \<in> honest" "b \<in> voters g a k r x" "b \<in> blamers g a k r" by simp_all
  obtain v where v: "v \<in> set (bs_index g)" "db_author v = b" "db_round v \<le> r" "support g a k v = Some x"
    using b(2) by (auto simp only: voters_iff)
  obtain w where w: "w \<in> set (bs_index g)" "db_author w = b" "db_round w = r" "support g a k w = None"
    using b(3) by (auto simp only: blamers_iff)
  have h: "db_author v \<in> honest" using b(1) v(2) by simp
  have "support g a k w = Some x"
    by (rule support_persists [OF G v(1) h v(4) w(1)]) (use v w in simp_all)
  then show False using w(4) by simp
qed

lemma vote_evidence_voters:
  assumes "vote_evidence c g a k T r x m" and "T \<subseteq> set (bs_index g)" and "r \<le> r'"
  shows "unat m \<le> stake_of c (voters g a k r' x)"
  using assms(1) unfolding vote_evidence_def voters_def
  by (rule order_trans) (intro stake_of_mono image_mono, use assms(2,3) in blast)

lemma certifies_voters:
  assumes G: "good_dag c q honest g" and d: "d \<in> set (bs_index g)" "db_round d \<le> Suc r"
    and e: "certifies c g a k m x d"
  shows "unat m \<le> stake_of c (voters g a k r x)"
  using e unfolding certifies_def
proof (rule order_trans, intro stake_of_mono subsetI)
  fix b assume "b \<in> br_authority ` {r \<in> set (db_includes d). \<exists>v. get_block g r = Some v \<and> support g a k v = Some x}"
  then obtain i v where i: "b = br_authority i" "i \<in> set (db_includes d)" "get_block g i = Some v" "support g a k v = Some x"
    by blast
  then show "b \<in> voters g a k r x"
    using get_block_reference [OF i(3)] good_dag_block(2) [OF G d(1) i(2)] d(2) by (force simp: voters_def)
qed

text \<open>The stake that votes for a block with strong evidence of weight \<open>m\<close>.\<close>

definition backing :: "base_committer \<Rightarrow> stake \<Rightarrow> nat" where
  "backing bc m = (if wv_merged_certificates (bc_wave bc) then unat m else unat (bc_certificate_quorum bc))"

lemma strong_evidence_voters:
  assumes G: "good_dag (bc_committee bc) q honest g" and bc: "positive_rule bc" "is_leader_round (bc_wave bc) k"
    and m: "0 < unat m" and T: "T \<subseteq> set (bs_index g)" and e: "strong_evidence bc g a k T x m"
  shows "backing bc m \<le> stake_of (bc_committee bc) (voters g a k (voting_round (bc_wave bc) (wave_number (bc_wave bc) k)) x)"
proof (cases "wv_merged_certificates (bc_wave bc)")
  case True
  then show ?thesis
    using vote_evidence_voters [OF _ T] e wave_rounds(4) [OF bc(2,1)] by (simp add: strong_evidence_def backing_def Let_def)
next
  case False
  then obtain d where "d \<in> T" "db_round d = decision_round (bc_wave bc) (wave_number (bc_wave bc) k)"
      "certifies (bc_committee bc) g a k (bc_certificate_quorum bc) x d"
    using certificate_evidence_block [OF m] e unfolding strong_evidence_def Let_def by metis
  then show ?thesis
    using certifies_voters [OF G] wave_rounds(3) [OF bc(2,1)] T False by (auto simp: backing_def)
qed

lemma weak_evidence_voters:
  assumes "weak_evidence bc g a k T x m" and "T \<subseteq> set (bs_index g)"
  shows "unat m \<le> stake_of (bc_committee bc) (voters g a k (voting_round (bc_wave bc) (wave_number (bc_wave bc) k)) x)"
  using vote_evidence_voters assms by (simp add: weak_evidence_def)

lemma blame_evidence_blamers:
  assumes "blame_evidence bc g a k T m" and "T \<subseteq> set (bs_index g)"
  shows "unat m \<le> stake_of (bc_committee bc) (blamers g a k (voting_round (bc_wave bc) (wave_number (bc_wave bc) k)))"
  using assms(1) unfolding blame_evidence_def blamers_def
  by (rule order_trans) (intro stake_of_mono image_mono, use assms(2) in blast)

text \<open>A quorum of a round and the quorum of a layer below an anchor share honest authors, hence blocks.\<close>

lemma carry_to_layer:
  assumes G: "good_dag c q honest g" and S: "S \<subseteq> set (bs_index g)" and A: "anchor \<in> set (bs_index g)" "r < db_round anchor"
    and e: "unat m \<le> stake_of c (db_author ` {d \<in> S. db_round d = r \<and> P d})"
    and n: "whole_stake c + faulty_stake c honest + unat n \<le> unat m + unat q"
  shows "unat n \<le> stake_of c (db_author ` {d \<in> layer g anchor r. db_round d = r \<and> P d})"
proof -
  let ?E = "db_author ` {d \<in> S. db_round d = r \<and> P d}" and ?L = "db_author ` layer g anchor r"
  let ?R = "db_author ` {d \<in> layer g anchor r. db_round d = r \<and> P d}"
  have layer: "layer g anchor r \<subseteq> {b \<in> set (bs_index g). db_round b = r}" using layer_below [OF A(2), of g] by blast
  have "?E \<inter> ?L \<inter> honest \<subseteq> ?R"
  proof
    fix b assume "b \<in> ?E \<inter> ?L \<inter> honest"
    then obtain d l where d: "d \<in> S" "db_round d = r" "P d" "b = db_author d" and l: "l \<in> layer g anchor r" "b = db_author l"
        and h: "b \<in> honest" by blast
    then have "l = d" using good_dagD(5) [OF G, of d l] S layer by auto
    then show "b \<in> ?R" using d l by blast
  qed
  then have "(?E - ?R) \<inter> ?L \<inter> honest = {}" by blast
  from stake_of_clash [OF this, of c]
  have 1: "stake_of c (?E - ?R) + stake_of c ?L \<le> whole_stake c + faulty_stake c honest" .
  have "stake_of c ?E \<le> stake_of c ((?E - ?R) \<union> ?R)" by (rule stake_of_mono) blast
  also have "\<dots> = stake_of c (?E - ?R) + stake_of c ?R" by (rule stake_of_disjoint) blast
  finally show ?thesis using 1 e n layer_quorum [OF G A] by linarith
qed

section \<open>Safe quorums\<close>

text \<open>
  \<open>clock\<close> is the quorum every block includes of the round below it. Evidence for two blocks of one leader only
  conflicts when some authority is faulty, since an honest leader has one block per round.
\<close>

definition safe_rule :: "base_committer \<Rightarrow> stake \<Rightarrow> authority set \<Rightarrow> bool" where
  "safe_rule bc clock honest \<longleftrightarrow>
     (let m = whole_stake (bc_committee bc) + faulty_stake (bc_committee bc) honest;
          commit = unat (bc_direct_commit_quorum bc); skip = unat (bc_direct_skip_quorum bc);
          link = unat (bc_anchor_link_size bc);
          direct = backing bc (bc_direct_commit_quorum bc); indirect = backing bc (bc_anchor_link_size bc);
          faulty = 0 < faulty_stake (bc_committee bc) honest
      in positive_rule bc \<and> m < direct + skip \<and> m < indirect + skip \<and> m + link \<le> commit + unat clock \<and>
         (faulty \<longrightarrow> m < direct + direct \<and> m < direct + indirect) \<and>
         (\<forall>fp. bc_fast_path bc = Some fp \<longrightarrow>
            (let fast = unat (fp_commit_quorum fp); weak = unat (fp_weak_indirect_quorum fp)
             in m < fast + skip \<and> m < weak + skip \<and> m + weak \<le> fast + unat clock \<and>
                (faulty \<longrightarrow> m < fast + fast \<and> m < fast + direct \<and> m < fast + indirect \<and> m < fast + weak))))"

lemma safe_rule_positive: "safe_rule bc clock honest \<Longrightarrow> positive_rule bc"
  by (simp add: safe_rule_def Let_def)

definition direct_evidence ::
  "base_committer \<Rightarrow> block_store \<Rightarrow> authority \<Rightarrow> round_number \<Rightarrow> dag_block set \<Rightarrow> block_reference \<Rightarrow> bool" where
  "direct_evidence bc g a k S x \<longleftrightarrow>
     strong_evidence bc g a k S x (bc_direct_commit_quorum bc) \<or>
     (\<exists>fp. bc_fast_path bc = Some fp \<and> weak_evidence bc g a k S x (fp_commit_quorum fp))"

lemma two_leader_blocks:
  assumes G: "good_dag c q honest g" and x: "b \<in> set (bs_index g)" and y: "b' \<in> set (bs_index g)"
    and eq: "db_author b' = db_author b" "db_round b' = db_round b" and ne: "b' \<noteq> b"
  shows "0 < faulty_stake c honest"
proof -
  have "db_author b \<notin> honest" using good_dagD(5) [OF G x _ y eq] ne by blast
  then show ?thesis
    unfolding faulty_stake_def using good_dag_block(1) [OF G x] by (intro stake_of_positive [OF good_dagD(1) [OF G]]) auto
qed

lemma conflict:
  assumes G: "good_dag c q honest g" and x: "b \<in> set (bs_index g)" and y: "b' \<in> set (bs_index g)"
    and eq: "db_author b' = db_author b" "db_round b' = db_round b"
    and m: "m \<le> stake_of c (voters g a k r (db_reference b))" "m' \<le> stake_of c (voters g a k r (db_reference b'))"
    and safe: "0 < faulty_stake c honest \<longrightarrow> whole_stake c + faulty_stake c honest < m + m'"
  shows "b' = b"
proof (rule ccontr)
  assume ne: "b' \<noteq> b"
  then have "db_reference b \<noteq> db_reference b'" using good_dagD(4) [OF G x y] by auto
  from stake_of_clash [OF voters_disjoint [OF G this, of a k r r], of c]
  show False using two_leader_blocks [OF G x y eq ne] m safe by linarith
qed

lemma blame_conflict:
  assumes G: "good_dag c q honest g"
    and m: "m \<le> stake_of c (voters g a k r x)" "m' \<le> stake_of c (blamers g a k r)"
  shows "m + m' \<le> whole_stake c + faulty_stake c honest"
  using stake_of_clash [OF blamers_disjoint [OF G, of a k r x], of c] m by linarith

definition direct_weight :: "base_committer \<Rightarrow> nat \<Rightarrow> bool" where
  "direct_weight bc m \<longleftrightarrow> m = backing bc (bc_direct_commit_quorum bc) \<or>
     (\<exists>fp. bc_fast_path bc = Some fp \<and> m = unat (fp_commit_quorum fp))"

lemma safe_direct:
  assumes "safe_rule bc clock honest" and m: "direct_weight bc m"
  defines "n \<equiv> whole_stake (bc_committee bc) + faulty_stake (bc_committee bc) honest"
  shows "n < m + unat (bc_direct_skip_quorum bc)"
    and "0 < faulty_stake (bc_committee bc) honest \<longrightarrow> n < m + backing bc (bc_anchor_link_size bc)"
    and "direct_weight bc m' \<Longrightarrow> 0 < faulty_stake (bc_committee bc) honest \<longrightarrow> n < m + m'"
  using assms(1) m unfolding safe_rule_def Let_def direct_weight_def n_def
  by (auto simp: add.commute)

lemma safe_indirect:
  assumes "safe_rule bc clock honest"
  defines "n \<equiv> whole_stake (bc_committee bc) + faulty_stake (bc_committee bc) honest"
  shows "n < backing bc (bc_anchor_link_size bc) + unat (bc_direct_skip_quorum bc)"
    and "n + unat (bc_anchor_link_size bc) \<le> unat (bc_direct_commit_quorum bc) + unat clock"
  using assms(1) unfolding safe_rule_def Let_def n_def by simp_all

lemma safe_weak:
  assumes "safe_rule bc clock honest" and "bc_fast_path bc = Some fp"
  defines "n \<equiv> whole_stake (bc_committee bc) + faulty_stake (bc_committee bc) honest"
  shows "n < unat (fp_weak_indirect_quorum fp) + unat (bc_direct_skip_quorum bc)"
    and "n + unat (fp_weak_indirect_quorum fp) \<le> unat (fp_commit_quorum fp) + unat clock"
    and "0 < faulty_stake (bc_committee bc) honest \<longrightarrow> n < unat (fp_commit_quorum fp) + unat (fp_weak_indirect_quorum fp)"
  using assms(1,2) unfolding safe_rule_def Let_def n_def by simp_all

lemma direct_voters:
  assumes G: "good_dag (bc_committee bc) q honest g" and bc: "positive_rule bc" "is_leader_round (bc_wave bc) k"
    and S: "S \<subseteq> set (bs_index g)" and e: "direct_evidence bc g a k S x"
  obtains m where "direct_weight bc m"
    and "m \<le> stake_of (bc_committee bc) (voters g a k (voting_round (bc_wave bc) (wave_number (bc_wave bc) k)) x)"
  using e unfolding direct_evidence_def
proof (elim disjE exE conjE)
  assume "strong_evidence bc g a k S x (bc_direct_commit_quorum bc)"
  from strong_evidence_voters [OF G bc positive_ruleD(1) [OF bc(1)] S this] show ?thesis
    by (rule that [rotated]) (simp add: direct_weight_def)
next
  fix fp assume fp: "bc_fast_path bc = Some fp" and "weak_evidence bc g a k S x (fp_commit_quorum fp)"
  from weak_evidence_voters [OF this(2) S] show ?thesis by (rule that [rotated]) (simp add: direct_weight_def fp)
qed

lemma direct_agree:
  assumes G: "good_dag (bc_committee bc) q honest g" and bc: "safe_rule bc q honest" "is_leader_round (bc_wave bc) k"
    and b: "b \<in> set (bs_index g)" "b' \<in> set (bs_index g)" "db_author b' = db_author b" "db_round b' = db_round b"
    and S: "S \<subseteq> set (bs_index g)" "S' \<subseteq> set (bs_index g)"
    and e: "direct_evidence bc g a k S (db_reference b)" "direct_evidence bc g a k S' (db_reference b')"
  shows "b' = b"
proof -
  note pos = safe_rule_positive [OF bc(1)]
  obtain m where m: "direct_weight bc m" "m \<le> stake_of (bc_committee bc)
      (voters g a k (voting_round (bc_wave bc) (wave_number (bc_wave bc) k)) (db_reference b))"
    by (rule direct_voters [OF G pos bc(2) S(1) e(1)])
  obtain m' where m': "direct_weight bc m'" "m' \<le> stake_of (bc_committee bc)
      (voters g a k (voting_round (bc_wave bc) (wave_number (bc_wave bc) k)) (db_reference b'))"
    by (rule direct_voters [OF G pos bc(2) S(2) e(2)])
  show ?thesis by (rule conflict [OF G b m(2) m'(2) safe_direct(3) [OF bc(1) m(1) m'(1)]])
qed

lemma direct_blame:
  assumes G: "good_dag (bc_committee bc) q honest g" and bc: "safe_rule bc q honest" "is_leader_round (bc_wave bc) k"
    and S: "S \<subseteq> set (bs_index g)" "S' \<subseteq> set (bs_index g)"
    and e: "direct_evidence bc g a k S x" "blame_evidence bc g a k S' (bc_direct_skip_quorum bc)"
  shows False
proof -
  obtain m where m: "direct_weight bc m" "m \<le> stake_of (bc_committee bc)
      (voters g a k (voting_round (bc_wave bc) (wave_number (bc_wave bc) k)) x)"
    by (rule direct_voters [OF G safe_rule_positive [OF bc(1)] bc(2) S(1) e(1)])
  show False
    using blame_conflict [OF G m(2) blame_evidence_blamers [OF e(2) S(2)]] safe_direct(1) [OF bc(1) m(1)] by linarith
qed

section \<open>Direct decisions bind anchors\<close>

lemma layer_in_dag:
  assumes "good_dag c q honest g" and "anchor \<in> set (bs_index g)" and "r \<le> db_round anchor"
  shows "layer g anchor r \<subseteq> set (bs_index g)"
  by (rule layer_in_view [OF assms(1) good_dagD(3) [OF assms(1)] assms(2,3)])

lemma certified_voters:
  assumes G: "good_dag (bc_committee bc) q honest g" and bc: "positive_rule bc" "is_leader_round (bc_wave bc) k"
    and A: "anchor \<in> set (bs_index g)" "k + wv_length (bc_wave bc) \<le> db_round anchor"
    and e: "certified_at bc g anchor a k x"
  shows "backing bc (bc_anchor_link_size bc) \<le>
    stake_of (bc_committee bc) (voters g a k (voting_round (bc_wave bc) (wave_number (bc_wave bc) k)) x)"
  by (rule strong_evidence_voters [OF G bc positive_ruleD(4) [OF bc(1)] layer_in_dag [OF G A(1)] e [unfolded certified_at_def]])
    (use wave_rounds(1) [OF bc(2,1)] A(2) in simp)

lemma weakly_voters:
  assumes G: "good_dag (bc_committee bc) q honest g" and bc: "positive_rule bc" "is_leader_round (bc_wave bc) k"
    and A: "anchor \<in> set (bs_index g)" "k + wv_length (bc_wave bc) \<le> db_round anchor"
    and e: "weakly_at bc g fp anchor a k x"
  shows "unat (fp_weak_indirect_quorum fp) \<le>
    stake_of (bc_committee bc) (voters g a k (voting_round (bc_wave bc) (wave_number (bc_wave bc) k)) x)"
  by (rule weak_evidence_voters [OF e [unfolded weakly_at_def] layer_in_dag [OF G A(1)]])
    (use wave_rounds(1,2) [OF bc(2,1)] A(2) in simp)

lemma slow_carries:
  assumes G: "good_dag (bc_committee bc) q honest g" and bc: "safe_rule bc q honest" "is_leader_round (bc_wave bc) k"
    and A: "anchor \<in> set (bs_index g)" "k + wv_length (bc_wave bc) \<le> db_round anchor" and S: "S \<subseteq> set (bs_index g)"
    and e: "strong_evidence bc g a k S x (bc_direct_commit_quorum bc)"
  shows "certified_at bc g anchor a k x"
proof -
  have r: "decision_round (bc_wave bc) (wave_number (bc_wave bc) k) < db_round anchor"
    using wave_rounds(1) [OF bc(2) safe_rule_positive [OF bc(1)]] positive_ruleD(5) [OF safe_rule_positive [OF bc(1)]] A(2) by simp
  show ?thesis
    using e carry_to_layer [OF G S A(1) r _ safe_indirect(2) [OF bc(1)]]
    by (simp add: certified_at_def strong_evidence_def vote_evidence_def certificate_evidence_def Let_def split: if_splits)
qed

lemma fast_carries:
  assumes G: "good_dag (bc_committee bc) q honest g" and bc: "safe_rule bc q honest" "is_leader_round (bc_wave bc) k"
    and A: "anchor \<in> set (bs_index g)" "k + wv_length (bc_wave bc) \<le> db_round anchor" and S: "S \<subseteq> set (bs_index g)"
    and fp: "bc_fast_path bc = Some fp" and e: "weak_evidence bc g a k S x (fp_commit_quorum fp)"
  shows "weakly_at bc g fp anchor a k x"
proof -
  have r: "voting_round (bc_wave bc) (wave_number (bc_wave bc) k) < db_round anchor"
    using wave_rounds(1,2) [OF bc(2) safe_rule_positive [OF bc(1)]] positive_ruleD(5) [OF safe_rule_positive [OF bc(1)]] A(2) by simp
  show ?thesis
    using e carry_to_layer [OF G S A(1) r _ safe_weak(2) [OF bc(1) fp]]
    by (simp add: weakly_at_def weak_evidence_def vote_evidence_def)
qed

lemma leader_blocks_withD:
  "b \<in> set (leader_blocks_with s a k P) \<longleftrightarrow> b \<in> set (bs_index s) \<and> db_author b = a \<and> db_round b = k \<and> P (db_reference b)"
  by (auto simp: leader_blocks_with_def set_blocks_at_authority_round)

lemma min_leader_unique:
  assumes "b \<in> set (leader_blocks_with g a k P)" and "\<And>b'. b' \<in> set (leader_blocks_with g a k P) \<Longrightarrow> b' = b"
  shows "min_by_digest (leader_blocks_with g a k P) = Some b"
proof (cases "min_by_digest (leader_blocks_with g a k P)")
  case (Some m)
  then show ?thesis using min_by_digest_least [OF Some] assms(2) by auto
qed (use assms(1) in auto)

lemma anchor_after_direct:
  assumes G: "good_dag (bc_committee bc) q honest g" and bc: "safe_rule bc q honest" "is_leader_round (bc_wave bc) k"
    and A: "anchor \<in> set (bs_index g)" "k + wv_length (bc_wave bc) \<le> db_round anchor" and S: "S \<subseteq> set (bs_index g)"
    and b: "b \<in> set (bs_index g)" "db_author b = a" "db_round b = k" and e: "direct_evidence bc g a k S (db_reference b)"
  shows "into_decided_block (anchor_decision bc g anchor a k) = Some (Some b)"
proof -
  note pos = safe_rule_positive [OF bc(1)]
  obtain m where m: "direct_weight bc m" "m \<le> stake_of (bc_committee bc)
      (voters g a k (voting_round (bc_wave bc) (wave_number (bc_wave bc) k)) (db_reference b))"
    by (rule direct_voters [OF G pos bc(2) S e])
  let ?C = "leader_blocks_with g a k (certified_at bc g anchor a k)"
  have C: "b' = b" if "b' \<in> set ?C" for b'
  proof -
    have b': "b' \<in> set (bs_index g)" "db_author b' = db_author b" "db_round b' = db_round b"
        "certified_at bc g anchor a k (db_reference b')" using that b by (simp_all add: leader_blocks_withD)
    show ?thesis
      by (rule conflict [OF G b(1) b'(1-3) m(2) certified_voters [OF G pos bc(2) A b'(4)] safe_direct(2) [OF bc(1) m(1)]])
  qed
  show ?thesis
  proof (cases "?C = []")
    case False
    then obtain b' where "b' \<in> set ?C" using last_in_set by blast
    then have "b \<in> set ?C" using C [of b'] by simp
    from min_leader_unique [OF this C] show ?thesis by (simp add: anchor_decision_def)
  next
    case True
    then have "\<not> strong_evidence bc g a k S (db_reference b) (bc_direct_commit_quorum bc)"
      using slow_carries [OF G bc A S] leader_blocks_withD [of b g a k "certified_at bc g anchor a k"] b(2,3) b(1) by fastforce
    then obtain fp where fp: "bc_fast_path bc = Some fp" "weak_evidence bc g a k S (db_reference b) (fp_commit_quorum fp)"
      using e by (auto simp: direct_evidence_def)
    let ?W = "leader_blocks_with g a k (weakly_at bc g fp anchor a k)"
    have "b \<in> set ?W" using fast_carries [OF G bc A S fp] b by (simp add: leader_blocks_withD)
    moreover have "b' = b" if "b' \<in> set ?W" for b'
    proof -
      have b': "b' \<in> set (bs_index g)" "db_author b' = db_author b" "db_round b' = db_round b"
          "weakly_at bc g fp anchor a k (db_reference b')" using that b by (simp_all add: leader_blocks_withD)
      show ?thesis
        by (rule conflict [OF G b(1) b'(1-3) weak_evidence_voters [OF fp(2) S] weakly_voters [OF G pos bc(2) A b'(4)]
              safe_weak(3) [OF bc(1) fp(1)]])
    qed
    ultimately have "min_by_digest ?W = Some b" by (rule min_leader_unique)
    then show ?thesis using True fp(1) by (simp add: anchor_decision_def)
  qed
qed

lemma anchor_after_blame:
  assumes G: "good_dag (bc_committee bc) q honest g" and bc: "safe_rule bc q honest" "is_leader_round (bc_wave bc) k"
    and A: "anchor \<in> set (bs_index g)" "k + wv_length (bc_wave bc) \<le> db_round anchor" and S: "S \<subseteq> set (bs_index g)"
    and e: "blame_evidence bc g a k S (bc_direct_skip_quorum bc)"
  shows "anchor_decision bc g anchor a k = IndirectSkip a k"
proof -
  note pos = safe_rule_positive [OF bc(1)] and bl = blame_evidence_blamers [OF e S]
  have "\<not> certified_at bc g anchor a k x" for x
    using blame_conflict [OF G certified_voters [OF G pos bc(2) A, of a x] bl] safe_indirect(1) [OF bc(1)] by linarith
  moreover have "\<not> weakly_at bc g fp anchor a k x" if "bc_fast_path bc = Some fp" for fp x
    using blame_conflict [OF G weakly_voters [OF G pos bc(2) A, of fp a x] bl] safe_weak(1) [OF bc(1) that] by linarith
  ultimately show ?thesis by (simp add: anchor_decision_def leader_blocks_with_def split: option.split)
qed

lemma anchor_decision_block:
  assumes "into_decided_block (anchor_decision bc g anchor a k) = Some (Some b)"
  shows "b \<in> set (bs_index g) \<and> db_author b = a \<and> db_round b = k \<and>
    (certified_at bc g anchor a k (db_reference b) \<or>
     (\<exists>fp. bc_fast_path bc = Some fp \<and> weakly_at bc g fp anchor a k (db_reference b)))"
  using assms unfolding anchor_decision_def
  by (auto simp: leader_blocks_withD split: option.splits dest!: min_by_digest_least)

section \<open>Direct decisions\<close>

lemma supported_blocks_Some:
  "(\<And>b. b \<in> set bs \<Longrightarrow> fast b = Some (F b) \<and> slow b = Some (L b)) \<Longrightarrow>
    supported_blocks fast slow bs = Some (map (\<lambda>b. (b, if F b then Fast else Slow)) (filter (\<lambda>b. F b \<or> L b) bs))"
  by (induction bs) auto

lemma distinct_at_most_one:
  assumes "distinct xs" and one: "\<And>x y. x \<in> set xs \<Longrightarrow> y \<in> set xs \<Longrightarrow> y = x"
  shows "xs = [] \<or> (\<exists>x. xs = [x])"
proof (cases xs rule: remdups_adj.cases)
  case (3 x y zs)
  then have "y = x" using one [of x y] by simp
  then show ?thesis using assms(1) 3 by simp
qed simp_all

lemma try_direct_decide_view:
  assumes G: "good_dag (bc_committee bc) q honest g" and s: "view g s"
    and bc: "safe_rule bc q honest" "is_leader_round (bc_wave bc) k"
  obtains "try_direct_decide bc s a k = Some (DirectSkip a k)"
      and "blame_evidence bc g a k (set (bs_index s)) (bc_direct_skip_quorum bc)"
  | b path where "try_direct_decide bc s a k = Some (DirectCommit b path)" and "b \<in> set (bs_index s)"
      and "db_author b = a" and "db_round b = k" and "direct_evidence bc g a k (set (bs_index s)) (db_reference b)"
  | "try_direct_decide bc s a k = Some (Undecided a k)"
      and "\<forall>b \<in> set (bs_index s). db_author b = a \<and> db_round b = k \<longrightarrow>
        \<not> direct_evidence bc g a k (set (bs_index s)) (db_reference b)"
proof -
  note pos = safe_rule_positive [OF bc(1)]
  let ?E = "\<lambda>b. direct_evidence bc g a k (set (bs_index s)) (db_reference b)"
  let ?bs = "get_blocks_at_authority_round s a k"
  define F where "F b = (case bc_fast_path bc of None \<Rightarrow> False
      | Some fp \<Rightarrow> weak_evidence bc g a k (set (bs_index s)) (db_reference b) (fp_commit_quorum fp))" for b :: dag_block
  define L where "L b = strong_evidence bc g a k (set (bs_index s)) (db_reference b) (bc_direct_commit_quorum bc)" for b :: dag_block
  have FL: "(F b \<or> L b) = ?E b" for b by (auto simp: F_def L_def direct_evidence_def split: option.splits)
  have sb: "supported_blocks (enough_fast_path_support bc s (get_blocks_by_round s (voting_round (bc_wave bc) (wave_number (bc_wave bc) k))))
      (enough_leader_support bc s (decision_round (bc_wave bc) (wave_number (bc_wave bc) k))) ?bs =
      Some (map (\<lambda>b. (b, if F b then Fast else Slow)) (filter (\<lambda>b. F b \<or> L b) ?bs))"
    by (rule supported_blocks_Some)
      (use enough_fast_path_support_view [OF G s pos] enough_leader_support_view [OF G s pos] in
        \<open>auto simp: set_blocks_at_authority_round F_def L_def\<close>)
  have un: "b' = b" if "b \<in> set (filter ?E ?bs)" "b' \<in> set (filter ?E ?bs)" for b b'
    using direct_agree [OF G bc _ _ _ _ subsetI subsetI, of b b' "set (bs_index s)" "set (bs_index s)" a] that viewD(1) [OF s]
    by (auto simp: set_blocks_at_authority_round)
  have "distinct (filter ?E ?bs)"
    using s by (simp add: view_def get_blocks_at_authority_round_def get_blocks_by_round_def)
  from distinct_at_most_one [OF this un]
  consider (none) "filter ?E ?bs = []" | (one) b where "filter ?E ?bs = [b]" by blast
  note cases = this
  show thesis
  proof (cases "blame_evidence bc g a k (set (bs_index s)) (bc_direct_skip_quorum bc)")
    case True
    show thesis by (rule that(1)) (simp_all add: try_direct_decide_def Let_def enough_leader_blame_view [OF G s pos] True)
  next
    case False
    note eval = try_direct_decide_def Let_def enough_leader_blame_view [OF G s pos] False sb FL
    show thesis using cases
    proof cases
      case none
      then have "\<forall>b \<in> set ?bs. \<not> ?E b" by (simp add: filter_empty_conv)
      then show thesis by (intro that(3)) (simp_all add: eval none set_blocks_at_authority_round)
    next
      case (one b)
      then have "b \<in> set (filter ?E ?bs)" by simp
      then have b: "b \<in> set (bs_index s)" "db_author b = a" "db_round b = k" "?E b"
        by (simp_all add: set_blocks_at_authority_round)
      have "try_direct_decide bc s a k = Some (DirectCommit b (if F b then Fast else Slow))" by (simp add: eval one)
      from that(2) [OF this b] show thesis .
    qed
  qed
qed

end
