(* ===== verification/Agreement.thy ===== *)
theory Agreement
  imports Decisions "HOL-Library.Sublist"
begin

text \<open>
  Agreement of the committer: two validators that run it on views of one DAG decide the same leaders in the same
  order, as far as both have decided.
\<close>

section \<open>Two views decide one slot\<close>

definition compatible :: "leader_status \<Rightarrow> leader_status \<Rightarrow> bool" where
  "compatible x y \<longleftrightarrow> ls_round x = ls_round y \<and> ls_authority x = ls_authority y \<and>
     (into_decided_block x = None \<or> into_decided_block y = None \<or> into_decided_block x = into_decided_block y)"

definition status_in :: "block_store \<Rightarrow> leader_status \<Rightarrow> bool" where
  "status_in s x \<longleftrightarrow> (\<forall>b. into_decided_block x = Some (Some b) \<longrightarrow> b \<in> set (bs_index s))"

lemma decided_slot: "into_decided_block x = Some (Some b) \<Longrightarrow> ls_round x = db_round b \<and> ls_authority x = db_author b"
  by (cases x) auto

lemma is_decided_iff: "is_decided x \<longleftrightarrow> into_decided_block x \<noteq> None"
  by (cases x) auto

fun find_anchor :: "base_committer \<Rightarrow> round_number \<Rightarrow> leader_status list \<Rightarrow> dag_block option" where
  "find_anchor bc k [] = None"
| "find_anchor bc k (x # leaders) =
     (if \<not> k + wv_length (bc_wave bc) \<le> ls_round x then find_anchor bc k leaders
      else case into_decided_block x of
             None \<Rightarrow> None
           | Some None \<Rightarrow> find_anchor bc k leaders
           | Some (Some anchor) \<Rightarrow> Some anchor)"

lemma try_indirect_decide_anchor:
  "try_indirect_decide bc s a k leaders =
     (case find_anchor bc k leaders of
        None \<Rightarrow> Some (Undecided a k)
      | Some anchor \<Rightarrow> decide_leader_from_anchor bc s anchor a k)"
proof (induction leaders)
  case (Cons x leaders)
  then show ?case by (cases x) simp_all
qed simp

lemma find_anchor_in:
  "find_anchor bc k leaders = Some anchor \<Longrightarrow> \<forall>x \<in> set leaders. status_in s x \<Longrightarrow>
    anchor \<in> set (bs_index s) \<and> k + wv_length (bc_wave bc) \<le> db_round anchor"
proof (induction leaders)
  case (Cons x leaders)
  then show ?case
    by (auto simp: status_in_def split: if_splits option.splits dest: decided_slot)
qed simp

lemma find_anchor_agree:
  assumes "\<forall>(x, y) \<in> set (zip xs ys). compatible x y"
    and "find_anchor bc k xs = Some anchor" and "find_anchor bc k ys = Some anchor'"
  shows "anchor' = anchor"
  using assms
proof (induction xs ys rule: list_induct2')
  case (4 x xs y ys)
  then show ?case by (auto simp: compatible_def split: if_splits option.splits)
qed simp_all

definition slot_status ::
  "base_committer \<Rightarrow> block_store \<Rightarrow> authority \<Rightarrow> round_number \<Rightarrow> leader_status list \<Rightarrow> leader_status option" where
  "slot_status bc s a k leaders =
     Option.bind (try_direct_decide bc s a k) (\<lambda>status.
       if is_decided status then Some status else try_indirect_decide bc s a k leaders)"

text \<open>The four ways a slot gets its status.\<close>

inductive decision ::
  "base_committer \<Rightarrow> block_store \<Rightarrow> block_store \<Rightarrow> authority \<Rightarrow> round_number \<Rightarrow> dag_block option \<Rightarrow> leader_status \<Rightarrow> bool"
  for bc g s a k anchor where
  undecided: "decision bc g s a k anchor (Undecided a k)"
| blamed: "blame_evidence bc g a k (set (bs_index s)) (bc_direct_skip_quorum bc) \<Longrightarrow>
    decision bc g s a k anchor (DirectSkip a k)"
| supported: "\<lbrakk>b \<in> set (bs_index s); db_author b = a; db_round b = k;
    direct_evidence bc g a k (set (bs_index s)) (db_reference b)\<rbrakk> \<Longrightarrow> decision bc g s a k anchor (DirectCommit b path)"
| anchored: "anchor = Some x \<Longrightarrow> decision bc g s a k anchor (anchor_decision bc g x a k)"

lemma slot_status_decision:
  assumes G: "good_dag (bc_committee bc) q honest g" and s: "view g s"
    and bc: "safe_rule bc q honest" "is_leader_round (bc_wave bc) k" and l: "\<forall>x \<in> set leaders. status_in s x"
  obtains x where "slot_status bc s a k leaders = Some x" and "decision bc g s a k (find_anchor bc k leaders) x"
proof (cases rule: try_direct_decide_view [OF G s bc, of a])
  case 1
  show ?thesis by (rule that [of "DirectSkip a k"]) (simp_all add: slot_status_def 1 decision.intros)
next
  case (2 b path)
  show ?thesis by (rule that [of "DirectCommit b path"]) (use 2 in \<open>auto simp: slot_status_def intro: decision.intros\<close>)
next
  case 3
  show ?thesis
  proof (cases "find_anchor bc k leaders")
    case None
    show ?thesis
      by (rule that [of "Undecided a k"]) (simp_all add: slot_status_def 3 try_indirect_decide_anchor None decision.intros)
  next
    case (Some anchor)
    note A = find_anchor_in [OF Some l]
    show ?thesis
      by (rule that [of "anchor_decision bc g anchor a k"])
        (use decide_leader_from_anchor_view [OF G s safe_rule_positive [OF bc(1)] bc(2)] A Some in
          \<open>simp_all add: slot_status_def 3 try_indirect_decide_anchor decision.intros\<close>)
  qed
qed

lemma anchor_decision_slot: "ls_round (anchor_decision bc g x a k) = k" "ls_authority (anchor_decision bc g x a k) = a"
  by (auto simp: anchor_decision_def leader_blocks_withD split: option.split dest!: min_by_digest_least)

lemma decision_slot: "decision bc g s a k anchor x \<Longrightarrow> ls_round x = k \<and> ls_authority x = a"
  by (induction rule: decision.induct) (auto simp: anchor_decision_slot)

lemma decision_in:
  assumes G: "good_dag (bc_committee bc) q honest g" and s: "view g s"
    and bc: "safe_rule bc q honest" "is_leader_round (bc_wave bc) k" and l: "\<forall>x \<in> set leaders. status_in s x"
    and d: "decision bc g s a k (find_anchor bc k leaders) x"
  shows "status_in s x"
  using d
proof cases
  case (anchored anchor)
  note pos = safe_rule_positive [OF bc(1)] and A = find_anchor_in [OF anchored(2) l]
  have r: "voting_round (bc_wave bc) (wave_number (bc_wave bc) k) \<le> db_round anchor"
      "decision_round (bc_wave bc) (wave_number (bc_wave bc) k) \<le> db_round anchor"
    using wave_rounds(1,2) [OF bc(2) pos] conjunct2 [OF A] by linarith+
  have "b \<in> set (bs_index s)" if "into_decided_block x = Some (Some b)" for b
  proof -
    note D = anchor_decision_block [OF that [unfolded anchored(1)]]
    then have "block_exists s (db_reference b)"
      using strong_evidence_block [OF G s pos positive_ruleD(4) [OF pos] layer_in_view [OF G s conjunct1 [OF A] r(2)]]
        vote_evidence_block [OF G s positive_ruleD(7) [OF pos] layer_in_view [OF G s conjunct1 [OF A] r(1)]]
      unfolding certified_at_def weakly_at_def weak_evidence_def by blast
    then show ?thesis using good_dagD(4) [OF G _ conjunct1 [OF D]] viewD(1) [OF s] by (auto simp: block_exists_iff)
  qed
  then show ?thesis by (simp add: status_in_def)
qed (auto simp: status_in_def)

lemma decision_agree:
  assumes G: "good_dag (bc_committee bc) q honest g" and s: "view g s" and t: "view g t"
    and bc: "safe_rule bc q honest" "is_leader_round (bc_wave bc) k"
    and A: "\<And>x. anchor = Some x \<or> anchor' = Some x \<Longrightarrow> x \<in> set (bs_index g) \<and> k + wv_length (bc_wave bc) \<le> db_round x"
    and same: "\<And>x y. anchor = Some x \<Longrightarrow> anchor' = Some y \<Longrightarrow> y = x"
    and d: "decision bc g s a k anchor x" "decision bc g t a k anchor' y"
  shows "compatible x y"
proof -
  have S: "set (bs_index s) \<subseteq> set (bs_index g)" "set (bs_index t) \<subseteq> set (bs_index g)" using s t by (simp_all add: view_def)
  have "into_decided_block x = None \<or> into_decided_block y = None \<or> into_decided_block x = into_decided_block y"
    using d(1)
  proof cases
    case undecided
    then show ?thesis by simp
  next
    case blamed
    from d(2) show ?thesis
    proof cases
      case (supported b path)
      then show ?thesis using direct_blame [OF G bc S(2,1) _ blamed(2)] by blast
    next
      case (anchored A')
      then show ?thesis using anchor_after_blame [OF G bc _ _ S(1) blamed(2)] A blamed(1) by simp
    qed (simp_all add: blamed)
  next
    case (supported b path)
    note b = subsetD [OF S(1) supported(2)] supported(3-5)
    from d(2) show ?thesis
    proof cases
      case blamed
      then show ?thesis using direct_blame [OF G bc S b(4)] by blast
    next
      case sup: (supported b' path')
      have "b' = b" by (rule direct_agree [OF G bc b(1) subsetD [OF S(2) sup(2)] _ _ S b(4) sup(5)]) (use sup b in simp_all)
      then show ?thesis using sup(1) supported(1) by simp
    next
      case (anchored A')
      then show ?thesis using anchor_after_direct [OF G bc _ _ S(1) b] A supported(1) by simp
    qed simp
  next
    case (anchored A1)
    note A1 = anchored
    from d(2) show ?thesis
    proof cases
      case blamed
      then show ?thesis using anchor_after_blame [OF G bc _ _ S(2)] A A1 by simp
    next
      case (supported b path)
      then show ?thesis using anchor_after_direct [OF G bc _ _ S(2) subsetD [OF S(2) supported(2)] supported(3-5)] A A1 by simp
    next
      case (anchored A2)
      then show ?thesis using same [OF A1(2) anchored(2)] A1(1) by simp
    qed simp
  qed
  then show ?thesis using decision_slot [OF d(1)] decision_slot [OF d(2)] by (simp add: compatible_def)
qed

section \<open>Two views decide the same sequence\<close>

definition pair_ok :: "block_store \<Rightarrow> block_store \<Rightarrow> leader_status list \<Rightarrow> leader_status list \<Rightarrow> bool" where
  "pair_ok s t xs ys \<longleftrightarrow> (\<forall>(x, y) \<in> set (zip xs ys). compatible x y) \<and>
     (\<forall>x \<in> set xs. status_in s x) \<and> (\<forall>y \<in> set ys. status_in t y)"

definition safe_committers :: "committee \<Rightarrow> stake \<Rightarrow> authority set \<Rightarrow> base_committer list \<Rightarrow> bool" where
  "safe_committers c q honest bcs \<longleftrightarrow> (\<forall>bc \<in> set bcs. bc_committee bc = c \<and> safe_rule bc q honest)"

lemma decide_slots_Cons:
  "decide_slots s k (bc # bcs) leaders =
     (case elect_leader bc k of
        None \<Rightarrow> decide_slots s k bcs leaders
      | Some a \<Rightarrow> Option.bind (slot_status bc s a k leaders) (\<lambda>x. decide_slots s k bcs (x # leaders)))"
  by (simp add: slot_status_def split: option.split)

lemma elect_leader_round: "elect_leader bc k = Some a \<Longrightarrow> is_leader_round (bc_wave bc) k"
  by (simp add: elect_leader_def split: if_splits)

lemma slot_agree:
  assumes G: "good_dag (bc_committee bc) q honest g" and s: "view g s" and t: "view g t"
    and bc: "safe_rule bc q honest" "is_leader_round (bc_wave bc) k" and p: "pair_ok s t xs ys"
  obtains x y where "slot_status bc s a k xs = Some x" and "slot_status bc t a k ys = Some y" and "pair_ok s t (x # xs) (y # ys)"
proof -
  have in_s: "\<forall>x \<in> set xs. status_in s x" and in_t: "\<forall>y \<in> set ys. status_in t y" using p by (simp_all add: pair_ok_def)
  obtain x where x: "slot_status bc s a k xs = Some x" "decision bc g s a k (find_anchor bc k xs) x"
    by (rule slot_status_decision [OF G s bc in_s])
  obtain y where y: "slot_status bc t a k ys = Some y" "decision bc g t a k (find_anchor bc k ys) y"
    by (rule slot_status_decision [OF G t bc in_t])
  have "compatible x y"
  proof (rule decision_agree [OF G s t bc _ _ x(2) y(2)])
    show "A \<in> set (bs_index g) \<and> k + wv_length (bc_wave bc) \<le> db_round A"
      if "find_anchor bc k xs = Some A \<or> find_anchor bc k ys = Some A" for A
      using that find_anchor_in [OF _ in_s] find_anchor_in [OF _ in_t] viewD(1) [OF s] viewD(1) [OF t] by blast
    show "B = A" if "find_anchor bc k xs = Some A" "find_anchor bc k ys = Some B" for A B
      using find_anchor_agree [OF _ that] p by (simp add: pair_ok_def)
  qed
  then have "pair_ok s t (x # xs) (y # ys)"
    using p decision_in [OF G s bc in_s x(2)] decision_in [OF G t bc in_t y(2)] by (simp add: pair_ok_def)
  from that [OF x(1) y(1) this] show thesis .
qed

lemma decide_slots_agree:
  assumes G: "good_dag c q honest g" and s: "view g s" and t: "view g t"
  shows "\<lbrakk>safe_committers c q honest bcs; pair_ok s t xs ys\<rbrakk> \<Longrightarrow>
    \<exists>xs' ys'. decide_slots s k bcs xs = Some xs' \<and> decide_slots t k bcs ys = Some ys' \<and> pair_ok s t xs' ys'"
proof (induction bcs arbitrary: xs ys)
  case (Cons bc bcs)
  then have rest: "safe_committers c q honest bcs" and bc: "safe_rule bc q honest" "bc_committee bc = c"
    by (simp_all add: safe_committers_def)
  show ?case
  proof (cases "elect_leader bc k")
    case None
    show ?thesis unfolding decide_slots_Cons None option.case by (rule Cons.IH [OF rest Cons.prems(2)])
  next
    case (Some a)
    obtain x y where xy: "slot_status bc s a k xs = Some x" "slot_status bc t a k ys = Some y" "pair_ok s t (x # xs) (y # ys)"
      by (rule slot_agree [OF G [folded bc(2)] s t bc(1) elect_leader_round [OF Some] Cons.prems(2)])
    show ?thesis unfolding decide_slots_Cons Some option.case xy(1,2) bind.bind_lunit by (rule Cons.IH [OF rest xy(3)])
  qed
qed simp

lemma decide_rounds_agree:
  assumes G: "good_dag c q honest g" and s: "view g s" and t: "view g t" and bcs: "safe_committers c q honest bcs"
  shows "pair_ok s t xs ys \<Longrightarrow>
    \<exists>xs' ys'. decide_rounds s bcs ks xs = Some xs' \<and> decide_rounds t bcs ks ys = Some ys' \<and> pair_ok s t xs' ys'"
proof (induction ks arbitrary: xs ys)
  case (Cons k ks)
  have "safe_committers c q honest (rev bcs)" using bcs by (simp add: safe_committers_def)
  from decide_slots_agree [OF G s t this Cons.prems, of k] obtain xs1 ys1
    where 1: "decide_slots s k (rev bcs) xs = Some xs1" "decide_slots t k (rev bcs) ys = Some ys1" "pair_ok s t xs1 ys1" by blast
  show ?case unfolding decide_rounds.simps 1(1,2) bind.bind_lunit by (rule Cons.IH [OF 1(3)])
qed simp

lemma decide_rounds_append:
  "decide_rounds s bcs (ks @ ks') xs = Option.bind (decide_rounds s bcs ks xs) (decide_rounds s bcs ks')"
  by (induction ks arbitrary: xs) (auto simp: bind_assoc split: bind_split)

lemma decide_all_agree:
  assumes G: "good_dag c q honest g" and s: "view g s" and t: "view g t" and bcs: "safe_committers c q honest bcs"
    and h: "bs_highest_round s \<le> bs_highest_round t"
  shows "\<exists>xs ys. decide_rounds s bcs (rev [0..<Suc (bs_highest_round s)]) [] = Some xs \<and>
    decide_rounds t bcs (rev [0..<Suc (bs_highest_round t)]) [] = Some ys \<and> pair_ok s t xs ys"
proof -
  have ks: "rev [0..<Suc (bs_highest_round t)] =
      rev [Suc (bs_highest_round s)..<Suc (bs_highest_round t)] @ rev [0..<Suc (bs_highest_round s)]"
    using upt_add_eq_append [of 0 "Suc (bs_highest_round s)" "bs_highest_round t - bs_highest_round s"] h
    by (simp del: upt_Suc flip: rev_append)
  obtain zs where zs: "decide_rounds t bcs (rev [Suc (bs_highest_round s)..<Suc (bs_highest_round t)]) [] = Some zs"
      "pair_ok t t zs zs"
    using decide_rounds_agree [OF G t t bcs, of "[]" "[]" "rev [Suc (bs_highest_round s)..<Suc (bs_highest_round t)]"]
    by (auto simp: pair_ok_def)
  have "pair_ok s t [] zs" using zs(2) by (simp add: pair_ok_def)
  from decide_rounds_agree [OF G s t bcs this] show ?thesis unfolding ks decide_rounds_append zs(1) bind.bind_lunit .
qed

text \<open>What a validator outputs for a decided leader: its slot and the committed block, if any.\<close>

definition outcome :: "leader_status \<Rightarrow> round_number \<times> authority \<times> dag_block option option" where
  "outcome x = (ls_round x, ls_authority x, into_decided_block x)"

definition comparable :: "'a list \<Rightarrow> 'a list \<Rightarrow> bool" where
  "comparable xs ys \<longleftrightarrow> prefix xs ys \<or> prefix ys xs"

lemma comparable_sym: "comparable xs ys \<Longrightarrow> comparable ys xs"
  by (auto simp: comparable_def)

lemma comparable_map_filter: "comparable (map f xs) (map f ys) \<Longrightarrow> comparable (List.map_filter (g \<circ> f) xs) (List.map_filter (g \<circ> f) ys)"
proof -
  have "List.map_filter (g \<circ> f) zs = List.map_filter g (map f zs)" for zs
    by (induction zs) (auto simp: List.map_filter_simps split: option.split)
  moreover have "prefix (List.map_filter g as) (List.map_filter g bs)" if "prefix as bs" for as bs
    using that by (auto simp: prefix_def List.map_filter_def)
  ultimately show "comparable (map f xs) (map f ys) \<Longrightarrow> comparable (List.map_filter (g \<circ> f) xs) (List.map_filter (g \<circ> f) ys)"
    by (auto simp: comparable_def)
qed

lemma compatible_filter:
  "\<forall>(x, y) \<in> set (zip xs ys). compatible x y \<Longrightarrow>
    \<forall>(x, y) \<in> set (zip (filter (\<lambda>x. P (ls_round x)) xs) (filter (\<lambda>x. P (ls_round x)) ys)). compatible x y"
  by (induction xs ys rule: list_induct2') (auto simp: compatible_def)

lemma compatible_comparable:
  "\<forall>(x, y) \<in> set (zip xs ys). compatible x y \<Longrightarrow>
    comparable (map outcome (takeWhile is_decided xs)) (map outcome (takeWhile is_decided ys))"
proof (induction xs ys rule: list_induct2')
  case (4 x xs y ys)
  then show ?case by (auto simp: compatible_def comparable_def outcome_def is_decided_iff)
qed (simp_all add: comparable_def)

lemma try_commit_agree:
  assumes G: "good_dag c q honest g" and s: "view g s" and t: "view g t"
    and co: "safe_committers c q honest (co_base_committers co)"
  shows "\<exists>xs ys. committer_try_commit co s None = Some xs \<and> committer_try_commit co t None = Some ys \<and>
    comparable (map outcome xs) (map outcome ys)"
proof -
  have le: "\<exists>xs ys. committer_try_commit co s None = Some xs \<and> committer_try_commit co t None = Some ys \<and>
      comparable (map outcome xs) (map outcome ys)"
    if "view g s" "view g t" "bs_highest_round s \<le> bs_highest_round t" for s t
  proof -
    note le = decide_all_agree [OF G that(1,2) co that(3)]
    obtain xs ys where "decide_rounds s (co_base_committers co) (rev [0..<Suc (bs_highest_round s)]) [] = Some xs"
        "decide_rounds t (co_base_committers co) (rev [0..<Suc (bs_highest_round t)]) [] = Some ys" "pair_ok s t xs ys"
      using le by blast
    then show ?thesis
      using compatible_comparable [OF compatible_filter, of xs ys "\<lambda>r. 0 < r"]
      by (simp add: committer_try_commit_def pair_ok_def del: upt_Suc)
  qed
  show ?thesis
  proof (cases "bs_highest_round s \<le> bs_highest_round t")
    case True
    then show ?thesis by (rule le [OF s t])
  next
    case False
    then show ?thesis using le [OF t s] comparable_sym by force
  qed
qed

end
