(* ===== verification/Protocols.thy ===== *)
theory Protocols
  imports Agreement
begin

lemma unat_quorum:
  fixes t :: u64
  assumes "unat m * unat t < 2 ^ 64" and "1 < unat d"  and "0 < unat m * unat t"
  shows "unat (m * t div d + 1) = unat m * unat t div unat d + 1"
proof -
  have 1: "unat (m * t div d) = unat m * unat t div unat d"
    using assms(1) by (simp add: unat_div_distrib unat_mult_no_wrap)
  have "unat m * unat t div unat d < unat m * unat t" using assms(2,3) by simp
  then have "unat (m * t div d) + unat (1 :: u64) < 2 ^ LENGTH(64)" using assms(1) 1 by simp
  from unat_add_no_wrap [OF this] show ?thesis using 1 by simp
qed

lemma unat_quorum_2_3: "unat (t :: u64) < 2 ^ 63 \<Longrightarrow> 0 < unat t \<Longrightarrow> unat (2 * t div 3 + 1) = 2 * unat t div 3 + 1"
  using unat_quorum [of 2 t 3] by simp

lemma unat_quorum_4_5: "unat (t :: u64) < 2 ^ 62 \<Longrightarrow> 0 < unat t \<Longrightarrow> unat (4 * t div 5 + 1) = 4 * unat t div 5 + 1"
  using unat_quorum [of 4 t 5] by simp

lemma unat_quorum_2_5: "unat (t :: u64) < 2 ^ 62 \<Longrightarrow> 0 < unat t \<Longrightarrow> unat (2 * t div 5 + 1) = 2 * unat t div 5 + 1"
  using unat_quorum [of 2 t 5] by simp

lemma unat_quorum_1_2: "0 < unat (t :: u64) \<Longrightarrow> unat (t div 2 + 1) = unat t div 2 + 1"
  using unat_quorum [of 1 t 2] unat_lt_size [of t] by simp

definition safe_protocol :: "committee \<Rightarrow> authority set \<Rightarrow> protocol \<Rightarrow> bool" where
  "safe_protocol cm honest p \<longleftrightarrow> 0 < unat (pr_quorum_threshold p) \<and>
     (\<forall>leader_offset round_offset.
        safe_rule (base_committer_new cm p leader_offset round_offset) (pr_quorum_threshold p) honest)"

lemma safe_protocol_committers:
  "safe_protocol cm honest p \<Longrightarrow>
    safe_committers cm (pr_quorum_threshold p) honest (co_base_committers (committer_new cm p))"
  by (auto simp: safe_protocol_def safe_committers_def committer_new_def base_committer_new_def)

lemmas safe_protocol_defs =
  safe_protocol_def safe_rule_def positive_rule_def backing_def base_committer_new_def Let_def

lemma whole_stake_total:
  assumes "committee_ok cm"
  shows "whole_stake cm = unat (cm_total_stake cm)" and "0 < unat (cm_total_stake cm)"
  using committee_okD(4) [OF assms] stake_of_positive [OF assms, of "everyone cm"] committee_okD(2) [OF assms] by auto

text \<open>Two thirds plus one, with or without a unanimous skip quorum.\<close>

lemma two_thirds_safe:
  fixes n f :: nat
  defines "quorum \<equiv> 2 * n div 3 + 1"
  assumes "3 * f < n"
  shows "0 < quorum" and "n + f < quorum + quorum" and "n + f < quorum + n" and "n + f + 1 \<le> quorum + quorum"
proof -
  have "2 * n < 3 * quorum" unfolding quorum_def by simp
  then show "0 < quorum" "n + f < quorum + quorum" "n + f < quorum + n" "n + f + 1 \<le> quorum + quorum"
    using assms(2) by linarith+
qed

lemma four_fifths_safe:
  fixes n f :: nat
  defines "strong \<equiv> 4 * n div 5 + 1" and "weak \<equiv> 2 * n div 5 + 1"
  assumes "5 * f < n"
  shows "n + f < strong + strong" and "n + f < weak + strong" and "n + f + weak \<le> strong + strong"
proof -
  have *: "4 * n < 5 * strong" "2 * n < 5 * weak" unfolding strong_def weak_def by simp_all
  have "5 * weak \<le> 2 * n + 5" unfolding weak_def by simp
  then show "n + f < strong + strong" "n + f < weak + strong" "n + f + weak \<le> strong + strong" using * assms(3) by linarith+
qed

lemma mysticeti_safe:
  assumes "committee_ok cm" and "unat (cm_total_stake cm) < 2 ^ 63" and "3 * faulty_stake cm honest < unat (cm_total_stake cm)"
  shows "safe_protocol cm honest (mysticeti (cm_total_stake cm) l)"
    and "safe_protocol cm honest (cordial_miners_partially_synchronous (cm_total_stake cm))"
    and "safe_protocol cm honest (cordial_miners_asynchronous (cm_total_stake cm))"
    and "mahi_mahi (cm_total_stake cm) l w = Inr p \<Longrightarrow> safe_protocol cm honest p"
  using two_thirds_safe [OF assms(3)] assms(3) unat_quorum_2_3 [OF assms(2) whole_stake_total(2) [OF assms(1)]]
    whole_stake_total [OF assms(1)]
  by (auto simp: safe_protocol_defs mysticeti_def cordial_miners_partially_synchronous_def
      cordial_miners_asynchronous_def mahi_mahi_def split: if_splits)

lemma blue_bottle_safe:
  assumes "committee_ok cm" and "unat (cm_total_stake cm) < 2 ^ 62" and "5 * faulty_stake cm honest < unat (cm_total_stake cm)"
  shows "safe_protocol cm honest (blue_bottle_partially_synchronous (cm_total_stake cm) l)"
    and "safe_protocol cm honest (blue_bottle_asynchronous (cm_total_stake cm) l)"
  using four_fifths_safe [OF assms(3)] unat_quorum_4_5 [OF assms(2) whole_stake_total(2) [OF assms(1)]]
    unat_quorum_2_5 [OF assms(2) whole_stake_total(2) [OF assms(1)]] whole_stake_total [OF assms(1)]
  by (simp_all add: safe_protocol_defs blue_bottle_partially_synchronous_def blue_bottle_asynchronous_def add.commute)

lemma nemo_nemo_safe:
  assumes "committee_ok cm" and "faulty_stake cm honest = 0"
  shows "safe_protocol cm honest (nemo_nemo (cm_total_stake cm) l)"
  using assms(2) unat_quorum_1_2 [OF whole_stake_total(2) [OF assms(1)]] whole_stake_total [OF assms(1)]
  by (simp add: safe_protocol_defs nemo_nemo_def)

text \<open>Linear expressions over words are those over naturals while they fit.\<close>

lemma unat_of_nat_fits: "n < 2 ^ LENGTH('a) \<Longrightarrow> unat (of_nat n :: 'a::len word) = n"
  by (simp add: unat_of_nat take_bit_nat_eq_self)

lemma unat_fitsI: "x = of_nat n \<Longrightarrow> n < 2 ^ LENGTH('a) \<Longrightarrow> unat (x :: 'a::len word) = n"
  by (simp add: unat_of_nat_fits)

lemma orcaella_safe:
  assumes cm: "committee_ok cm" and fit: "5 * unat f + 3 * unat c + 1 < 2 ^ 64" and F: "faulty_stake cm honest \<le> unat f"
    and p: "orcaella (cm_total_stake cm) f c l = Inr p"
  shows "safe_protocol cm honest p"
proof -
  define t' f' c' where "t' = unat (cm_total_stake cm)" and "f' = unat f" and "c' = unat c"
  note total = whole_stake_total [OF cm, folded t'_def]
  have w: "cm_total_stake cm = of_nat t'" "f = of_nat f'" "c = of_nat c'" by (simp_all add: t'_def f'_def c'_def)
  have fit': "5 * f' + 3 * c' + 1 < 2 ^ 64" and F': "faulty_stake cm honest \<le> f'" using fit F by (simp_all add: f'_def c'_def)
  have t64: "t' < 2 ^ 64" using unat_lt_size [of "cm_total_stake cm"] by (simp add: t'_def)
  let ?w = "of_nat :: nat \<Rightarrow> u64"
  have f0: "f = 0 \<longleftrightarrow> f' = 0" by (simp add: f'_def unat_eq_zero)
  have min_n: "(if f = 0 then 2 * c + 1 else 5 * f + 3 * c + 1) = ?w (if f' = 0 then 2 * c' + 1 else 5 * f' + 3 * c' + 1)"
    unfolding f0 by (simp add: w(2,3))
  have "unat (?w (if f' = 0 then 2 * c' + 1 else 5 * f' + 3 * c' + 1)) = (if f' = 0 then 2 * c' + 1 else 5 * f' + 3 * c' + 1)"
    by (rule unat_of_nat_fits) (use fit' in simp)
  then have b: "(if f' = 0 then 2 * c' + 1 else 5 * f' + 3 * c' + 1) \<le> t'"
    using p unfolding orcaella_def Let_def min_n by (auto simp: word_le_nat_alt word_less_nat_alt t'_def not_less split: if_splits)
  have le: "f' + c' \<le> t'" "3 * f' + 2 * c' \<le> t'" using b by (auto split: if_splits)
  have u: "unat (cm_total_stake cm - f - c) = t' - f' - c'"
    by (rule unat_fitsI) (use le t64 in \<open>simp_all add: w of_nat_diff\<close>)
  have u': "unat (cm_total_stake cm - 3 * f - 2 * c) = t' - 3 * f' - 2 * c'"
    by (rule unat_fitsI) (use le t64 in \<open>simp_all add: w of_nat_diff\<close>)
  have u'': "unat (4 * f + 2 * c + 1) = 4 * f' + 2 * c' + 1"
    by (rule unat_fitsI) (use fit' in \<open>simp_all add: w\<close>)
  show ?thesis
    using p b F' le total u u' u'' unfolding orcaella_def Let_def
    by (auto simp: safe_protocol_defs split: if_splits)
qed

text \<open>\<^verbatim>\<open>dag_hydrangea\<close> computes on 128 bits, where nothing wraps; its assertions always hold.\<close>

lemma of_nat_half: "a < 2 ^ 128 \<Longrightarrow> (of_nat a :: 128 word) div 2 = of_nat (a div 2)"
  by (rule iffD2 [OF word_unat_eq_iff]) (simp add: unat_div_distrib unat_of_nat_fits)

lemma unat_narrow: "a < 2 ^ 64 \<Longrightarrow> unat (ucast (of_nat a :: 128 word) :: u64) = a"
  by (simp add: unat_of_nat_fits unsigned_ucast_eq take_bit_nat_eq_self)

lemma ucast_widen:
  assumes "a < 2 ^ 64"
  shows "ucast (ucast (of_nat a :: 128 word) :: u64) = (of_nat a :: 128 word)"
proof -
  have "unat (ucast (ucast (of_nat a :: 128 word) :: u64) :: 128 word) = a"
    using unat_narrow [OF assms] assms by (subst unsigned_ucast_eq) (simp add: take_bit_nat_eq_self)
  moreover have "unat (of_nat a :: 128 word) = a" by (rule unat_of_nat_fits) (use assms in simp)
  ultimately show ?thesis by (simp only: word_unat_eq_iff)
qed

lemma hydrangea_asserts:
  assumes "t < (2 :: nat) ^ 64" and "f < 2 ^ 64" and "p \<le> t" and "f + p + 1 \<le> t"
  shows "(of_nat t + of_nat f :: 128 word) < 2 * of_nat ((t + f + 2) div 2)"
    and "(of_nat t + of_nat f :: 128 word) < ucast (ucast (of_nat (t - p) :: 128 word) :: u64) +
      ucast (ucast (of_nat (f + p + 1) :: 128 word) :: u64)"
proof -
  let ?w = "of_nat :: nat \<Rightarrow> 128 word"
  have 1: "unat (?w t + ?w f) = t + f" by (rule unat_fitsI) (use assms in simp_all)
  have "unat (2 * ?w ((t + f + 2) div 2)) = 2 * ((t + f + 2) div 2)" by (rule unat_fitsI) (use assms in simp_all)
  with 1 show "?w t + ?w f < 2 * ?w ((t + f + 2) div 2)" by (simp add: word_less_nat_alt)
  have "unat (?w (t - p) + ?w (f + p + 1)) = t - p + (f + p + 1)" by (rule unat_fitsI) (use assms in simp_all)
  with 1 have "?w t + ?w f < ?w (t - p) + ?w (f + p + 1)" using assms(3) by (simp only: word_less_nat_alt)
  moreover have "t - p < 2 ^ 64" "f + p + 1 < 2 ^ 64" using assms by linarith+
  ultimately show "?w t + ?w f < ucast (ucast (?w (t - p)) :: u64) + ucast (ucast (?w (f + p + 1)) :: u64)"
    by (simp only: ucast_widen)
qed

lemma dag_hydrangea_cases:
  fixes t f c k :: u64
  defines "p \<equiv> (unat c + unat k) div 2"
  shows "(\<exists>e. dag_hydrangea t f c k l = Some (Inl e)) \<or>
    3 * unat f + 2 * unat c + unat k + 1 \<le> unat t \<and>
    (\<exists>pr fp. dag_hydrangea t f c k l = Some (Inr pr) \<and> pr_fast_path pr = Some fp \<and>
       unat (fp_commit_quorum fp) = unat t - p \<and> unat (fp_weak_indirect_quorum fp) = unat f + p + 1 \<and>
       unat (pr_direct_commit_quorum pr) = 2 * unat f + unat c + 1 \<and> unat (pr_direct_skip_quorum pr) = unat t - p \<and>
       unat (pr_certificate_quorum pr) = (unat t + unat f + 2) div 2 \<and>
       unat (pr_quorum_threshold pr) = unat t - unat f - unat c \<and>
       pr_anchor_link_size pr = 1 \<and> pr_wave_length pr = 3 \<and> \<not> pr_merged_certificates pr)"
proof -
  define t' f' c' k' where "t' = unat t" and "f' = unat f" and "c' = unat c" and "k' = unat k"
  note defs = t'_def f'_def c'_def k'_def
  have lt: "t' < 2 ^ 64" "f' < 2 ^ 64" "c' < 2 ^ 64" "k' < 2 ^ 64"
    using unat_lt_size [of t] unat_lt_size [of f] unat_lt_size [of c] unat_lt_size [of k] by (simp_all add: defs)
  let ?w = "of_nat :: nat \<Rightarrow> 128 word"
  have w: "ucast t = ?w t'" "ucast f = ?w f'" "ucast c = ?w c'" "ucast k = ?w k'" by (simp_all add: defs unsigned_ucast_eq)
  have min_n: "unat (3 * ?w f' + 2 * ?w c' + ?w k' + 1) = 3 * f' + 2 * c' + k' + 1" "unat (?w t') = t'"
    by (rule unat_fitsI; use lt in simp)+
  show ?thesis
  proof (cases "t' < 3 * f' + 2 * c' + k' + 1")
    case True
    then have "?w t' < 3 * ?w f' + 2 * ?w c' + ?w k' + 1" by (simp only: word_less_nat_alt min_n)
    then show ?thesis by (simp add: dag_hydrangea_def Let_def w)
  next
    case False
    then have b: "3 * f' + 2 * c' + k' + 1 \<le> t'" by simp
    then have guard: "\<not> 3 * ?w f' + 2 * ?w c' + ?w k' + 1 > ?w t'" by (simp only: word_less_nat_alt min_n not_less)
    define p' where "p' = (c' + k') div 2"
    have P: "(?w c' + ?w k') div 2 = ?w p'" using of_nat_half [of "c' + k'"] lt by (simp add: p'_def)
    have Q: "(?w t' + ?w f' + 2) div 2 = ?w ((t' + f' + 2) div 2)"
      using of_nat_half [of "t' + f' + 2"] lt by (simp add: ac_simps)
    have "2 * p' \<le> c' + k'" by (simp add: p'_def)
    then have le: "p' \<le> t'" "f' + c' \<le> t'" "f' + p' + 1 \<le> t'" "2 * f' + c' + 1 \<le> t'" "(t' + f' + 2) div 2 \<le> t'"
      using b by auto
    have lin: "?w t' - ?w p' = ?w (t' - p')" "?w t' - ?w f' - ?w c' = ?w (t' - f' - c')"
        "?w f' + ?w p' + 1 = ?w (f' + p' + 1)" "2 * ?w f' + ?w c' + 1 = ?w (2 * f' + c' + 1)"
      using le by (simp_all add: of_nat_diff)
    have n: "unat (ucast (?w (t' - p')) :: u64) = t' - p'" "unat (ucast (?w (f' + p' + 1)) :: u64) = f' + p' + 1"
        "unat (ucast (?w (2 * f' + c' + 1)) :: u64) = 2 * f' + c' + 1"
        "unat (ucast (?w ((t' + f' + 2) div 2)) :: u64) = (t' + f' + 2) div 2"
        "unat (ucast (?w (t' - f' - c')) :: u64) = t' - f' - c'"
      by (rule unat_narrow, use le lt in linarith)+
    let ?fp = "\<lparr>fp_commit_quorum = ucast (?w (t' - p')), fp_weak_indirect_quorum = ucast (?w (f' + p' + 1))\<rparr>"
    let ?pr = "\<lparr>pr_direct_commit_quorum = ucast (?w (2 * f' + c' + 1)), pr_direct_skip_quorum = ucast (?w (t' - p')),
        pr_certificate_quorum = ucast (?w ((t' + f' + 2) div 2)), pr_quorum_threshold = ucast (?w (t' - f' - c')),
        pr_fast_path = Some ?fp, pr_anchor_link_size = 1, pr_wave_length = 3, pr_merged_certificates = False,
        pr_leader_count = l, pr_pipeline = True, pr_leader_wait = True, pr_require_crypto = (?w f' \<noteq> 0)\<rparr>"
    have "dag_hydrangea t f c k l = Some (Inr ?pr)"
      unfolding dag_hydrangea_def Let_def w P Q lin fast_path.simps
      by (simp only: guard hydrangea_asserts [OF lt(1,2) le(1,3)] if_False not_True_eq_False)
    then show ?thesis
      using b n
      by (intro disjI2 conjI exI [where x = ?pr] exI [where x = ?fp])
        (simp_all only: protocol.select_convs fast_path.select_convs defs p'_def assms(1) simp_thms)
  qed
qed

lemma dag_hydrangea_safe:
  assumes cm: "committee_ok cm" and F: "faulty_stake cm honest \<le> unat f"
    and p: "dag_hydrangea (cm_total_stake cm) f c k l = Some (Inr pr)"
  shows "safe_protocol cm honest pr"
proof -
  define half where "half = (unat c + unat k) div 2"
  have "2 * half \<le> unat c + unat k" by (simp add: half_def)
  moreover define cert where "cert = (unat (cm_total_stake cm) + unat f + 2) div 2"
  have "unat (cm_total_stake cm) + unat f < 2 * cert" by (simp add: cert_def)
  moreover obtain fp where "3 * unat f + 2 * unat c + unat k + 1 \<le> unat (cm_total_stake cm)"
      "pr_fast_path pr = Some fp" "unat (fp_commit_quorum fp) = unat (cm_total_stake cm) - half"
      "unat (fp_weak_indirect_quorum fp) = unat f + half + 1"
      "unat (pr_direct_commit_quorum pr) = 2 * unat f + unat c + 1"
      "unat (pr_direct_skip_quorum pr) = unat (cm_total_stake cm) - half"
      "unat (pr_certificate_quorum pr) = cert"
      "unat (pr_quorum_threshold pr) = unat (cm_total_stake cm) - unat f - unat c"
      "pr_anchor_link_size pr = 1" "pr_wave_length pr = 3" "\<not> pr_merged_certificates pr"
    using dag_hydrangea_cases [of "cm_total_stake cm" f c k l] p by (auto simp: half_def cert_def)
  ultimately show ?thesis using F whole_stake_total [OF cm]
    by (simp add: safe_protocol_defs, intro conjI impI; linarith)
qed

section \<open>The protocols under their fault bounds\<close>

text \<open>
  The stake that may be faulty, and the committees whose total stake keeps the quorums of the protocol within 64 bits.
  \<^verbatim>\<open>orcaella\<close> and \<^verbatim>\<open>dag_hydrangea\<close> take the bound as a parameter; \<^verbatim>\<open>nemo_nemo\<close> tolerates crashes only.
\<close>

fun tolerates :: "committee \<Rightarrow> authority set \<Rightarrow> consensus_protocol \<Rightarrow> bool" where
  "tolerates cm honest (BlueBottlePartiallySynchronous _) \<longleftrightarrow>
     unat (cm_total_stake cm) < 2 ^ 62 \<and> 5 * faulty_stake cm honest < unat (cm_total_stake cm)"
| "tolerates cm honest (BlueBottleAsynchronous _) \<longleftrightarrow>
     unat (cm_total_stake cm) < 2 ^ 62 \<and> 5 * faulty_stake cm honest < unat (cm_total_stake cm)"
| "tolerates cm honest (Orcaella _ f c) \<longleftrightarrow>
     5 * unat f + 3 * unat c + 1 < 2 ^ 64 \<and> faulty_stake cm honest \<le> unat f"
| "tolerates cm honest (NemoNemo _) \<longleftrightarrow> faulty_stake cm honest = 0"
| "tolerates cm honest (DagHydrangea _ f _ _) \<longleftrightarrow> faulty_stake cm honest \<le> unat f"
| "tolerates cm honest _ \<longleftrightarrow>
     unat (cm_total_stake cm) < 2 ^ 63 \<and> 3 * faulty_stake cm honest < unat (cm_total_stake cm)"

lemma to_protocol_safe:
  assumes "committee_ok cm" and "tolerates cm honest self" and "to_protocol self cm = Some (Inr p)"
  shows "safe_protocol cm honest p"
  using assms
  by (cases self)
    (auto simp: to_protocol_def split: if_splits
      intro: mysticeti_safe blue_bottle_safe nemo_nemo_safe orcaella_safe dag_hydrangea_safe)

lemma to_protocol_leader_count:
  assumes "committee_ok cm" and "to_protocol self cm = Some (Inr p)"
  shows "pr_leader_count p \<le> committee_len cm"
proof (cases self)
  case (DagHydrangea l f c k)
  then show ?thesis using assms(2)
    by (auto simp: to_protocol_def dag_hydrangea_def Let_def split: if_splits)
qed (use assms committee_okD(2) [OF assms(1)] in
  \<open>auto simp: to_protocol_def cordial_miners_partially_synchronous_def cordial_miners_asynchronous_def mysticeti_def
    blue_bottle_partially_synchronous_def blue_bottle_asynchronous_def orcaella_def mahi_mahi_def nemo_nemo_def Let_def
    split: if_splits\<close>)

lemma to_protocol_no_panic: "to_protocol self cm \<noteq> None"
proof (cases self)
  case (DagHydrangea l f c k)
  then show ?thesis using dag_hydrangea_cases [of "cm_total_stake cm" f c k l] by (auto simp: to_protocol_def)
qed (simp_all add: to_protocol_def)

end
