(* ===== verification/Commit_Order.thy ===== *)
theory Commit_Order
  imports Protocols
begin

text \<open>
  The order of decisions: the committer goes through the elected leaders of every round in order, each slot once, and
  continues after the cursor where the previous call stopped.
\<close>

section \<open>The slots of a run\<close>

definition slot :: "leader_status \<Rightarrow> round_number \<times> authority" where
  "slot x = (ls_round x, ls_authority x)"

definition leaders_at :: "base_committer list \<Rightarrow> round_number \<Rightarrow> (round_number \<times> authority) list" where
  "leaders_at bcs k = map (Pair k) (List.map_filter (\<lambda>bc. elect_leader bc k) bcs)"

lemma leaders_at_append [simp]: "leaders_at (bcs @ bcs') k = leaders_at bcs k @ leaders_at bcs' k"
  by (simp add: leaders_at_def List.map_filter_def)

lemma leaders_at_Cons:
  "leaders_at (bc # bcs) k = (case elect_leader bc k of None \<Rightarrow> leaders_at bcs k | Some a \<Rightarrow> (k, a) # leaders_at bcs k)"
  by (simp add: leaders_at_def List.map_filter_simps split: option.split)

definition decided_from :: "block_store \<Rightarrow> leader_status list \<Rightarrow> bool" where
  "decided_from s xs \<longleftrightarrow> (\<forall>x \<in> set xs. status_in s x)"

lemma decide_slots_order:
  assumes G: "good_dag c q honest g" and s: "view g s"
  shows "\<lbrakk>safe_committers c q honest bcs; decided_from s xs\<rbrakk> \<Longrightarrow>
    \<exists>new. decide_slots s k bcs xs = Some (new @ xs) \<and> map slot new = rev (leaders_at bcs k) \<and> decided_from s (new @ xs)"
proof (induction bcs arbitrary: xs)
  case (Cons bc bcs)
  then have rest: "safe_committers c q honest bcs" and bc: "safe_rule bc q honest" "bc_committee bc = c"
    by (simp_all add: safe_committers_def)
  show ?case
  proof (cases "elect_leader bc k")
    case None
    then show ?thesis using Cons.IH [OF rest Cons.prems(2)] unfolding decide_slots_Cons leaders_at_Cons None by simp
  next
    case (Some a)
    note l = elect_leader_round [OF Some] and in_s = Cons.prems(2) [unfolded decided_from_def]
    obtain x where x: "slot_status bc s a k xs = Some x" "decision bc g s a k (find_anchor bc k xs) x"
      by (rule slot_status_decision [OF G [folded bc(2)] s bc(1) l in_s])
    have "decided_from s (x # xs)"
      using decision_in [OF G [folded bc(2)] s bc(1) l in_s x(2)] in_s by (simp add: decided_from_def)
    then obtain new where "decide_slots s k bcs (x # xs) = Some (new @ x # xs)" "map slot new = rev (leaders_at bcs k)"
        "decided_from s (new @ x # xs)" using Cons.IH [OF rest] by blast
    moreover have "slot x = (k, a)" using decision_slot [OF x(2)] by (simp add: slot_def)
    ultimately show ?thesis
      unfolding decide_slots_Cons leaders_at_Cons Some
      by (intro exI [where x = "new @ [x]"]) (simp add: x(1))
  qed
qed (simp add: leaders_at_def)

lemma rev_leaders_at: "rev (leaders_at (rev bcs) k) = leaders_at bcs k"
  by (induction bcs) (auto simp: leaders_at_Cons split: option.split, simp_all add: leaders_at_def List.map_filter_simps)

lemma decide_rounds_order:
  assumes G: "good_dag c q honest g" and s: "view g s" and bcs: "safe_committers c q honest bcs"
  shows "decided_from s xs \<Longrightarrow>
    \<exists>new. decide_rounds s bcs ks xs = Some (new @ xs) \<and> map slot new = concat (map (leaders_at bcs) (rev ks)) \<and>
      decided_from s (new @ xs)"
proof (induction ks arbitrary: xs)
  case (Cons k ks)
  have "safe_committers c q honest (rev bcs)" using bcs by (simp add: safe_committers_def)
  from decide_slots_order [OF G s this Cons.prems, of k] obtain new
    where new: "decide_slots s k (rev bcs) xs = Some (new @ xs)" "map slot new = leaders_at bcs k" "decided_from s (new @ xs)"
    unfolding rev_leaders_at by blast
  obtain new' where "decide_rounds s bcs ks (new @ xs) = Some (new' @ new @ xs)"
      "map slot new' = concat (map (leaders_at bcs) (rev ks))" "decided_from s (new' @ new @ xs)"
    using Cons.IH [OF new(3)] by blast
  then show ?case using new by (intro exI [where x = "new' @ new"]) simp
qed simp

section \<open>Each slot once\<close>

lemma leader_round_offset:
  assumes "is_leader_round \<lparr>wv_length = w, wv_round_offset = o', wv_merged_certificates = m\<rparr> k" and "o' < w"
  shows "o' = k mod w"
proof -
  have "(k - o') div w * w + o' = k" using assms(1) by (simp add: is_leader_round_def leader_round_def wave_number_def)
  then have "k mod w = ((k - o') div w * w + o') mod w" by simp
  then show ?thesis using assms(2) by simp
qed

definition elected :: "committee \<Rightarrow> protocol \<Rightarrow> round_number \<Rightarrow> round_number \<Rightarrow> (round_number \<times> authority) list" where
  "elected cm p k round_offset =
     (if is_leader_round \<lparr>wv_length = pr_wave_length p, wv_round_offset = round_offset,
          wv_merged_certificates = pr_merged_certificates p\<rparr> k
      then map (\<lambda>l. (k, (k + l) mod committee_len cm)) [0..<pr_leader_count p] else [])"

lemma leaders_at_offset:
  "leaders_at (map (\<lambda>l. base_committer_new cm p l round_offset) ls) k =
     (if is_leader_round \<lparr>wv_length = pr_wave_length p, wv_round_offset = round_offset,
          wv_merged_certificates = pr_merged_certificates p\<rparr> k
      then map (\<lambda>l. (k, (k + l) mod committee_len cm)) ls else [])"
  by (induction ls)
    (auto simp: leaders_at_Cons elect_leader_def base_committer_new_def leader_elector_elect_def leaders_at_def
      List.map_filter_simps)

lemma leaders_at_new:
  "leaders_at (co_base_committers (committer_new cm p)) k =
     concat (map (elected cm p k) [0..<(if pr_pipeline p then pr_wave_length p else 1)])"
proof -
  have "leaders_at (concat (map (\<lambda>ro. map (\<lambda>l. base_committer_new cm p l ro) [0..<pr_leader_count p]) ros)) k =
      concat (map (elected cm p k) ros)" for ros
    by (induction ros) (simp_all add: leaders_at_offset elected_def, simp add: leaders_at_def List.map_filter_simps)
  then show ?thesis by (simp add: committer_new_def)
qed

lemma distinct_elected:
  assumes "pr_leader_count p \<le> committee_len cm"
  shows "distinct (elected cm p k ro)"
proof -
  have "inj_on (\<lambda>l. (k, (k + l) mod committee_len cm)) {0..<pr_leader_count p}"
  proof (rule inj_onI)
    fix x y assume xy: "x \<in> {0..<pr_leader_count p}" "y \<in> {0..<pr_leader_count p}"
      and "(k, (k + x) mod committee_len cm) = (k, (k + y) mod committee_len cm)"
    then have "x mod committee_len cm = y mod committee_len cm" by (simp add: mod_add_left_eq nat_mod_eq_iff)
    then show "x = y" using xy assms by simp
  qed
  then show ?thesis by (simp add: elected_def distinct_map)
qed

lemma distinct_leaders_at:
  assumes "pr_leader_count p \<le> committee_len cm" and "0 < pr_wave_length p"
  shows "distinct (leaders_at (co_base_committers (committer_new cm p)) k)"
proof -
  have one: "elected cm p k ro = []" if "ro < pr_wave_length p" "ro \<noteq> k mod pr_wave_length p" for ro
    using leader_round_offset that by (auto simp: elected_def)
  have "distinct (concat (map (elected cm p k) [0..<n]))" if "n \<le> pr_wave_length p" for n
    using that
  proof (induction n)
    case (Suc n)
    show ?case
    proof (cases "n = k mod pr_wave_length p")
      case True
      then have "elected cm p k ro = []" if "ro < n" for ro using one [of ro] that Suc.prems by simp
      then have none: "concat (map (elected cm p k) [0..<n]) = []" by simp
      have "concat (map (elected cm p k) [0..<Suc n]) = concat (map (elected cm p k) [0..<n]) @ elected cm p k n" by simp
      then have "concat (map (elected cm p k) [0..<Suc n]) = elected cm p k n" unfolding none by simp
      then show ?thesis by (simp only: distinct_elected [OF assms(1)])
    next
      case False
      then show ?thesis using one [of n] Suc by simp
    qed
  qed simp
  then show ?thesis using assms(2) by (simp add: leaders_at_new)
qed

definition slots_up_to :: "base_committer list \<Rightarrow> round_number \<Rightarrow> (round_number \<times> authority) list" where
  "slots_up_to bcs n = concat (map (leaders_at bcs) [0..<n])"

lemma slots_up_to_rounds: "x \<in> set (slots_up_to bcs n) \<Longrightarrow> fst x < n"
  by (auto simp: slots_up_to_def leaders_at_def)

lemma sorted_slots: "sorted (map fst (slots_up_to bcs n))"
proof (induction n)
  case (Suc n)
  have "sorted (map fst (leaders_at bcs n))" by (simp add: leaders_at_def comp_def sorted_map)
  then show ?case using Suc slots_up_to_rounds
    by (fastforce simp: slots_up_to_def sorted_append leaders_at_def)
qed (simp add: slots_up_to_def)

lemma distinct_slots:
  assumes "\<And>k. distinct (leaders_at bcs k)"
  shows "distinct (slots_up_to bcs n)"
proof (induction n)
  case (Suc n)
  have "set (slots_up_to bcs n) \<inter> set (leaders_at bcs n) = {}"
    using slots_up_to_rounds by (fastforce simp: leaders_at_def)
  then show ?case using Suc assms by (simp add: slots_up_to_def)
qed (simp add: slots_up_to_def)

lemma run_order:
  assumes G: "good_dag c q honest g" and s: "view g s" and bcs: "safe_committers c q honest bcs"
  obtains xs where "decide_rounds s bcs (rev [0..<n]) [] = Some xs" and "map slot xs = slots_up_to bcs n"
    and "decided_from s xs"
  using decide_rounds_order [OF G s bcs, of "[]" "rev [0..<n]"] by (auto simp: decided_from_def slots_up_to_def)

section \<open>The committed leaders\<close>

definition leader_block :: "leader_status \<Rightarrow> dag_block option" where
  "leader_block x = (case into_decided_block x of Some b \<Rightarrow> b | None \<Rightarrow> None)"

lemma set_map_filter: "b \<in> set (List.map_filter f xs) \<longleftrightarrow> (\<exists>x \<in> set xs. f x = Some b)"
  by (force simp: List.map_filter_def)

lemma leader_block_Some: "leader_block x = Some b \<longleftrightarrow> into_decided_block x = Some (Some b)"
  by (cases x) (auto simp: leader_block_def)

lemma core_try_commit_decided:
  assumes "committer_try_commit co s last_decided = Some xs" and "\<forall>x \<in> set xs. is_decided x"
  shows "core_try_commit co s last_decided =
    Some (if xs = [] then last_decided else Some (slot (last xs)), List.map_filter leader_block xs)"
proof -
  have "\<exists>bl. those (map into_decided_block xs) = Some bl \<and> List.map_filter id bl = List.map_filter leader_block xs"
    using assms(2)
  proof (induction xs)
    case (Cons x xs)
    then show ?case by (cases x) (auto simp: List.map_filter_simps leader_block_def)
  qed (simp add: List.map_filter_simps)
  then show ?thesis using assms(1) by (auto simp: core_try_commit_def slot_def)
qed

lemma committed_leaders_order:
  assumes "sorted (map ls_round xs)" and "distinct (map slot xs)" and "decided_from s xs"
  defines "bs \<equiv> List.map_filter leader_block xs"
  shows "set bs \<subseteq> set (bs_index s) \<and> sorted (map db_round bs) \<and> distinct bs"
proof -
  have in_s: "set (List.map_filter leader_block xs) \<subseteq> set (bs_index s)"
    using assms(3) by (auto simp: decided_from_def status_in_def set_map_filter leader_block_Some)
  have "sorted (map db_round (List.map_filter leader_block xs)) \<and> distinct (List.map_filter leader_block xs)"
    using assms(1,2)
  proof (induction xs)
    case (Cons x xs)
    then have IH: "sorted (map db_round (List.map_filter leader_block xs))" "distinct (List.map_filter leader_block xs)"
      by simp_all
    show ?case
    proof (cases "leader_block x")
      case None
      then show ?thesis using IH by (simp add: List.map_filter_simps)
    next
      case (Some b)
      then have b: "slot x = (db_round b, db_author b)" using decided_slot by (simp add: slot_def leader_block_Some)
      have later: "\<exists>y \<in> set xs. slot y = (db_round d, db_author d)" if "d \<in> set (List.map_filter leader_block xs)" for d
        using that decided_slot by (fastforce simp: set_map_filter leader_block_Some slot_def)
      have "b \<notin> set (List.map_filter leader_block xs)" using later [of b] Cons.prems(2) b by (auto simp: rev_image_eqI)
      moreover have "db_round b \<le> db_round d" if "d \<in> set (List.map_filter leader_block xs)" for d
        using later [OF that] Cons.prems(1) b by (auto simp: slot_def)
      ultimately show ?thesis using IH Some by (simp add: List.map_filter_simps)
    qed
  qed (simp add: List.map_filter_simps)
  then show ?thesis using in_s by (simp add: bs_def)
qed

end
