(* ===== verification/Linearizer.thy ===== *)
theory Linearizer
  imports Protocols
begin

text \<open>
  The linearizer of \<^verbatim>\<open>dag/src/consensus.rs\<close>: the sub-dag of a leader is the part of its causal history that is not
  committed yet, every block is output once, and the result does not depend on the view. With the agreement of the
  committer, the sequences of sub-dags that two validators output are prefixes of one another.
\<close>

section \<open>Collecting a sub-dag\<close>

lemma push_includes_view:
  assumes G: "good_dag c q honest g" and s: "view g s"
  shows "(\<And>r. r \<in> set rs \<Longrightarrow> block_exists s r) \<Longrightarrow>
    \<exists>new. push_includes s rs C buf = Some (C \<union> set rs, new @ buf) \<and> push_includes g rs C buf = Some (C \<union> set rs, new @ buf) \<and>
      set new \<subseteq> set (bs_index s) \<and> db_reference ` set new = set rs - C \<and> distinct (map db_reference new)"
proof (induction rs arbitrary: C buf)
  case (Cons r rs)
  obtain b where b: "get_block s r = Some b" "b \<in> set (bs_index s)" "db_reference b = r" "get_block g r = Some b"
    by (rule get_block_exists [OF G s]) (use Cons.prems in auto)
  have IH: "\<exists>new. push_includes s rs C buf = Some (C \<union> set rs, new @ buf) \<and> push_includes g rs C buf = Some (C \<union> set rs, new @ buf) \<and>
      set new \<subseteq> set (bs_index s) \<and> db_reference ` set new = set rs - C \<and> distinct (map db_reference new)" for C buf
    by (rule Cons.IH) (use Cons.prems in auto)
  show ?case
  proof (cases "r \<in> C")
    case True
    then show ?thesis using IH [of C buf] b by (auto simp: insert_absorb Un_commute)
  next
    case False
    obtain new where new: "push_includes s rs (insert r C) (b # buf) = Some (insert r C \<union> set rs, new @ b # buf)"
        "push_includes g rs (insert r C) (b # buf) = Some (insert r C \<union> set rs, new @ b # buf)"
        "set new \<subseteq> set (bs_index s)" "db_reference ` set new = set rs - insert r C" "distinct (map db_reference new)"
      using IH [of "insert r C" "b # buf"] by blast
    show ?thesis
      by (rule exI [where x = "new @ [b]"]) (use new b False in auto)
  qed
qed simp

text \<open>The causal history of a set of blocks.\<close>

inductive_set history :: "block_store \<Rightarrow> dag_block set \<Rightarrow> dag_block set" for s S where
  start: "b \<in> S \<Longrightarrow> b \<in> history s S"
| step: "\<lbrakk>b \<in> history s S; x \<in> set (bs_index s); db_reference x \<in> set (db_includes b)\<rbrakk> \<Longrightarrow> x \<in> history s S"

definition committed_closed :: "block_store \<Rightarrow> block_reference set \<Rightarrow> bool" where
  "committed_closed s C \<longleftrightarrow>
     (\<forall>b \<in> set (bs_index s). db_reference b \<in> C \<longrightarrow> set (db_includes b) \<subseteq> C)"

text \<open>
  The loop visits exactly the blocks that enter \<open>committed\<close>. Blocks already in the buffer are marked committed but
  their includes need not be, so the closure is stated for the rest.
\<close>

definition loop_pre :: "block_store \<Rightarrow> block_reference set \<Rightarrow> dag_block list \<Rightarrow> bool" where
  "loop_pre s C buf \<longleftrightarrow> set buf \<subseteq> set (bs_index s) \<and> db_reference ` set buf \<subseteq> C \<and> distinct (map db_reference buf) \<and>
     (\<forall>b \<in> set (bs_index s). db_reference b \<in> C \<longrightarrow> b \<notin> set buf \<longrightarrow> set (db_includes b) \<subseteq> C)"

definition loop_post ::
  "block_store \<Rightarrow> block_reference set \<Rightarrow> dag_block list \<Rightarrow> block_reference set \<Rightarrow> dag_block list \<Rightarrow> bool" where
  "loop_post s C buf C' out \<longleftrightarrow> set out \<subseteq> set (bs_index s) \<and> C' = C \<union> db_reference ` set out \<and>
     distinct (map db_reference out) \<and> set buf \<subseteq> set out \<and> set out \<subseteq> history s (set buf) \<and>
     db_reference ` set out \<inter> (C - db_reference ` set buf) = {} \<and> committed_closed s C'"

lemma history_mono: "S \<subseteq> history s T \<Longrightarrow> history s S \<subseteq> history s T"
proof
  fix x assume S: "S \<subseteq> history s T" and "x \<in> history s S"
  from this(2) show "x \<in> history s T" by induction (use S history.step in blast)+
qed

lemma loop_pre_step:
  assumes G: "good_dag c q honest g" and s: "view g s" and pre: "loop_pre s C (x # rest)"
    and new: "set new \<subseteq> set (bs_index s)" "db_reference ` set new = set (db_includes x) - C" "distinct (map db_reference new)"
  shows "loop_pre s (C \<union> set (db_includes x)) (new @ rest)"
proof -
  have rest: "db_reference ` set rest \<subseteq> C" "distinct (map db_reference rest)" using pre by (simp_all add: loop_pre_def)
  then have "distinct (map db_reference (new @ rest))" using new by auto
  moreover have "set (db_includes b) \<subseteq> C \<union> set (db_includes x)"
    if b: "b \<in> set (bs_index s)" "db_reference b \<in> C \<union> set (db_includes x)" "b \<notin> set (new @ rest)" for b
  proof (cases "db_reference b \<in> C")
    case True
    then show ?thesis using pre b by (cases "b = x") (auto simp: loop_pre_def)
  next
    case False
    then have "db_reference b \<in> db_reference ` set new" using b(2) new(2) by simp
    then obtain y where y: "y \<in> set new" "db_reference y = db_reference b" by (metis imageE)
    then have "y = b" using good_dagD(4) [OF G] viewD(1) [OF s] new(1) b(1) by blast
    then show ?thesis using y(1) b(3) by simp
  qed
  ultimately show ?thesis using pre new(1,2) rest(1) by (auto simp: loop_pre_def)
qed

lemma loop_post_step:
  assumes pre: "loop_pre s C (x # rest)"
    and new: "set new \<subseteq> set (bs_index s)" "db_reference ` set new = set (db_includes x) - C"
    and post: "loop_post s (C \<union> set (db_includes x)) (new @ rest) C' out"
  shows "loop_post s C (x # rest) C' (x # out)"
proof -
  let ?C = "C \<union> set (db_includes x)" and ?buf = "set (new @ rest)" and ?R = "\<lambda>X. db_reference ` X"
  have x: "x \<in> set (bs_index s)" "db_reference x \<in> C" "db_reference x \<notin> ?R (set rest)" and rest: "?R (set rest) \<subseteq> C"
    using pre by (auto simp: loop_pre_def)
  have o: "set out \<subseteq> set (bs_index s)" "C' = ?C \<union> ?R (set out)" "distinct (map db_reference out)" "?buf \<subseteq> set out"
      "set out \<subseteq> history s ?buf" "?R (set out) \<inter> (?C - ?R ?buf) = {}" "committed_closed s C'"
    using post unfolding loop_post_def by blast+
  have old: "r \<notin> ?R (set out)" if "r \<in> C" "r \<notin> ?R (set rest)" for r
    using o(6) new(2) that by (auto simp: image_Un)
  have "?R (set new) \<subseteq> ?R (set out)" using o(4) by auto
  then have C': "C' = C \<union> ?R (set (x # out))" using o(2) new(2) x(2) by auto
  have "set new \<subseteq> history s (set (x # rest))"
  proof
    fix y assume y: "y \<in> set new"
    have r: "db_reference y \<in> set (db_includes x)" using new(2) y by auto
    have "x \<in> history s (set (x # rest))" by (rule history.start) simp
    from history.step [OF this subsetD [OF new(1) y] r] show "y \<in> history s (set (x # rest))" .
  qed
  moreover have "set rest \<subseteq> history s (set (x # rest))" by (rule subsetI, rule history.start) simp
  ultimately have "?buf \<subseteq> history s (set (x # rest))" by simp
  then have "set out \<subseteq> history s (set (x # rest))" by (rule order_trans [OF o(5) history_mono])
  moreover have "x \<in> history s (set (x # rest))" by (rule history.start) simp
  moreover have "distinct (map db_reference (x # out))" using o(3) old [OF x(2,3)] by simp
  moreover have "?R (set (x # out)) \<inter> (C - ?R (set (x # rest))) = {}" using old by auto
  moreover have "set (x # rest) \<subseteq> set (x # out)" using o(4) by auto
  ultimately show ?thesis using o(1,7) x(1) C' by (simp add: loop_post_def)
qed

lemma collect_loop_view:
  assumes G: "good_dag c q honest g" and s: "view g s"
  shows "loop_pre s C buf \<Longrightarrow>
    \<exists>C' out. collect_loop s C buf acc = Some (C', acc @ out) \<and> collect_loop g C buf acc = Some (C', acc @ out) \<and>
      loop_post s C buf C' out"
proof (induction "card (db_reference ` set (bs_index s) - C) + length buf" arbitrary: C buf acc rule: less_induct)
  case less
  note pre = less.prems
  show ?case
  proof (cases buf)
    case Nil
    then show ?thesis using pre by (simp add: loop_pre_def loop_post_def committed_closed_def)
  next
    case (Cons x rest)
    have xs: "x \<in> set (bs_index s)" using pre Cons by (simp add: loop_pre_def)
    obtain new where new: "push_includes s (db_includes x) C rest = Some (C \<union> set (db_includes x), new @ rest)"
        "push_includes g (db_includes x) C rest = Some (C \<union> set (db_includes x), new @ rest)"
        "set new \<subseteq> set (bs_index s)" "db_reference ` set new = set (db_includes x) - C" "distinct (map db_reference new)"
      using push_includes_view [OF G s, of "db_includes x" C rest] viewD(2) [OF s xs] by blast
    let ?C = "C \<union> set (db_includes x)"
    have pre': "loop_pre s ?C (new @ rest)" by (rule loop_pre_step [OF G s pre [unfolded Cons] new(3-5)])
    have less': "card (db_reference ` set (bs_index s) - ?C) + length (new @ rest) <
        card (db_reference ` set (bs_index s) - C) + length buf"
      using push_includes_measure [OF new(1)] Cons by simp
    obtain C' out where o: "collect_loop s ?C (new @ rest) (acc @ [x]) = Some (C', (acc @ [x]) @ out)"
        "collect_loop g ?C (new @ rest) (acc @ [x]) = Some (C', (acc @ [x]) @ out)" "loop_post s ?C (new @ rest) C' out"
      using less.hyps [OF less' pre'] by blast
    have "loop_post s C buf C' (x # out)" unfolding Cons by (rule loop_post_step [OF pre [unfolded Cons] new(3,4) o(3)])
    then show ?thesis using o(1,2) new(1,2) Cons by (intro exI [where x = C'] exI [where x = "x # out"]) simp
  qed
qed

section \<open>Sub-dags\<close>

text \<open>The blocks of the causal history of the leader that are not committed, each once, in the order of their rounds.\<close>

definition is_sub_dag :: "block_store \<Rightarrow> block_reference set \<Rightarrow> dag_block \<Rightarrow> committed_sub_dag \<Rightarrow> bool" where
  "is_sub_dag s C leader d \<longleftrightarrow> sd_anchor d = db_reference leader \<and>
     set (sd_blocks d) = {b \<in> history s {leader}. db_reference b \<notin> C} \<and>
     distinct (map db_reference (sd_blocks d)) \<and> sorted (map db_round (sd_blocks d))"

lemma history_committed:
  assumes "committed_closed s C" and "b \<in> history s S" and "\<And>x. x \<in> S \<Longrightarrow> db_reference x \<in> C \<and> x \<in> set (bs_index s)"
  shows "db_reference b \<in> C \<and> b \<in> set (bs_index s)"
  using assms(2) by induction (use assms(1,3) in \<open>auto simp: committed_closed_def\<close>)

lemma collect_sub_dag_view:
  assumes G: "good_dag c q honest g" and s: "view g s" and l: "leader \<in> set (bs_index s)" "db_reference leader \<notin> C"
    and C: "committed_closed s C"
  obtains d where "collect_sub_dag s leader C = Some (C \<union> db_reference ` set (sd_blocks d), d)"
    and "collect_sub_dag g leader C = Some (C \<union> db_reference ` set (sd_blocks d), d)"
    and "is_sub_dag s C leader (sub_dag_sort d)" and "committed_closed s (C \<union> db_reference ` set (sd_blocks d))"
proof -
  have unique: "x = b" if "x \<in> set (bs_index s)" "b \<in> set (bs_index s)" "db_reference x = db_reference b" for x b
    using good_dagD(4) [OF G] viewD(1) [OF s] that by blast
  have "loop_pre s (insert (db_reference leader) C) [leader]"
    using l C unique [OF _ l(1)] by (auto simp: loop_pre_def committed_closed_def)
  from collect_loop_view [OF G s this, of "[]"] obtain C' out
    where o: "collect_loop s (insert (db_reference leader) C) [leader] [] = Some (C', out)"
      "collect_loop g (insert (db_reference leader) C) [leader] [] = Some (C', out)"
      "loop_post s (insert (db_reference leader) C) [leader] C' out" by auto
  have post: "set out \<subseteq> set (bs_index s)" "C' = insert (db_reference leader) C \<union> db_reference ` set out"
      "distinct (map db_reference out)" "leader \<in> set out" "set out \<subseteq> history s {leader}"
      "db_reference ` set out \<inter> (insert (db_reference leader) C - {db_reference leader}) = {}" "committed_closed s C'"
    using o(3) by (auto simp: loop_post_def)
  have C': "C' = C \<union> db_reference ` set out" using post(2,4) by auto
  have "b \<in> set out" if b: "b \<in> history s {leader}" "db_reference b \<notin> C" for b
  proof -
    have "db_reference b \<in> C' \<and> b \<in> set (bs_index s)"
      by (rule history_committed [OF post(7) b(1)]) (use post(2) l(1) in auto)
    then have bs: "b \<in> set (bs_index s)" "db_reference b \<in> db_reference ` set out" using b(2) C' by auto
    then obtain y where "y \<in> set out" "db_reference y = db_reference b" by (metis imageE)
    then show ?thesis using unique [OF _ bs(1)] post(1) by blast
  qed
  then have exact: "set out = {b \<in> history s {leader}. db_reference b \<notin> C}" using post(5,6) l(2) by auto
  let ?d = "\<lparr>sd_anchor = db_reference leader, sd_blocks = out\<rparr>"
  have "distinct (map db_reference (sort_key db_round out))" using post(3) by (simp add: distinct_map)
  then have "is_sub_dag s C leader (sub_dag_sort ?d)" using exact by (simp add: is_sub_dag_def sub_dag_sort_def)
  with that [of ?d] show thesis using o(1,2) l(2) post(7) C' by (simp add: collect_sub_dag_def)
qed

fun are_sub_dags ::
  "block_store \<Rightarrow> block_reference set \<Rightarrow> dag_block list \<Rightarrow> committed_sub_dag list \<Rightarrow> bool" where
  "are_sub_dags s C [] ds \<longleftrightarrow> ds = []"
| "are_sub_dags s C (leader # leaders) ds \<longleftrightarrow>
     (case ds of
        [] \<Rightarrow> False
      | d # ds \<Rightarrow> is_sub_dag s C leader d \<and> are_sub_dags s (C \<union> db_reference ` set (sd_blocks d)) leaders ds)"

lemma history_rounds:
  assumes G: "good_dag c q honest g" and s: "view g s" and b: "b \<in> history s {x}" and x: "x \<in> set (bs_index s)"
  shows "(b = x \<or> db_round b < db_round x) \<and> b \<in> set (bs_index s)"
  using b
proof induction
  case (step b y)
  then show ?case using good_dag_block(2) [OF G viewD(1) [OF s], of b "db_reference y"] by auto
qed (use x in auto)

lemma handle_commit_view:
  assumes G: "good_dag c q honest g" and s: "view g s"
  shows "\<lbrakk>set leaders \<subseteq> set (bs_index s); sorted (map db_round leaders); distinct leaders;
      committed_closed s C; \<And>l. l \<in> set leaders \<Longrightarrow> db_reference l \<notin> C\<rbrakk> \<Longrightarrow>
    \<exists>C' ds. handle_commit s leaders C = Some (C', ds) \<and> handle_commit g leaders C = Some (C', ds) \<and>
      are_sub_dags s C leaders ds \<and> committed_closed s C'"
proof (induction leaders arbitrary: C)
  case (Cons l leaders)
  have l: "l \<in> set (bs_index s)" "db_reference l \<notin> C" using Cons.prems(1,5) by auto
  obtain d where d: "collect_sub_dag s l C = Some (C \<union> db_reference ` set (sd_blocks d), d)"
      "collect_sub_dag g l C = Some (C \<union> db_reference ` set (sd_blocks d), d)"
      "is_sub_dag s C l (sub_dag_sort d)" "committed_closed s (C \<union> db_reference ` set (sd_blocks d))"
    by (rule collect_sub_dag_view [OF G s l Cons.prems(4)])
  have "db_reference x \<notin> C \<union> db_reference ` set (sd_blocks d)" if x: "x \<in> set leaders" for x
  proof
    assume "db_reference x \<in> C \<union> db_reference ` set (sd_blocks d)"
    then obtain y where y: "y \<in> set (sd_blocks d)" "db_reference y = db_reference x" using Cons.prems(5) [of x] x by auto
    have "y \<in> history s {l}" using y(1) d(3) by (simp add: is_sub_dag_def sub_dag_sort_def)
    from history_rounds [OF G s this l(1)] have "(y = l \<or> db_round y < db_round l) \<and> y \<in> set (bs_index s)" .
    moreover have "x = y" using good_dagD(4) [OF G, of x y] viewD(1) [OF s] Cons.prems(1) x y(2) calculation by auto
    ultimately show False using Cons.prems(2,3) x by auto
  qed
  then obtain C' ds where IH: "handle_commit s leaders (C \<union> db_reference ` set (sd_blocks d)) = Some (C', ds)"
      "handle_commit g leaders (C \<union> db_reference ` set (sd_blocks d)) = Some (C', ds)"
      "are_sub_dags s (C \<union> db_reference ` set (sd_blocks d)) leaders ds" "committed_closed s C'"
    using Cons.IH [OF _ _ _ d(4)] Cons.prems(1,2,3) by auto
  then show ?case using d(1-3) by (simp add: sub_dag_sort_def)
qed simp

lemma handle_commit_append:
  "handle_commit s (xs @ ys) C =
     Option.bind (handle_commit s xs C) (\<lambda>(C', ds). map_option (\<lambda>(C'', ds'). (C'', ds @ ds')) (handle_commit s ys C'))"
proof (induction xs arbitrary: C)
  case Nil
  then show ?case by (simp add: map_option_case split: option.split)
next
  case (Cons x xs)
  then show ?case by (auto simp: map_option_case split: option.split bind_split)
qed

lemma history_insert: "history s (insert x S) = history s {x} \<union> history s S"
proof (intro equalityI subsetI)
  fix b assume "b \<in> history s (insert x S)"
  then show "b \<in> history s {x} \<union> history s S"
  proof induction
    case (start b)
    then show ?case using history.start [of b "{x}" s] history.start [of b S s] by auto
  next
    case (step b y)
    then show ?case using history.step [of b s "{x}" y] history.step [of b s S y] by auto
  qed
next
  fix b assume "b \<in> history s {x} \<union> history s S"
  moreover have "history s {x} \<subseteq> history s (insert x S)" "history s S \<subseteq> history s (insert x S)"
    by (intro history_mono subsetI history.start, simp)+
  ultimately show "b \<in> history s (insert x S)" by blast
qed

lemma history_empty: "history s {} = {}"
proof -
  have "b \<notin> history s {}" for b
  proof
    assume "b \<in> history s {}"
    then show False by induction auto
  qed
  then show ?thesis by blast
qed

lemma history_in: "S \<subseteq> set (bs_index s) \<Longrightarrow> history s S \<subseteq> set (bs_index s)"
proof
  fix b assume "S \<subseteq> set (bs_index s)" and "b \<in> history s S"
  from this(2,1) show "b \<in> set (bs_index s)" by induction auto
qed

lemma are_sub_dags_once:
  assumes u: "inj_on db_reference (set (bs_index s))"
  shows "are_sub_dags s C leaders ds \<Longrightarrow> set leaders \<subseteq> set (bs_index s) \<Longrightarrow>
    set (concat (map sd_blocks ds)) = {b \<in> history s (set leaders). db_reference b \<notin> C} \<and>
    distinct (map db_reference (concat (map sd_blocks ds)))"
proof (induction leaders arbitrary: C ds)
  case Nil
  then show ?case by (simp add: history_empty)
next
  case (Cons l leaders)
  then obtain d ds' where ds: "ds = d # ds'" by (cases ds) auto
  have sub: "is_sub_dag s C l d" "are_sub_dags s (C \<union> db_reference ` set (sd_blocks d)) leaders ds'"
    using Cons.prems(1) by (simp_all add: ds)
  have d: "set (sd_blocks d) = {b \<in> history s {l}. db_reference b \<notin> C}" "distinct (map db_reference (sd_blocks d))"
    using sub(1) by (simp_all add: is_sub_dag_def)
  have "set leaders \<subseteq> set (bs_index s)" using Cons.prems(2) by simp
  note IH = Cons.IH [OF sub(2) this]
  have "b \<in> set (sd_blocks d)" if b: "b \<in> history s (set leaders)" "db_reference b \<in> db_reference ` set (sd_blocks d)" for b
  proof -
    obtain y where y: "y \<in> set (sd_blocks d)" "db_reference b = db_reference y" using b(2) by auto
    have "{l} \<subseteq> set (bs_index s)" "set leaders \<subseteq> set (bs_index s)" using Cons.prems(2) by simp_all
    then have "y \<in> set (bs_index s)" "b \<in> set (bs_index s)"
      using subsetD [OF history_in] y(1) b(1) unfolding d(1) by blast+
    then have "b = y" using inj_onD [OF u y(2)] by blast
    then show ?thesis using y(1) by simp
  qed
  note known = this
  have hist: "history s (set (l # leaders)) = history s {l} \<union> history s (set leaders)"
    using history_insert [of s l "set leaders"] by simp
  have "b \<in> set (concat (map sd_blocks ds)) \<longleftrightarrow> b \<in> history s (set (l # leaders)) \<and> db_reference b \<notin> C" for b
  proof -
    have "b \<in> set (concat (map sd_blocks ds)) \<longleftrightarrow> b \<in> set (sd_blocks d) \<or> b \<in> set (concat (map sd_blocks ds'))"
      by (simp add: ds)
    also have "\<dots> \<longleftrightarrow> b \<in> set (sd_blocks d) \<or>
        b \<in> history s (set leaders) \<and> db_reference b \<notin> C \<and> db_reference b \<notin> db_reference ` set (sd_blocks d)"
      unfolding conjunct1 [OF IH] by simp
    also have "\<dots> \<longleftrightarrow> b \<in> set (sd_blocks d) \<or> b \<in> history s (set leaders) \<and> db_reference b \<notin> C"
      using known [of b] by blast
    also have "\<dots> \<longleftrightarrow> b \<in> history s (set (l # leaders)) \<and> db_reference b \<notin> C" unfolding hist d(1) by simp blast
    finally show ?thesis .
  qed
  then have "set (concat (map sd_blocks ds)) = {b \<in> history s (set (l # leaders)). db_reference b \<notin> C}" by blast
  moreover have "db_reference x \<notin> db_reference ` set (sd_blocks d)" if "x \<in> set (concat (map sd_blocks ds'))" for x
    using that unfolding conjunct1 [OF IH] by simp
  then have "set (map db_reference (sd_blocks d)) \<inter> set (map db_reference (concat (map sd_blocks ds'))) = {}"
    unfolding set_map disjoint_iff by (metis imageE)
  then have "distinct (map db_reference (sd_blocks d) @ map db_reference (concat (map sd_blocks ds')))"
    using d(2) conjunct2 [OF IH] by (simp only: distinct_append simp_thms)
  then have "distinct (map db_reference (concat (map sd_blocks ds)))" by (simp only: ds list.map concat.simps map_append)
  ultimately show ?case by (rule conjI)
qed

end
