(* ===== verification/Consensus_Correct.thy ===== *)
theory Consensus_Correct
  imports Commit_Order Linearizer
begin

text \<open>
  Safety of the consensus: validators that run one protocol on views of one DAG, with at most the tolerated stake
  faulty, commit the same leaders and output the same sub-dags in the same order.
\<close>

definition consensus_setting ::
  "consensus_protocol \<Rightarrow> committee \<Rightarrow> protocol \<Rightarrow> authority set \<Rightarrow> block_store \<Rightarrow> bool" where
  "consensus_setting self cm p honest g \<longleftrightarrow> committee_ok cm \<and> to_protocol self cm = Some (Inr p) \<and>
     tolerates cm honest self \<and> dag_ok cm (pr_quorum_threshold p) honest g"

lemma consensus_settingD:
  assumes "consensus_setting self cm p honest g"
  shows "good_dag cm (pr_quorum_threshold p) honest g"
    and "safe_committers cm (pr_quorum_threshold p) honest (co_base_committers (committer_new cm p))"
    and "distinct (leaders_at (co_base_committers (committer_new cm p)) k)"
proof -
  have safe: "safe_protocol cm honest p" using assms to_protocol_safe by (auto simp: consensus_setting_def)
  then have "2 \<le> pr_wave_length p"
    by (auto simp: safe_protocol_def safe_rule_def positive_rule_def base_committer_new_def Let_def)
  then show "distinct (leaders_at (co_base_committers (committer_new cm p)) k)"
    using distinct_leaders_at to_protocol_leader_count assms by (auto simp: consensus_setting_def)
  show "good_dag cm (pr_quorum_threshold p) honest g"
    using safe assms by (simp add: good_dag_def consensus_setting_def safe_protocol_def)
  show "safe_committers cm (pr_quorum_threshold p) honest (co_base_committers (committer_new cm p))"
    by (rule safe_protocol_committers [OF safe])
qed

section \<open>Runs of the committer\<close>

lemma fresh_run:
  assumes "consensus_setting self cm p honest g" and "view g s"
  obtains xs where
    "decide_rounds s (co_base_committers (committer_new cm p)) (rev [0..<Suc (bs_highest_round s)]) [] = Some xs"
    and "map slot xs = slots_up_to (co_base_committers (committer_new cm p)) (Suc (bs_highest_round s))"
    and "decided_from s xs" and "sorted (map ls_round xs)" and "distinct (map slot xs)"
proof -
  let ?bcs = "co_base_committers (committer_new cm p)" and ?n = "Suc (bs_highest_round s)"
  note D = consensus_settingD [OF assms(1)]
  obtain xs where xs: "decide_rounds s ?bcs (rev [0..<?n]) [] = Some xs" "map slot xs = slots_up_to ?bcs ?n" "decided_from s xs"
    by (rule run_order [OF D(1) assms(2) D(2)])
  have "map ls_round xs = map fst (map slot xs)" by (simp add: slot_def)
  then have "sorted (map ls_round xs)" using sorted_slots unfolding xs(2) by simp
  moreover have "distinct (map slot xs)" unfolding xs(2) by (rule distinct_slots) (rule D(3))
  ultimately show thesis by (rule that [OF xs])
qed

definition committed_part :: "leader_status list \<Rightarrow> leader_status list" where
  "committed_part xs = takeWhile is_decided (filter (\<lambda>x. ls_round x > 0) xs)"

lemma committed_part_keeps:
  assumes "sorted (map ls_round xs)" and "distinct (map slot xs)" and "decided_from s xs"
  shows "sorted (map ls_round (committed_part xs))" and "distinct (map slot (committed_part xs))"
    and "decided_from s (committed_part xs)" and "\<forall>x \<in> set (committed_part xs). is_decided x"
proof -
  have "sorted (map ls_round (filter (\<lambda>x. ls_round x > 0) xs))" using assms(1) by (rule sorted_filter)
  then show "sorted (map ls_round (committed_part xs))"
    unfolding committed_part_def
    by (subst (asm) takeWhile_dropWhile_id [of is_decided, symmetric]) (simp only: map_append sorted_append)
  show "distinct (map slot (committed_part xs))"
  proof -
    have "set (committed_part xs) \<subseteq> set xs" by (auto simp: committed_part_def dest: set_takeWhileD)
    moreover have "distinct (committed_part xs)" using assms(2) by (simp add: committed_part_def distinct_map)
    ultimately show ?thesis using assms(2) inj_on_subset by (auto simp: distinct_map)
  qed
  show "decided_from s (committed_part xs)" "\<forall>x \<in> set (committed_part xs). is_decided x"
    using assms(3) by (auto simp: committed_part_def decided_from_def dest: set_takeWhileD)
qed

lemma try_commit_fresh:
  "committer_try_commit co s None =
     map_option committed_part (decide_rounds s (co_base_committers co) (rev [0..<Suc (bs_highest_round s)]) [])"
  by (simp add: committer_try_commit_def committed_part_def [abs_def] del: upt_Suc)

text \<open>
  C1: Two validators that hold views of one DAG, at most the tolerated stake of whose authors is faulty, both finish
  the commit rule without a panic, and one of the two sequences of decisions is a prefix of the other: the same slots
  in the same order, each committed with the same block or skipped by both. This holds for every protocol of the
  library under its own fault bound.
\<close>

theorem committer_agreement:
  assumes "consensus_setting self cm p honest g" and "view g s" and "view g t"
  shows "\<exists>xs ys. committer_try_commit (committer_new cm p) s None = Some xs \<and>
    committer_try_commit (committer_new cm p) t None = Some ys \<and> comparable (map outcome xs) (map outcome ys)"
  using try_commit_agree [OF consensus_settingD(1) [OF assms(1)] assms(2,3) consensus_settingD(2) [OF assms(1)]] .

section \<open>The cursor\<close>

lemma dropWhile_slot:
  assumes "distinct (map slot (as @ x # bs))"
  shows "drop 1 (dropWhile (\<lambda>y. slot y \<noteq> slot x) (as @ x # bs)) = bs"
proof -
  have "slot x \<notin> slot ` set as" using assms by simp
  then have "\<forall>y \<in> set as. slot y \<noteq> slot x" by (metis imageI)
  then show ?thesis by (simp add: dropWhile_append2)
qed

lemma takeWhile_after:
  assumes "takeWhile P (as @ x # bs) = us @ x # ys" and "distinct (as @ x # bs)"
  shows "takeWhile P bs = ys"
proof -
  have "as @ x # bs = (us @ x # ys) @ dropWhile P (as @ x # bs)" using takeWhile_dropWhile_id [of P "as @ x # bs"] assms(1) by simp
  then have "as @ x # bs = us @ x # (ys @ dropWhile P (as @ x # bs))" by simp
  moreover have "x \<notin> set as" "x \<notin> set bs" using assms(2) by auto
  ultimately have "as = us" by (metis append_Cons_eq_iff)
  moreover have "P y" if "y \<in> set (us @ [x])" for y
    by (rule conjunct2 [OF set_takeWhileD [where xs = "as @ x # bs"]]) (use that assms(1) in auto)
  ultimately show ?thesis using assms(1) by (simp add: takeWhile_append2)
qed

text \<open>
  C2: A validator that continues from the slot of a decision it has consumed gets exactly the decisions that a run from
  the beginning lists after that slot: no decision is lost, repeated or changed by keeping a cursor.
\<close>

theorem committer_resumes:
  assumes C: "consensus_setting self cm p honest g" and s: "view g s"
    and run: "committer_try_commit (committer_new cm p) s None = Some (us @ x # ys)"
  shows "committer_try_commit (committer_new cm p) s (Some (slot x)) = Some ys"
proof -
  let ?bcs = "co_base_committers (committer_new cm p)" and ?n = "Suc (bs_highest_round s)" and ?k = "ls_round x"
  note D = consensus_settingD [OF C]
  obtain xs where xs: "decide_rounds s ?bcs (rev [0..<?n]) [] = Some xs" "map slot xs = slots_up_to ?bcs ?n"
      "decided_from s xs" "sorted (map ls_round xs)" "distinct (map slot xs)"
    by (rule fresh_run [OF C s])
  have part: "committed_part xs = us @ x # ys" using run xs(1) by (simp add: try_commit_fresh del: upt_Suc)
  then have x: "x \<in> set xs" "0 < ?k" by (auto simp: committed_part_def dest!: arg_cong [where f = set] set_takeWhileD)
  then have "slot x \<in> set (slots_up_to ?bcs ?n)" using xs(2) by (metis image_eqI set_map)
  then have k: "?k < ?n" using slots_up_to_rounds by (fastforce simp: slot_def)
  have ks: "rev [0..<?n] = rev [?k..<?n] @ rev [0..<?k]"
    using upt_add_eq_append [of 0 ?k "?n - ?k"] k by (simp del: upt_Suc flip: rev_append)
  obtain zs where zs: "decide_rounds s ?bcs (rev [?k..<?n]) [] = Some zs" "decided_from s zs"
    using decide_rounds_order [OF D(1) s D(2), of "[]" "rev [?k..<?n]"] by (auto simp: decided_from_def)
  obtain new where new: "decide_rounds s ?bcs (rev [0..<?k]) zs = Some (new @ zs)" "map slot new = slots_up_to ?bcs ?k"
    using decide_rounds_order [OF D(1) s D(2) zs(2), of "rev [0..<?k]"] by (auto simp: slots_up_to_def)
  have all: "xs = new @ zs" using xs(1) new(1) zs(1) unfolding ks decide_rounds_append by simp
  have "x \<notin> set new"
  proof
    assume "x \<in> set new"
    then have "slot x \<in> set (slots_up_to ?bcs ?k)" using new(2) by (metis image_eqI set_map)
    then show False using slots_up_to_rounds by (fastforce simp: slot_def)
  qed
  then obtain as bs where split: "zs = as @ x # bs" using x(1) all by (auto dest: split_list)
  have "distinct (map slot zs)" using xs(5) all by simp
  then have rest: "drop 1 (dropWhile (\<lambda>y. slot y \<noteq> slot x) zs) = bs" unfolding split by (rule dropWhile_slot)
  let ?f = "filter (\<lambda>x. 0 < ls_round x)"
  have "takeWhile is_decided (?f (new @ as) @ x # ?f bs) = us @ x # ys"
    using part x(2) by (simp add: committed_part_def all split)
  moreover have "distinct (?f (new @ as) @ x # ?f bs)"
    using distinct_map [THEN iffD1, OF xs(5)] x(2) by (auto simp: all split)
  ultimately have "takeWhile is_decided (?f bs) = ys" by (rule takeWhile_after)
  then show ?thesis using zs(1) rest by (simp add: committer_try_commit_def slot_def del: upt_Suc)
qed

section \<open>The output of a validator\<close>

text \<open>What a validator hands to the application: the sub-dags of the leaders it commits.\<close>

definition commit_output :: "committer \<Rightarrow> block_store \<Rightarrow> committed_sub_dag list option" where
  "commit_output co s =
     Option.bind (core_try_commit co s None) (\<lambda>(_, leaders). map_option snd (handle_commit s leaders {}))"

lemma committed_leaders:
  assumes C: "consensus_setting self cm p honest g" and s: "view g s"
    and run: "committer_try_commit (committer_new cm p) s None = Some xs"
  defines "leaders \<equiv> List.map_filter leader_block xs"
  shows "\<exists>cursor. core_try_commit (committer_new cm p) s None = Some (cursor, leaders)"
    and "set leaders \<subseteq> set (bs_index s) \<and> sorted (map db_round leaders) \<and> distinct leaders"
proof -
  obtain ys where ys: "decide_rounds s (co_base_committers (committer_new cm p)) (rev [0..<Suc (bs_highest_round s)]) [] = Some ys"
      "decided_from s ys" "sorted (map ls_round ys)" "distinct (map slot ys)"
    by (rule fresh_run [OF C s])
  have xs: "xs = committed_part ys" using run ys(1) by (simp add: try_commit_fresh del: upt_Suc)
  note keeps = committed_part_keeps [OF ys(3,4,2), folded xs]
  show "\<exists>cursor. core_try_commit (committer_new cm p) s None = Some (cursor, leaders)"
    using core_try_commit_decided [OF run keeps(4)] by (simp add: leaders_def)
  show "set leaders \<subseteq> set (bs_index s) \<and> sorted (map db_round leaders) \<and> distinct leaders"
    unfolding leaders_def by (rule committed_leaders_order [OF keeps(1-3)])
qed

lemma commit_output_view:
  assumes C: "consensus_setting self cm p honest g" and s: "view g s"
    and run: "committer_try_commit (committer_new cm p) s None = Some xs"
  obtains C' ds where "commit_output (committer_new cm p) s = Some ds"
    and "handle_commit g (List.map_filter leader_block xs) {} = Some (C', ds)"
    and "are_sub_dags s {} (List.map_filter leader_block xs) ds"
proof -
  note L = committed_leaders [OF C s run]
  have "\<exists>C' ds. handle_commit s (List.map_filter leader_block xs) {} = Some (C', ds) \<and>
      handle_commit g (List.map_filter leader_block xs) {} = Some (C', ds) \<and>
      are_sub_dags s {} (List.map_filter leader_block xs) ds \<and> committed_closed s C'"
    by (rule handle_commit_view [OF consensus_settingD(1) [OF C] s]) (use L(2) in \<open>simp_all add: committed_closed_def\<close>)
  then show thesis using that L(1) by (auto simp: commit_output_def)
qed

lemma comparable_leaders:
  assumes "comparable (map outcome xs) (map outcome ys)"
  shows "comparable (List.map_filter leader_block xs) (List.map_filter leader_block ys)"
proof -
  let ?pick = "\<lambda>(_ :: nat, _ :: nat, d). case d of Some b \<Rightarrow> b | None \<Rightarrow> None"
  have "leader_block = ?pick \<circ> outcome" by (simp add: fun_eq_iff outcome_def leader_block_def)
  then show ?thesis using comparable_map_filter [OF assms, of ?pick] by simp
qed

lemma handle_commit_prefix:
  assumes "prefix xs ys" and "handle_commit g xs {} = Some (C, ds)" and "handle_commit g ys {} = Some (C', ds')"
  shows "prefix ds ds'"
  using assms by (auto simp: prefix_def handle_commit_append)

text \<open>
  C3: The sub-dags two validators output are prefixes of one another, blocks and their order included: validators that
  follow the commit rule execute the same transactions in the same order, as far as both have come. Neither the commit
  rule nor the linearizer panics on the way.
\<close>

theorem sub_dag_agreement:
  assumes C: "consensus_setting self cm p honest g" and s: "view g s" and t: "view g t"
  shows "\<exists>ds ds'. commit_output (committer_new cm p) s = Some ds \<and> commit_output (committer_new cm p) t = Some ds' \<and>
    comparable ds ds'"
proof -
  obtain xs ys where run: "committer_try_commit (committer_new cm p) s None = Some xs"
      "committer_try_commit (committer_new cm p) t None = Some ys" "comparable (map outcome xs) (map outcome ys)"
    using try_commit_agree [OF consensus_settingD(1) [OF C] s t consensus_settingD(2) [OF C]] by blast
  obtain C1 ds where 1: "commit_output (committer_new cm p) s = Some ds"
      "handle_commit g (List.map_filter leader_block xs) {} = Some (C1, ds)"
    by (rule commit_output_view [OF C s run(1)])
  obtain C2 ds' where 2: "commit_output (committer_new cm p) t = Some ds'"
      "handle_commit g (List.map_filter leader_block ys) {} = Some (C2, ds')"
    by (rule commit_output_view [OF C t run(2)])
  have "comparable ds ds'"
    using comparable_leaders [OF run(3)] handle_commit_prefix [OF _ 1(2) 2(2)] handle_commit_prefix [OF _ 2(2) 1(2)]
    by (auto simp: comparable_def)
  then show ?thesis using 1(1) 2(1) by blast
qed

text \<open>
  C4: The linearizer outputs, for the leaders a validator commits, sub-dags whose blocks taken together are exactly the
  causal history of these leaders, every block once; each sub-dag holds what the ones before it have not committed, in
  the order of rounds.
\<close>

theorem linearizer_exact:
  assumes C: "consensus_setting self cm p honest g" and s: "view g s"
  shows "\<exists>cursor leaders ds. core_try_commit (committer_new cm p) s None = Some (cursor, leaders) \<and>
    commit_output (committer_new cm p) s = Some ds \<and> are_sub_dags s {} leaders ds \<and>
    set (concat (map sd_blocks ds)) = history s (set leaders) \<and> distinct (map db_reference (concat (map sd_blocks ds)))"
proof -
  obtain xs where run: "committer_try_commit (committer_new cm p) s None = Some xs"
    using try_commit_agree [OF consensus_settingD(1) [OF C] s s consensus_settingD(2) [OF C]] by blast
  obtain C1 ds where ds: "commit_output (committer_new cm p) s = Some ds"
      "are_sub_dags s {} (List.map_filter leader_block xs) ds"
    by (rule commit_output_view [OF C s run])
  have "inj_on db_reference (set (bs_index s))"
    using good_dagD(4) [OF consensus_settingD(1) [OF C]] viewD(1) [OF s] by (auto intro: inj_onI)
  from are_sub_dags_once [OF this ds(2)] have
    "set (concat (map sd_blocks ds)) = history s (set (List.map_filter leader_block xs)) \<and>
      distinct (map db_reference (concat (map sd_blocks ds)))"
    using committed_leaders(2) [OF C s run] by simp
  then show ?thesis using committed_leaders(1) [OF C s run] ds by blast
qed

end
