(* ===== verification/Consensus_Example.thy ===== *)
theory Consensus_Example
  imports Consensus_Correct
begin

text \<open>A committee of four with one faulty authority, and a DAG in which it signs two blocks of round 1.\<close>

definition example_committee :: committee where
  "example_committee =
     (let a = \<lparr>ai_stake = 1, ai_public_key = []\<rparr> in \<lparr>cm_authorities = [a, a, a, a], cm_total_stake = 4\<rparr>)"

definition example_block :: "authority \<Rightarrow> round_number \<Rightarrow> hash32 \<Rightarrow> authority list \<Rightarrow> dag_block" where
  "example_block a r d as =
     \<lparr>db_reference = \<lparr>br_authority = a, br_round = r, br_digest = d\<rparr>,
      db_includes = map (\<lambda>a. \<lparr>br_authority = a, br_round = r - 1, br_digest = zero_hash\<rparr>) as, db_transactions = [],
      db_timestamp_ns = 0, db_signature = []\<rparr>"

definition example_blocks :: "dag_block list" where
  "example_blocks =
     map (\<lambda>a. example_block a 0 zero_hash []) [0, 1, 2, 3] @
     [example_block 0 1 zero_hash [0, 1, 2], example_block 1 1 zero_hash [1, 0, 2], example_block 2 1 zero_hash [2, 0, 3],
      example_block 3 1 zero_hash [3, 0, 1], example_block 3 1 (xor_byte zero_hash 0 1) [3, 0, 2]]"

definition example_store :: "nat \<Rightarrow> block_store" where
  "example_store n =
     (store_new 0 example_committee)\<lparr>bs_index := take n example_blocks, bs_highest_round := (if n \<le> 4 then 0 else 1)\<rparr>"

lemma example_digest: "xor_byte zero_hash 0 1 \<noteq> zero_hash"
proof
  assume "xor_byte zero_hash 0 1 = zero_hash"
  then have "hbytes (xor_byte zero_hash 0 1) ! 0 = hbytes zero_hash ! 0" by simp
  then show False by (simp add: xor_byte_def Hash32_inverse)
qed

lemma example_committee_ok: "committee_ok example_committee"
  by (simp add: committee_ok_def example_committee_def committee_new_def checked_add_def Let_def)

lemma example_len: "committee_len example_committee = 4"
  by (simp add: example_committee_def committee_len_def Let_def)

lemma example_stake: "a < 4 \<Longrightarrow> stake_at example_committee a = 1"
  by (auto simp: stake_at_def example_committee_def Let_def less_Suc_eq numeral_eq_Suc)

lemma example_votes:
  assumes "x < 4" "y < 4" "z < 4" "x \<noteq> y" "x \<noteq> z" "y \<noteq> z"
  shows "threshold_clock_valid_non_genesis example_committee 3 (example_block a 1 d [x, y, z]) = Some True"
proof -
  note add = sa_add_spec [OF example_committee_ok]
  obtain a1 where a1: "sa_add example_committee x (sa_new 3) =
      Some (unat (sa_threshold (sa_new 3)) \<le> stake_of example_committee {x}, a1)"
      "counts example_committee {x} a1" "sa_threshold a1 = 3"
    using add [OF counts_new, of x 3] assms(1) by (auto simp: example_len sa_new_def)
  obtain a2 where a2: "sa_add example_committee y a1 = Some (3 \<le> stake_of example_committee {y, x}, a2)"
      "counts example_committee {y, x} a2" "sa_threshold a2 = 3"
    using add [OF a1(2), of y] assms(2) a1(3) by (auto simp: example_len)
  obtain a3 where a3: "sa_add example_committee z a2 = Some (3 \<le> stake_of example_committee {z, y, x}, a3)"
    using add [OF a2(2), of z] assms(3) a2(3) by (auto simp: example_len)
  have "stake_of example_committee {z, y, x} = 3"
    using assms by (simp add: stake_of_insert example_len example_stake)
  then show ?thesis using a1(1) a2(1) a3
    by (simp add: threshold_clock_valid_non_genesis_def example_block_def)
qed

lemma example_verified:
  assumes "a < 4" "x < 4" "y < 4" "z < 4" "x \<noteq> y" "x \<noteq> z" "y \<noteq> z"
  shows "verified example_committee 3 (example_block a 1 d [x, y, z])"
proof -
  have "block_verify (\<lambda>_ b. Some (db_digest b)) example_committee 3 (example_block a 1 d [x, y, z]) = Some (Inr ())"
    using assms example_votes [OF assms(2-), of a d] unfolding block_verify_def
    by (simp add: get_public_key_def example_len GENESIS_ROUND_def check_includes_ok example_block_def known_authority_def)
  then show ?thesis by (auto simp: verified_def)
qed

lemma example_genesis: "a < 4 \<Longrightarrow> genesis_block example_committee (example_block a 0 d [])"
  by (simp add: genesis_block_def example_block_def known_authority_def example_len GENESIS_ROUND_def)

lemmas example_defs = example_store_def example_blocks_def store_new_def

lemma example_index: "set (bs_index (example_store 9)) = set example_blocks"
    "set (bs_index (example_store 4)) = (\<lambda>a. example_block a 0 zero_hash []) ` {0, 1, 2, 3}"
  by (simp_all add: example_defs)

lemma example_closed: "closed (example_store 9)" "closed (example_store 4)"
  by (simp_all add: closed_def block_exists_iff example_index) (simp_all add: example_blocks_def example_block_def)

lemma example_distinct: "distinct (map db_reference example_blocks)"
  using example_digest by (simp add: example_blocks_def example_block_def eq_commute [of zero_hash])

lemma example_own: "own_chain (set example_blocks) b" if "b \<in> set example_blocks" "db_author b \<in> {0, 1, 2}" "db_round b \<noteq> 0"
proof -
  let ?p = "example_block (db_author b) 0 zero_hash []"
  have "?p \<in> set example_blocks" "\<exists>rest. db_includes b = db_reference ?p # rest"
    and r: "db_round b = 1" and "\<forall>x \<in> set example_blocks. db_round x = 0 \<or> db_round x = 1"
    using that by (auto simp: example_blocks_def example_block_def)
  moreover have "db_author ?p = db_author b" "db_round ?p = 0" by (simp_all add: example_block_def)
  ultimately show ?thesis unfolding own_chain_def by (metis le_zero_eq order_refl)
qed

lemma example_dag_ok: "dag_ok example_committee 3 {0, 1, 2} (example_store 9)"
proof -
  have u: "b = b'" if "b \<in> set example_blocks" "b' \<in> set example_blocks" "db_reference b = db_reference b'" for b b'
    using example_distinct that by (auto simp: distinct_map dest: inj_onD)
  have "list_all (\<lambda>b. genesis_block example_committee b \<or> verified example_committee 3 b) example_blocks"
    by (simp add: example_blocks_def example_genesis example_verified del: One_nat_def)
  then have v: "genesis_block example_committee b \<or> verified example_committee 3 b" if "b \<in> set example_blocks" for b
    using that by (simp add: list_all_iff)
  have h: "b' = b" if "b \<in> set example_blocks" "b' \<in> set example_blocks" "db_author b \<in> {0, 1, 2}"
      "author_round (db_reference b') = author_round (db_reference b)" for b b'
    using that by (auto simp: example_blocks_def example_block_def author_round_def)
  have "distinct (bs_index (example_store 9))"
    using example_distinct by (simp add: example_store_def distinct_map)
  then show ?thesis
    unfolding dag_ok_def example_index using example_closed(1) u v h example_own by blast
qed

lemma example_setting: "consensus_setting (Mysticeti 1) example_committee (mysticeti 4 1) {0, 1, 2} (example_store 9)"
proof -
  have total: "cm_total_stake example_committee = 4" by (simp add: example_committee_def Let_def)
  have "{..<4 :: nat} - {0, 1, 2} = {3}" by auto
  then have "faulty_stake example_committee {0, 1, 2} = 1"
    by (simp add: faulty_stake_def example_len stake_of_insert example_stake)
  then have "tolerates example_committee {0, 1, 2} (Mysticeti 1)" by (simp add: total)
  moreover have "pr_quorum_threshold (mysticeti 4 1) = 3" by (simp add: mysticeti_def)
  ultimately show ?thesis
    using example_committee_ok example_dag_ok by (simp add: consensus_setting_def to_protocol_def example_len total)
qed

lemma example_view: "view (example_store 9) (example_store 9)" "view (example_store 9) (example_store 4)"
proof -
  show "view (example_store 9) (example_store 9)" using example_dag_ok example_closed(1) by (simp add: view_def dag_ok_def)
  have "distinct (bs_index (example_store 4))" by (simp add: example_defs example_block_def)
  then show "view (example_store 9) (example_store 4)"
    using example_closed(2) unfolding view_def example_index by (auto simp: example_blocks_def)
qed

theorem committer_agreement_witness:
  "\<exists>xs ys. committer_try_commit (committer_new example_committee (mysticeti 4 1)) (example_store 4) None = Some xs \<and>
    committer_try_commit (committer_new example_committee (mysticeti 4 1)) (example_store 9) None = Some ys \<and>
    comparable (map outcome xs) (map outcome ys)"
  by (rule committer_agreement [OF example_setting example_view(2,1)])

text \<open>A committee of one, whose chain of four rounds commits the leader of round 1.\<close>

definition lone_committee :: committee where
  "lone_committee = \<lparr>cm_authorities = [\<lparr>ai_stake = 1, ai_public_key = []\<rparr>], cm_total_stake = 1\<rparr>"

definition lone_block :: "round_number \<Rightarrow> dag_block" where
  "lone_block r = example_block 0 r zero_hash (if r = 0 then [] else [0])"

definition lone_store :: block_store where
  "lone_store = (store_new 0 lone_committee)\<lparr>bs_index := map lone_block [0, 1, 2, 3], bs_highest_round := 3\<rparr>"

lemma lone_committee_ok: "committee_ok lone_committee"
  by (simp add: committee_ok_def lone_committee_def committee_new_def checked_add_def)

lemma lone_len: "committee_len lone_committee = 1"
  by (simp add: lone_committee_def committee_len_def)

lemma lone_stake: "stake_of lone_committee {0} = 1"
  by (simp add: stake_of_def stake_at_def lone_len) (simp add: lone_committee_def)

lemma lone_block_simps [simp]:
  "db_round (lone_block r) = r" "db_author (lone_block r) = 0"
  "db_includes (lone_block r) = (if r = 0 then [] else [db_reference (lone_block (r - 1))])"
  by (simp_all add: lone_block_def example_block_def)

lemma lone_ref_eq [simp]: "db_reference (lone_block r) = db_reference (lone_block r') \<longleftrightarrow> r = r'"
  by (auto simp: lone_block_def example_block_def)

lemma lone_index: "bs_index lone_store = map lone_block [0, 1, 2, 3]" "bs_highest_round lone_store = 3"
  by (simp_all add: lone_store_def store_new_def)

lemma lone_get [simp]:
  "get_blocks_by_round lone_store r = (if r < 4 then [lone_block r] else [])"
  "r < 4 \<Longrightarrow> get_block lone_store (db_reference (lone_block r)) = Some (lone_block r)"
  by (auto simp: get_blocks_by_round_def get_block_def lone_index less_Suc_eq numeral_eq_Suc)

lemma lone_add: obtains agg where "sa_add lone_committee 0 (sa_new 1) = Some (True, agg)"
  using sa_add_spec [OF lone_committee_ok counts_new, of 0 1] by (auto simp: lone_len lone_stake sa_new_def)

lemma lone_support [simp]:
  "r < 4 \<Longrightarrow> find_support lone_store 0 k (lone_block r) = Some (if k < r then Some (db_reference (lone_block k)) else None)"
  if "r \<le> k + 2"
  using that by (cases k) (auto simp: find_support_def author_round_def le_Suc_eq numeral_eq_Suc)

definition lone_protocol :: protocol where
  "lone_protocol = mysticeti 1 1"

definition lone_base :: "nat \<Rightarrow> base_committer" where
  "lone_base = base_committer_new lone_committee lone_protocol 0"

lemmas lone_base_defs = lone_base_def lone_protocol_def base_committer_new_def mysticeti_def

lemma lone_wave: "is_leader_round (bc_wave (lone_base i)) k \<longleftrightarrow> k mod 3 = i" if "k < 4" "i < 3"
proof -
  have "k = 0 \<or> k = 1 \<or> k = 2 \<or> k = 3" "i = 0 \<or> i = 1 \<or> i = 2" using that by linarith+
  then show ?thesis
    by (elim disjE)
      (simp_all add: lone_base_defs is_leader_round_def leader_round_def wave_number_def)
qed

lemma lone_elect:
  "k < 4 \<Longrightarrow> i < 3 \<Longrightarrow> elect_leader (lone_base i) k = (if k mod 3 = i then Some 0 else None)"
  using lone_wave [of k i] by (simp add: elect_leader_def) (simp add: lone_base_defs leader_elector_elect_def lone_len)

lemma lone_direct:
  assumes "k < 4" and "k mod 3 = i"
  shows "try_direct_decide (lone_base i) lone_store 0 k =
    Some (if k < 2 then DirectCommit (lone_block k) Slow else Undecided 0 k)"
proof -
  let ?w = "bc_wave (lone_base i)"
  have "leader_round ?w (wave_number ?w k) = k" using lone_wave [of k i] assms by (auto simp: is_leader_round_def)
  then have d: "decision_round ?w (wave_number ?w k) = k + 2" "voting_round ?w (wave_number ?w k) = k + 1"
    by (simp_all add: decision_round_def voting_round_def lone_base_defs Let_def)
  have bc: "bc_committee (lone_base i) = lone_committee" "bc_direct_skip_quorum (lone_base i) = 1"
      "bc_direct_commit_quorum (lone_base i) = 1" "bc_certificate_quorum (lone_base i) = 1" "bc_fast_path (lone_base i) = None"
      "wv_merged_certificates ?w = False"
    by (simp_all add: lone_base_defs)
  obtain agg where add: "sa_add lone_committee 0 (sa_new 1) = Some (True, agg)" by (rule lone_add)
  have k: "k = 0 \<or> k = 1 \<or> k = 2 \<or> k = 3" using assms(1) by linarith
  show ?thesis
    using k unfolding try_direct_decide_def d Let_def
    by (elim disjE)
      (simp_all add: enough_leader_blame_def enough_leader_support_def enough_fast_path_support_def
        get_blocks_at_authority_round_def carries_certificate_def is_vote_def bc add)
qed

definition lone_bases :: "base_committer list" where
  "lone_bases = map lone_base [0, 1, 2]"

lemma lone_committers: "co_base_committers (committer_new lone_committee lone_protocol) = lone_bases"
proof -
  have "pr_leader_count lone_protocol = Suc 0" "pr_wave_length lone_protocol = Suc (Suc (Suc 0))" "pr_pipeline lone_protocol"
    by (simp_all add: lone_protocol_def mysticeti_def)
  then show ?thesis by (simp add: committer_new_def lone_bases_def lone_base_def eval_nat_numeral)
qed

lemma lone_round:
  assumes "k < 4"
  shows "decide_slots lone_store k (rev lone_bases) xs =
    map_option (\<lambda>x. x # xs) (if k < 2 then Some (DirectCommit (lone_block k) Slow)
      else try_indirect_decide (lone_base (k mod 3)) lone_store 0 k xs)"
proof -
  have "k = 0 \<or> k = 1 \<or> k = 2 \<or> k = 3" using assms by linarith
  then show ?thesis
    by (elim disjE) (simp_all add: lone_bases_def lone_elect lone_direct map_option_case split: option.split bind_split)
qed

lemma lone_run:
  "committer_try_commit (committer_new lone_committee lone_protocol) lone_store None = Some [DirectCommit (lone_block 1) Slow]"
proof -
  have rounds: "rev [0..<Suc 3] = [3, 2, 1, 0]" by (simp add: upt_rec numeral_eq_Suc)
  have w: "wv_length (bc_wave (lone_base i)) = 3" for i by (simp add: lone_base_defs)
  show ?thesis
    unfolding committer_try_commit_def lone_committers lone_index(2) Let_def option.case rounds decide_rounds.simps
    by (simp add: lone_round w)
qed

lemma lone_set: "b \<in> set (bs_index lone_store) \<longleftrightarrow> (\<exists>r < 4. b = lone_block r)"
  by (auto simp: lone_index less_Suc_eq numeral_eq_Suc)

lemma lone_verified: "0 < r \<Longrightarrow> verified lone_committee 1 (lone_block r)"
proof -
  assume r: "0 < r"
  obtain agg where add: "sa_add lone_committee 0 (sa_new 1) = Some (True, agg)" by (rule lone_add)
  have "block_verify (\<lambda>_ b. Some (db_digest b)) lone_committee 1 (lone_block r) = Some (Inr ())"
    using r by (auto simp: block_verify_def get_public_key_def lone_len GENESIS_ROUND_def known_authority_def
        threshold_clock_valid_non_genesis_def add)
  then show ?thesis by (auto simp: verified_def)
qed

lemma lone_dag_ok: "dag_ok lone_committee 1 {0} lone_store"
proof -
  have prev: "lone_block (r - 1) \<in> set (bs_index lone_store)" if "r < 4" for r
    unfolding lone_set using that by (intro exI [of _ "r - 1"]) simp
  then have "block_exists lone_store (db_reference (lone_block (r - 1)))" if "r < 4" for r
    using that by (auto simp: block_exists_iff)
  then have "closed lone_store" by (auto simp: closed_def lone_set split: if_splits)
  moreover have "distinct (bs_index lone_store)" by (simp add: lone_index lone_block_def example_block_def)
  moreover have "genesis_block lone_committee (lone_block r) \<or> verified lone_committee 1 (lone_block r)" for r
    using lone_verified [of r] by (cases "r = 0") (auto simp: genesis_block_def GENESIS_ROUND_def known_authority_def lone_len)
  moreover have "own_chain (set (bs_index lone_store)) (lone_block r)" if "r < 4" "r \<noteq> 0" for r
    unfolding own_chain_def using that
    by (intro bexI [OF _ prev [OF that(1)]]) (auto simp: lone_set)
  ultimately show ?thesis by (auto simp: dag_ok_def lone_set author_round_def) blast
qed

lemma lone_setting: "consensus_setting (Mysticeti 1) lone_committee lone_protocol {0} lone_store"
proof -
  have "everyone lone_committee - {0} = {}" by (auto simp: lone_len)
  then have "faulty_stake lone_committee {0} = 0" unfolding faulty_stake_def by (simp only: stake_of_empty)
  moreover have "cm_total_stake lone_committee = 1" by (simp add: lone_committee_def)
  moreover have "pr_quorum_threshold lone_protocol = 1" by (simp add: lone_protocol_def mysticeti_def)
  ultimately show ?thesis using lone_committee_ok lone_dag_ok
    by (simp add: consensus_setting_def to_protocol_def lone_len lone_protocol_def)
qed

lemma lone_view: "view lone_store lone_store"
  using lone_dag_ok by (simp add: view_def dag_ok_def)

theorem committer_resumes_witness:
  "committer_try_commit (committer_new lone_committee lone_protocol) lone_store (Some (slot (DirectCommit (lone_block 1) Slow))) = Some []"
  using committer_resumes [OF lone_setting lone_view, of "[]"] lone_run by simp

theorem sub_dag_agreement_witness:
  "\<exists>ds ds'. commit_output (committer_new example_committee (mysticeti 4 1)) (example_store 4) = Some ds \<and>
    commit_output (committer_new example_committee (mysticeti 4 1)) (example_store 9) = Some ds' \<and> comparable ds ds'"
  by (rule sub_dag_agreement [OF example_setting example_view(2,1)])

theorem linearizer_exact_witness:
  "\<exists>ds. commit_output (committer_new lone_committee lone_protocol) lone_store = Some ds \<and>
    set (concat (map sd_blocks ds)) = history lone_store {lone_block 1}"
proof -
  have "core_try_commit (committer_new lone_committee lone_protocol) lone_store None =
      Some (Some (slot (DirectCommit (lone_block 1) Slow)), [lone_block 1])"
    using core_try_commit_decided [OF lone_run] by (simp add: List.map_filter_simps leader_block_def)
  then show ?thesis using linearizer_exact [OF lone_setting lone_view] by auto
qed

end
