(* ===== verification/Spec2Isabelle.thy ===== *)
theory Spec2Isabelle
  imports Sparse_Merkle_Correct Merkle_Correct Gas Coin Gas_Coin Transaction_Correct Blockchain_Correct Type_Tag_Correct Selection_Correct Change_Set_Correct Math_Natives_Correct Consensus_Example
begin

text \<open>
  A verification development for kanari-sdk.
\<close>

end
